(* ===== verification/Bridge_Prelude.thy ===== *)
theory Bridge_Prelude
  imports Main "HOL-Library.AList" "HOL-Library.Word" "HOL-Library.Multiset"
begin

text \<open>
  Shared vocabulary of the development: the C++ exception values, results that may throw,
  keyed containers as association lists, clocks and byte buffers, with the generic lemmas
  and the named collections the component theories use.

  A call that may throw returns \<open>exn + 'a\<close> (\<open>Inl\<close> is the thrown exception). The
  associative containers of the bridge (\<open>std::map\<close>, \<open>std::unordered_map\<close>) are association
  lists with distinct keys; the list order is one admissible iteration order.
\<close>

named_theorems res_iffs \<open>inversion of results that may throw\<close>
named_theorems keep_inv \<open>preservation of component invariants\<close>
named_theorems al_simps \<open>lookup and key laws of association lists\<close>

section \<open>Exceptions and results\<close>

text \<open>
  The exception classes the bridge throws or catches by type. \<open>Validation_error\<close> is the
  subclass of \<open>std::invalid_argument\<close> of protocol/validation_error.hpp and carries the
  offending request field; \<open>Rpc_error\<close> is \<open>livekit::RpcError\<close>.
\<close>

datatype exn =
    Invalid_argument string
  | Out_of_range string
  | Runtime_error string
  | Logic_error string
  | Validation_error string string
  | Rpc_error nat string

type_synonym 'a res = "exn + 'a"

fun what :: "exn \<Rightarrow> string" where
  "what (Invalid_argument m) = m"
| "what (Out_of_range m) = m"
| "what (Runtime_error m) = m"
| "what (Logic_error m) = m"
| "what (Validation_error f m) = m"
| "what (Rpc_error c m) = m"

fun is_invalid_argument :: "exn \<Rightarrow> bool" where
  "is_invalid_argument (Invalid_argument m) = True"
| "is_invalid_argument (Validation_error f m) = True"
| "is_invalid_argument _ = False"

fun is_out_of_range :: "exn \<Rightarrow> bool" where
  "is_out_of_range (Out_of_range m) = True"
| "is_out_of_range _ = False"

fun is_runtime_error :: "exn \<Rightarrow> bool" where
  "is_runtime_error (Runtime_error m) = True"
| "is_runtime_error _ = False"

fun res_bind :: "'a res \<Rightarrow> ('a \<Rightarrow> 'b res) \<Rightarrow> 'b res" where
  "res_bind (Inl e) f = Inl e"
| "res_bind (Inr x) f = f x"

lemma res_bind_Inr_iff [res_iffs]:
  "res_bind r f = Inr y \<longleftrightarrow> (\<exists>x. r = Inr x \<and> f x = Inr y)"
  by (cases r) auto

lemma res_bind_Inl_iff [res_iffs]:
  "res_bind r f = Inl e \<longleftrightarrow> r = Inl e \<or> (\<exists>x. r = Inr x \<and> f x = Inl e)"
  by (cases r) auto

text \<open>
  \<open>catch (const std::invalid_argument & exc) { throw ValidationError(field, exc.what()); }\<close>:
  the pattern every protocol parser wraps its field readers in.
\<close>

fun invalid_as :: "string \<Rightarrow> 'a res \<Rightarrow> 'a res" where
  "invalid_as field (Inr x) = Inr x"
| "invalid_as field (Inl e) =
     (if is_invalid_argument e then Inl (Validation_error field (what e)) else Inl e)"

lemma invalid_as_Inr_iff [simp]: "invalid_as f r = Inr x \<longleftrightarrow> r = Inr x"
  by (cases r) auto

section \<open>Clocks, bytes and machine integers\<close>

text \<open>Time points and durations of the steady clock, in nanoseconds, and raw buffers.\<close>

type_synonym time = int
type_synonym byte = "8 word"
type_synonym bytes = "8 word list"

abbreviation ms :: "int \<Rightarrow> time" where
  "ms n \<equiv> n * 1000000"

abbreviation int_min :: int where
  "int_min \<equiv> - 2147483648"

abbreviation int_max :: int where
  "int_max \<equiv> 2147483647"

section \<open>Keyed containers\<close>

type_synonym ('k, 'v) alist = "('k \<times> 'v) list"

abbreviation keys :: "('k, 'v) alist \<Rightarrow> 'k list" where
  "keys al \<equiv> map fst al"

abbreviation lookup :: "('k, 'v) alist \<Rightarrow> 'k \<Rightarrow> 'v option" where
  "lookup al k \<equiv> map_of al k"

text \<open>Every entry of a container satisfies a relation between its key and its value.\<close>

definition al_all :: "('k \<Rightarrow> 'v \<Rightarrow> bool) \<Rightarrow> ('k, 'v) alist \<Rightarrow> bool" where
  "al_all P al \<longleftrightarrow> (\<forall>(k, v) \<in> set al. P k v)"

lemma al_all_Nil [simp]: "al_all P []"
  by (simp add: al_all_def)

lemma al_all_Cons [simp]: "al_all P ((k, v) # al) \<longleftrightarrow> P k v \<and> al_all P al"
  by (simp add: al_all_def)

lemma al_all_append [simp]: "al_all P (xs @ ys) \<longleftrightarrow> al_all P xs \<and> al_all P ys"
  by (auto simp: al_all_def)

lemma al_all_lookup: "al_all P al \<Longrightarrow> lookup al k = Some v \<Longrightarrow> P k v"
  by (auto simp: al_all_def dest: map_of_SomeD)

lemma al_all_update: "al_all P al \<Longrightarrow> P k v \<Longrightarrow> al_all P (AList.update k v al)"
  by (induction al) auto

lemma al_all_filter: "al_all P al \<Longrightarrow> al_all P (filter Q al)"
  by (auto simp: al_all_def)

lemma al_all_delete: "al_all P al \<Longrightarrow> al_all P (AList.delete k al)"
  by (simp add: AList.delete_eq al_all_filter)

lemma al_all_mono: "al_all P al \<Longrightarrow> (\<And>k v. (k, v) \<in> set al \<Longrightarrow> P k v \<Longrightarrow> Q k v) \<Longrightarrow> al_all Q al"
  by (auto simp: al_all_def)

lemmas al_all_keep = al_all_update al_all_delete al_all_filter

lemma lookup_update [al_simps]:
  "lookup (AList.update k v al) k' = (if k' = k then Some v else lookup al k')"
  by (simp add: update_conv')

lemma lookup_delete [al_simps]:
  "lookup (AList.delete k al) k' = (if k' = k then None else lookup al k')"
  by (simp add: delete_conv')

lemma distinct_keys_update [al_simps]:
  "distinct (keys (AList.update k v al)) \<longleftrightarrow> distinct (keys al)"
  by (simp add: update_keys)

lemma distinct_keys_filter [al_simps]: "distinct (keys al) \<Longrightarrow> distinct (keys (filter P al))"
  by (induction al) auto

lemma distinct_keys_delete [al_simps]:
  "distinct (keys al) \<Longrightarrow> distinct (keys (AList.delete k al))"
  by (simp add: AList.delete_eq distinct_keys_filter)

lemma lookup_filter_distinct:
  "distinct (keys al) \<Longrightarrow>
   lookup (filter (\<lambda>(k, v). P k v) al) k =
     (case lookup al k of None \<Rightarrow> None | Some v \<Rightarrow> if P k v then Some v else None)"
proof (induction al)
  case (Cons a al)
  show ?case
  proof (cases "fst a = k")
    case True
    with Cons.prems have "lookup al k = None"
      by (auto simp: map_of_eq_None_iff)
    with True Cons show ?thesis by (cases a) auto
  next
    case False
    with Cons show ?thesis by (cases a) auto
  qed
qed simp

lemma length_update_new:
  "lookup al k = None \<Longrightarrow> length (AList.update k v al) = Suc (length al)"
  by (induction al) (auto split: if_splits)

lemma length_update_old:
  "lookup al k = Some w \<Longrightarrow> length (AList.update k v al) = length al"
  by (induction al) (auto split: if_splits)

lemma lookup_None_Nil: "(\<And>k. lookup al k = None) \<Longrightarrow> al = []"
proof (cases al)
  case (Cons a as)
  assume none: "\<And>k. lookup al k = None"
  have "lookup al (fst a) = None" by (rule none)
  with Cons show ?thesis by simp
qed

lemma mset_update_new: "lookup al k = None \<Longrightarrow> mset (AList.update k v al) = add_mset (k, v) (mset al)"
  by (induction al) (auto split: if_splits)

lemma delete_fresh: "lookup al k = None \<Longrightarrow> AList.delete k al = al"
  by (induction al) (auto split: if_splits)

lemma mset_delete:
  "distinct (keys al) \<Longrightarrow> lookup al k = Some v \<Longrightarrow> mset al = add_mset (k, v) (mset (AList.delete k al))"
proof (induction al)
  case (Cons a al)
  obtain k' v' where a: "a = (k', v')" by (cases a)
  show ?case
  proof (cases "k' = k")
    case True
    with Cons.prems a have "lookup al k = None" by (auto simp: map_of_eq_None_iff)
    with True Cons.prems a show ?thesis by (simp add: delete_fresh)
  next
    case False
    with Cons a show ?thesis by simp
  qed
qed simp

section \<open>Strings\<close>

definition has_prefix :: "string \<Rightarrow> string \<Rightarrow> bool" where
  "has_prefix p s \<longleftrightarrow> take (length p) s = p"

lemma has_prefix_iff: "has_prefix p s \<longleftrightarrow> (\<exists>r. s = p @ r)"
  by (metis append_eq_conv_conj append_take_drop_id has_prefix_def)

end
