(* ===== verification/Text_Utils.thy ===== *)
theory Text_Utils
  imports Bridge_Prelude
begin

text \<open>
  The string helpers of src/src/utils: \<open>trim\<close> (trim.hpp), the RFC 3986 percent encoder of
  the other-source track names (percent_encode.cpp) and the log line builder of
  log_event.hpp. Strings are byte strings, as \<open>std::string\<close> is.
\<close>

section \<open>Trimming\<close>

text \<open>\<open>std::isspace\<close> in the C locale.\<close>

definition is_space :: "char \<Rightarrow> bool" where
  "is_space c \<longleftrightarrow> (let n = (of_char c :: nat) in n = 32 \<or> (9 \<le> n \<and> n \<le> 13))"

definition trim :: "string \<Rightarrow> string" where
  "trim text =
     (let first = length (takeWhile is_space text);
          last = length text - length (takeWhile is_space (rev text))
      in if first \<ge> last then [] else take (last - first) (drop first text))"

lemma trim_Nil [simp]: "trim [] = []"
  by (simp add: trim_def)

lemma takeWhile_Nil_hd: "takeWhile P xs = [] \<longleftrightarrow> xs = [] \<or> \<not> P (hd xs)"
  by (cases xs) auto

lemma trim_nonempty_bounds:
  assumes "trim s \<noteq> []"
  shows "length (takeWhile is_space s) + length (takeWhile is_space (rev s)) < length s"
  using assms by (auto simp: trim_def Let_def split: if_splits)

lemma trim_bounds_eq:
  assumes "length (takeWhile is_space s) + length (takeWhile is_space (rev s)) < length s"
  shows "trim s = take (length s - length (takeWhile is_space (rev s)) - length (takeWhile is_space s))
                    (drop (length (takeWhile is_space s)) s)"
  using assms by (simp add: trim_def Let_def)

lemma hd_trim: "trim s \<noteq> [] \<Longrightarrow> \<not> is_space (hd (trim s))"
proof -
  assume "trim s \<noteq> []"
  note b = trim_nonempty_bounds [OF this]
  let ?f = "length (takeWhile is_space s)"
  from b have "hd (trim s) = s ! ?f"
    by (simp add: trim_bounds_eq hd_drop_conv_nth)
  with b nth_length_takeWhile [of is_space s] show ?thesis by simp
qed

lemma last_trim: "trim s \<noteq> [] \<Longrightarrow> \<not> is_space (last (trim s))"
proof -
  assume "trim s \<noteq> []"
  note b = trim_nonempty_bounds [OF this]
  let ?f = "length (takeWhile is_space s)" and ?l = "length (takeWhile is_space (rev s))"
  from b have "last (trim s) = s ! (length s - Suc ?l)"
    by (simp add: trim_bounds_eq last_conv_nth)
  also from b have "\<dots> = rev s ! ?l" by (simp add: rev_nth)
  finally show ?thesis using b nth_length_takeWhile [of is_space "rev s"] by simp
qed

lemma trim_id: "s \<noteq> [] \<Longrightarrow> \<not> is_space (hd s) \<Longrightarrow> \<not> is_space (last s) \<Longrightarrow> trim s = s"
proof -
  assume "s \<noteq> []" "\<not> is_space (hd s)" "\<not> is_space (last s)"
  then have "takeWhile is_space s = []" "takeWhile is_space (rev s) = []"
    by (simp_all add: takeWhile_Nil_hd hd_rev)
  then show ?thesis by (simp add: trim_def)
qed

lemma trim_trim [simp]: "trim (trim s) = trim s"
  by (cases "trim s = []") (auto simp: trim_id hd_trim last_trim)

section \<open>Percent encoding\<close>

definition kHexDigits :: string where
  "kHexDigits = ''0123456789ABCDEF''"

definition isUnreservedByte :: "nat \<Rightarrow> bool" where
  "isUnreservedByte b \<longleftrightarrow>
     (65 \<le> b \<and> b \<le> 90) \<or> (97 \<le> b \<and> b \<le> 122) \<or> (48 \<le> b \<and> b \<le> 57) \<or>
     b = 45 \<or> b = 46 \<or> b = 95 \<or> b = 126"

fun percentEncodeUnreserved :: "string \<Rightarrow> string" where
  "percentEncodeUnreserved [] = []"
| "percentEncodeUnreserved (ch # name) =
     (let byte = (of_char ch :: nat) in
      if isUnreservedByte byte then ch # percentEncodeUnreserved name
      else CHR ''%'' # kHexDigits ! (byte div 16) # kHexDigits ! (byte mod 16)
             # percentEncodeUnreserved name)"

text \<open>The inverse a client applies to a track name suffix.\<close>

definition hex_value :: "char \<Rightarrow> nat option" where
  "hex_value c = (let n = (of_char c :: nat) in
     if 48 \<le> n \<and> n \<le> 57 then Some (n - 48)
     else if 65 \<le> n \<and> n \<le> 70 then Some (n - 55) else None)"

fun percentDecode :: "string \<Rightarrow> string option" where
  "percentDecode [] = Some []"
| "percentDecode (c # cs) =
     (if c = CHR ''%'' then
        (case cs of
           h # l # rest \<Rightarrow>
             (case (hex_value h, hex_value l) of
                (Some a, Some b) \<Rightarrow> map_option ((#) (char_of (16 * a + b))) (percentDecode rest)
              | _ \<Rightarrow> None)
         | _ \<Rightarrow> None)
      else map_option ((#) c) (percentDecode cs))"

lemma hex_value_digit: "n < 16 \<Longrightarrow> hex_value (kHexDigits ! n) = Some n"
proof -
  have "list_all (\<lambda>n. hex_value (kHexDigits ! n) = Some n) [0..<16]" by code_simp
  then show "n < 16 \<Longrightarrow> ?thesis" by (auto simp: list_all_iff)
qed

lemma unreserved_not_percent: "isUnreservedByte (of_char c) \<Longrightarrow> c \<noteq> CHR ''%''"
  by (auto simp: isUnreservedByte_def)

lemma high_nibble_bound: "(of_char c :: nat) div 16 < 16"
  using nat_of_char_less_256 [of c] by (simp add: div_less_iff_less_mult)

lemma percentDecode_encode: "percentDecode (percentEncodeUnreserved s) = Some s"
proof (induction s)
  case (Cons c s)
  then show ?case
    by (simp add: Let_def unreserved_not_percent hex_value_digit high_nibble_bound)
qed simp

definition track_safe :: "char \<Rightarrow> bool" where
  "track_safe c \<longleftrightarrow> isUnreservedByte (of_char c) \<or> c = CHR ''%''"

lemma hex_digit_safe: "n < 16 \<Longrightarrow> isUnreservedByte (of_char (kHexDigits ! n))"
proof -
  have "list_all (\<lambda>n. isUnreservedByte (of_char (kHexDigits ! n))) [0..<16]" by code_simp
  then show "n < 16 \<Longrightarrow> ?thesis" by (auto simp: list_all_iff)
qed

lemma percentEncode_safe: "list_all track_safe (percentEncodeUnreserved s)"
proof (induction s)
  case (Cons c s)
  then show ?case by (auto simp: Let_def track_safe_def hex_digit_safe high_nibble_bound)
qed simp

section \<open>Structured log lines\<close>

text \<open>
  \<open>LogEvent\<close> accumulates \<open>event=<name> key=value ...\<close>. The value of a field of type
  \<open>const char *\<close> may be null; \<open>std::optional\<close> values are options.
\<close>

definition log_event :: "string \<Rightarrow> string" where
  "log_event name = ''event='' @ name"

definition log_field :: "string \<Rightarrow> string \<Rightarrow> string \<Rightarrow> string" where
  "log_field key value msg = msg @ '' '' @ key @ ''='' @ value"

definition log_field_cstr :: "string \<Rightarrow> string option \<Rightarrow> string \<Rightarrow> string" where
  "log_field_cstr key value msg =
     log_field key (case value of None \<Rightarrow> ''<null>'' | Some v \<Rightarrow> v) msg"

definition hex_lower :: "nat \<Rightarrow> string" where
  "hex_lower n = (if n < 16 then [''0123456789abcdef'' ! n]
                  else [''0123456789abcdef'' ! (n div 16), ''0123456789abcdef'' ! (n mod 16)])"

definition escape_char :: "char \<Rightarrow> string" where
  "escape_char c =
     (if c = CHR 0x5C then [CHR 0x5C, CHR 0x5C]
      else if c = CHR 0x22 then [CHR 0x5C, CHR 0x22]
      else if c = CHR 0x0A then [CHR 0x5C, CHR ''n'']
      else if c = CHR 0x0D then [CHR 0x5C, CHR ''r'']
      else if c = CHR 0x09 then [CHR 0x5C, CHR ''t'']
      else if (of_char c :: nat) < 32 then [CHR 0x5C, CHR ''x''] @ hex_lower (of_char c)
      else [c])"

definition fieldQuoted :: "string \<Rightarrow> string \<Rightarrow> string \<Rightarrow> string" where
  "fieldQuoted key value msg =
     msg @ '' '' @ key @ ''='' @ [CHR 0x22] @ concat (map escape_char value) @ [CHR 0x22]"

definition fieldIf :: "bool \<Rightarrow> string \<Rightarrow> string \<Rightarrow> string \<Rightarrow> string" where
  "fieldIf incl key value msg = (if incl then log_field key value msg else msg)"

definition fieldIfNotEmpty :: "string \<Rightarrow> string \<Rightarrow> string \<Rightarrow> string" where
  "fieldIfNotEmpty key value msg = (if value \<noteq> [] then log_field key value msg else msg)"

definition fieldOr :: "string \<Rightarrow> string \<Rightarrow> string \<Rightarrow> string \<Rightarrow> string" where
  "fieldOr key value fallback msg =
     msg @ '' '' @ key @ ''='' @ (if value = [] then fallback else value)"

definition fieldOr_opt :: "string \<Rightarrow> string option \<Rightarrow> string \<Rightarrow> string \<Rightarrow> string" where
  "fieldOr_opt key value fallback msg =
     (case value of Some v \<Rightarrow> fieldOr key v fallback msg
      | None \<Rightarrow> msg @ '' '' @ key @ ''='' @ fallback)"

definition fieldOrQuoted :: "string \<Rightarrow> string option \<Rightarrow> string \<Rightarrow> string \<Rightarrow> string" where
  "fieldOrQuoted key value fallback msg =
     (case value of Some v \<Rightarrow> fieldQuoted key v msg
      | None \<Rightarrow> msg @ '' '' @ key @ ''='' @ fallback)"

text \<open>A log parser's scan of a quoted value: the text up to the first unescaped quote.\<close>

fun scan_quoted :: "string \<Rightarrow> (string \<times> string) option" where
  "scan_quoted [] = None"
| "scan_quoted (c # cs) =
     (if c = CHR 0x22 then Some ([], cs)
      else if c = CHR 0x5C then
        (case cs of [] \<Rightarrow> None
         | d # ds \<Rightarrow> map_option (apfst (\<lambda>v. c # d # v)) (scan_quoted ds))
      else map_option (apfst (\<lambda>v. c # v)) (scan_quoted cs))"

lemma scan_quoted_plain:
  "list_all (\<lambda>c. c \<noteq> CHR 0x22 \<and> c \<noteq> CHR 0x5C) p \<Longrightarrow> scan_quoted s = Some (v, r) \<Longrightarrow>
   scan_quoted (p @ s) = Some (p @ v, r)"
  by (induction p) auto

lemma hex_lower_plain:
  "n < 32 \<Longrightarrow> list_all (\<lambda>c. c \<noteq> CHR 0x22 \<and> c \<noteq> CHR 0x5C \<and> 32 \<le> (of_char c :: nat)) (hex_lower n)"
proof -
  have "list_all (\<lambda>n. list_all (\<lambda>c. c \<noteq> CHR 0x22 \<and> c \<noteq> CHR 0x5C \<and> 32 \<le> (of_char c :: nat))
          (hex_lower n)) [0..<32]"
    by code_simp
  then show "n < 32 \<Longrightarrow> ?thesis" by (auto simp: list_all_iff)
qed

lemma scan_escape_char:
  assumes s: "scan_quoted s = Some (v, r)"
  shows "scan_quoted (escape_char c @ s) = Some (escape_char c @ v, r)"
proof (cases "c \<in> {CHR 0x5C, CHR 0x22, CHR 0x0A, CHR 0x0D, CHR 0x09}")
  case True
  then show ?thesis by (auto simp: escape_char_def s)
next
  case False
  show ?thesis
  proof (cases "(of_char c :: nat) < 32")
    case True
    have "list_all (\<lambda>d. d \<noteq> CHR 0x22 \<and> d \<noteq> CHR 0x5C) (hex_lower (of_char c))"
      using hex_lower_plain [OF True] by (auto simp: list_all_iff)
    from scan_quoted_plain [OF this s] True False show ?thesis
      by (simp add: escape_char_def)
  next
    case ctl: False
    with False show ?thesis by (simp add: escape_char_def s)
  qed
qed

lemma scan_quoted_escaped:
  "scan_quoted (concat (map escape_char v) @ CHR 0x22 # rest) =
     Some (concat (map escape_char v), rest)"
  by (induction v) (simp_all add: scan_escape_char)

lemma escape_char_printable: "list_all (\<lambda>d. 32 \<le> (of_char d :: nat)) (escape_char c)"
proof (cases "c \<in> {CHR 0x5C, CHR 0x22, CHR 0x0A, CHR 0x0D, CHR 0x09}")
  case True
  then show ?thesis by (auto simp: escape_char_def)
next
  case False
  show ?thesis
  proof (cases "(of_char c :: nat) < 32")
    case True
    with False hex_lower_plain [OF True] show ?thesis
      by (simp add: escape_char_def list_all_iff)
  next
    case ctl: False
    with False show ?thesis by (simp add: escape_char_def)
  qed
qed

end
