(* ===== verification/Resource_Names.thy ===== *)
theory Resource_Names
  imports Text_Utils
begin

text \<open>
  ROS resource names and patterns (src/src/utils/ros_resource_name_utils.hpp).

  \<open>rclcpp::expand_topic_or_service_name\<close> belongs to rclcpp and is the parameter \<open>expand\<close>
  of every definition that calls it: it maps a name, a node name, a namespace and the
  service flag to the expanded name or to one of the two exception families it documents.
\<close>

section \<open>Name expansion\<close>

datatype expand_error = NameValidationError string | ExpansionRuntimeError string

type_synonym expander = "string \<Rightarrow> string \<Rightarrow> string \<Rightarrow> bool \<Rightarrow> expand_error + string"

text \<open>The exception a caller sees: \<open>NameValidationError\<close> is a \<open>std::invalid_argument\<close>.\<close>

fun expand_exn :: "expand_error \<Rightarrow> exn" where
  "expand_exn (NameValidationError m) = Invalid_argument m"
| "expand_exn (ExpansionRuntimeError m) = Runtime_error m"

definition normalizeRosResourceName :: "expander \<Rightarrow> string \<Rightarrow> string \<Rightarrow> string \<Rightarrow> bool \<Rightarrow> string" where
  "normalizeRosResourceName expand name node_name namespace is_service =
     (let trimmed = trim name in
      if trimmed = [] then []
      else (case expand trimmed node_name namespace is_service of
              Inr n \<Rightarrow> n
            | Inl (NameValidationError m) \<Rightarrow> []
            | Inl (ExpansionRuntimeError m) \<Rightarrow> []))"

text \<open>The overload that resolves relative names from \<open>/\<close>.\<close>

definition normalizeGlobalName :: "expander \<Rightarrow> string \<Rightarrow> string" where
  "normalizeGlobalName expand name =
     normalizeRosResourceName expand name ''livekit_ros2_bridge_resource_name'' ''/'' False"

section \<open>Patterns\<close>

definition kRosResourceSubtreeWildcard :: string where
  "kRosResourceSubtreeWildcard = ''/*''"

datatype pattern_kind = Exact | Subtree

record ros_pattern =
  canonical :: string
  pattern_kind :: pattern_kind

definition hasSubtreeWildcard :: "string \<Rightarrow> bool" where
  "hasSubtreeWildcard p \<longleftrightarrow> length p \<ge> 2 \<and> drop (length p - 2) p = kRosResourceSubtreeWildcard"

definition rootSubtree :: ros_pattern where
  "rootSubtree = \<lparr>canonical = kRosResourceSubtreeWildcard, pattern_kind = Subtree\<rparr>"

definition pattern_parse :: "expander \<Rightarrow> string \<Rightarrow> string \<Rightarrow> string \<Rightarrow> bool \<Rightarrow> ros_pattern option" where
  "pattern_parse expand raw node_name namespace is_service =
     (let p = trim raw in
      if p = [] then None
      else if p = ''*'' then Some rootSubtree
      else if p = kRosResourceSubtreeWildcard then Some rootSubtree
      else if hasSubtreeWildcard p then
        (let prefix = normalizeRosResourceName expand (take (length p - 2) p) node_name namespace is_service
         in if prefix = [] then None
            else Some \<lparr>canonical = prefix @ kRosResourceSubtreeWildcard, pattern_kind = Subtree\<rparr>)
      else
        (let resource = normalizeRosResourceName expand p node_name namespace is_service
         in if resource = [] then None
            else Some \<lparr>canonical = resource, pattern_kind = Exact\<rparr>))"

text \<open>The overload for configuration entries.\<close>

definition pattern_parse_global :: "expander \<Rightarrow> string \<Rightarrow> ros_pattern option" where
  "pattern_parse_global expand raw =
     pattern_parse expand raw ''livekit_ros2_bridge_resource_name'' ''/'' False"

definition fromCanonical :: "string \<Rightarrow> ros_pattern" where
  "fromCanonical p =
     (if p = ''*'' \<or> p = kRosResourceSubtreeWildcard then rootSubtree
      else \<lparr>canonical = p, pattern_kind = (if hasSubtreeWildcard p then Subtree else Exact)\<rparr>)"

definition specificity :: "ros_pattern \<Rightarrow> nat" where
  "specificity p = length (canonical p)"

definition pattern_matches :: "ros_pattern \<Rightarrow> string \<Rightarrow> bool" where
  "pattern_matches p resource =
     (case pattern_kind p of
        Exact \<Rightarrow> resource = canonical p
      | Subtree \<Rightarrow>
          (let prefix = take (length (canonical p) - 2) (canonical p) in
           if prefix = [] then has_prefix ''/'' resource
           else length resource > length prefix \<and> has_prefix prefix resource \<and>
                resource ! length prefix = CHR ''/''))"

definition rosResourceMatchesPattern :: "string \<Rightarrow> string \<Rightarrow> bool" where
  "rosResourceMatchesPattern resource p = pattern_matches (fromCanonical p) resource"

text \<open>
  The pointer loop of \<open>findBestRosResourcePatternMatch\<close>: \<open>best\<close> is the pointer \<open>match\<close>.
\<close>

fun best_match_from :: "('e \<Rightarrow> ros_pattern) \<Rightarrow> string \<Rightarrow> 'e option \<Rightarrow> 'e list \<Rightarrow> 'e option" where
  "best_match_from pat resource best [] = best"
| "best_match_from pat resource best (entry # entries) =
     (if \<not> pattern_matches (pat entry) resource then best_match_from pat resource best entries
      else (case best of
              Some m \<Rightarrow>
                if specificity (pat entry) \<le> specificity (pat m)
                then best_match_from pat resource best entries
                else best_match_from pat resource (Some entry) entries
            | None \<Rightarrow> best_match_from pat resource (Some entry) entries))"

definition findBestRosResourcePatternMatch :: "('e \<Rightarrow> ros_pattern) \<Rightarrow> 'e list \<Rightarrow> string \<Rightarrow> 'e option" where
  "findBestRosResourcePatternMatch pat entries resource = best_match_from pat resource None entries"

section \<open>Matching\<close>

lemma pattern_matches_exact:
  "pattern_kind p = Exact \<Longrightarrow> pattern_matches p r \<longleftrightarrow> r = canonical p"
  by (simp add: pattern_matches_def)

lemma pattern_matches_root [simp]: "pattern_matches rootSubtree r \<longleftrightarrow> has_prefix ''/'' r"
  by (simp add: pattern_matches_def rootSubtree_def kRosResourceSubtreeWildcard_def)

lemma pattern_matches_subtree:
  assumes "prefix \<noteq> []"
  shows "pattern_matches \<lparr>canonical = prefix @ ''/*'', pattern_kind = Subtree\<rparr> r \<longleftrightarrow>
           (\<exists>rest. r = prefix @ ''/'' @ rest)"
proof -
  have "length r > length prefix \<and> has_prefix prefix r \<and> r ! length prefix = CHR ''/'' \<longleftrightarrow>
          (\<exists>rest. r = prefix @ ''/'' @ rest)" (is "?L = ?R")
  proof
    assume L: ?L
    then obtain t where t: "r = prefix @ t" by (auto simp: has_prefix_iff)
    with L have "t \<noteq> []" and "t ! 0 = CHR ''/''" by (auto simp: nth_append)
    then have "t = ''/'' @ tl t" by (cases t) auto
    with t show ?R by metis
  qed (auto simp: has_prefix_def nth_append)
  with assms show ?thesis by (simp add: pattern_matches_def)
qed

text \<open>What a parsed pattern matches, by the shape of the configured entry.\<close>

lemma pattern_parse_matches:
  assumes "pattern_parse expand raw node ns svc = Some p"
  shows "pattern_matches p r \<longleftrightarrow>
    (if trim raw = ''*'' \<or> trim raw = ''/*'' then has_prefix ''/'' r
     else if hasSubtreeWildcard (trim raw) then
       (\<exists>rest. r = normalizeRosResourceName expand (take (length (trim raw) - 2) (trim raw)) node ns svc
                   @ ''/'' @ rest)
     else r = normalizeRosResourceName expand (trim raw) node ns svc)"
  using assms
  by (auto simp: pattern_parse_def Let_def pattern_matches_subtree pattern_matches_exact
      kRosResourceSubtreeWildcard_def split: if_splits)

lemma pattern_parse_nonempty:
  "pattern_parse expand raw node ns svc = Some p \<Longrightarrow> canonical p \<noteq> []"
  by (auto simp: pattern_parse_def Let_def rootSubtree_def kRosResourceSubtreeWildcard_def
      split: if_splits)

section \<open>Best match\<close>

definition is_best_match :: "('e \<Rightarrow> ros_pattern) \<Rightarrow> string \<Rightarrow> 'e list \<Rightarrow> 'e \<Rightarrow> bool" where
  "is_best_match pat r es e \<longleftrightarrow>
     (\<exists>pre post. es = pre @ e # post \<and> pattern_matches (pat e) r
        \<and> (\<forall>x \<in> set pre. pattern_matches (pat x) r \<longrightarrow> specificity (pat x) < specificity (pat e))
        \<and> (\<forall>x \<in> set post. pattern_matches (pat x) r \<longrightarrow> specificity (pat x) \<le> specificity (pat e)))"

lemma is_best_match_snoc_skip:
  "is_best_match pat r es e \<Longrightarrow>
   (pattern_matches (pat x) r \<Longrightarrow> specificity (pat x) \<le> specificity (pat e)) \<Longrightarrow>
   is_best_match pat r (es @ [x]) e"
  unfolding is_best_match_def
  by (elim exE conjE, rename_tac pre post, rule_tac x = pre in exI, rule_tac x = "post @ [x]" in exI) auto

lemma is_best_match_bound:
  "is_best_match pat r es e \<Longrightarrow> x \<in> set es \<Longrightarrow> pattern_matches (pat x) r \<Longrightarrow>
   specificity (pat x) \<le> specificity (pat e)"
  unfolding is_best_match_def by fastforce

lemma is_best_match_snoc_new:
  "pattern_matches (pat x) r \<Longrightarrow>
   (\<And>y. y \<in> set es \<Longrightarrow> pattern_matches (pat y) r \<Longrightarrow> specificity (pat y) < specificity (pat x)) \<Longrightarrow>
   is_best_match pat r (es @ [x]) x"
  unfolding is_best_match_def by (rule exI [of _ es], rule exI [of _ "[]"]) auto

lemma best_match_from_spec:
  assumes "case best of None \<Rightarrow> (\<forall>e \<in> set seen. \<not> pattern_matches (pat e) r)
           | Some m \<Rightarrow> is_best_match pat r seen m"
  shows "case best_match_from pat r best es of
           None \<Rightarrow> (\<forall>e \<in> set (seen @ es). \<not> pattern_matches (pat e) r)
         | Some m \<Rightarrow> is_best_match pat r (seen @ es) m"
  using assms
proof (induction es arbitrary: best seen)
  case (Cons x es)
  let ?best' = "if \<not> pattern_matches (pat x) r then best
    else (case best of Some m \<Rightarrow> if specificity (pat x) \<le> specificity (pat m) then best else Some x
          | None \<Rightarrow> Some x)"
  have step: "best_match_from pat r best (x # es) = best_match_from pat r ?best' es"
    by (auto split: option.splits)
  have "case ?best' of None \<Rightarrow> (\<forall>e \<in> set (seen @ [x]). \<not> pattern_matches (pat e) r)
        | Some m \<Rightarrow> is_best_match pat r (seen @ [x]) m"
  proof (cases best)
    case None
    with Cons.prems show ?thesis by (auto intro: is_best_match_snoc_new)
  next
    case (Some m)
    with Cons.prems have m: "is_best_match pat r seen m" by simp
    show ?thesis
    proof (cases "pattern_matches (pat x) r \<and> specificity (pat m) < specificity (pat x)")
      case True
      then have "is_best_match pat r (seen @ [x]) x"
        by (intro is_best_match_snoc_new) (auto dest!: is_best_match_bound [OF m])
      with True Some show ?thesis by simp
    next
      case False
      then have "is_best_match pat r (seen @ [x]) m"
        by (intro is_best_match_snoc_skip [OF m]) auto
      with False Some show ?thesis by auto
    qed
  qed
  from Cons.IH [OF this] show ?case
    unfolding step append_assoc append_Cons append_Nil .
qed (auto split: option.splits)

lemma findBest_None_iff:
  "findBestRosResourcePatternMatch pat es r = None \<longleftrightarrow> (\<forall>e \<in> set es. \<not> pattern_matches (pat e) r)"
  (is "?L \<longleftrightarrow> ?R")
proof
  show "?L \<Longrightarrow> ?R"
    using best_match_from_spec [where best = None and seen = "[]" and pat = pat and r = r and es = es]
    by (simp add: findBestRosResourcePatternMatch_def)
  have "best_match_from pat r None es \<noteq> None \<Longrightarrow> \<exists>e \<in> set es. pattern_matches (pat e) r"
    using best_match_from_spec [where best = None and seen = "[]" and pat = pat and r = r and es = es]
    by (auto simp: is_best_match_def split: option.splits)
  then show "?R \<Longrightarrow> ?L"
    unfolding findBestRosResourcePatternMatch_def by blast
qed

lemma findBest_is_best:
  "findBestRosResourcePatternMatch pat es r = Some e \<Longrightarrow> is_best_match pat r es e"
  using best_match_from_spec [where best = None and seen = "[]" and pat = pat and r = r and es = es]
  by (simp add: findBestRosResourcePatternMatch_def)

lemma is_best_matchD:
  "is_best_match pat r es e \<Longrightarrow> e \<in> set es \<and> pattern_matches (pat e) r"
  by (auto simp: is_best_match_def)

end
