(* ===== verification/Access_Policy.thy ===== *)
theory Access_Policy
  imports Resource_Names
begin

text \<open>
  The default-deny access policy (src/src/access_policy.hpp, access_policy.cpp): rule lists
  parsed into patterns at construction and the \<open>allows\<close> decision every request handler makes.
\<close>

record access_rules_config =
  allow :: "string list"
  deny :: "string list"

record access_policy_config =
  publish_cfg :: access_rules_config
  subscribe_cfg :: access_rules_config
  service_cfg :: access_rules_config

datatype access_operation = Publish | Subscribe | CallService

type_synonym rules = "ros_pattern list"

record access_policy =
  publish_allow :: rules
  publish_deny :: rules
  subscribe_allow :: rules
  subscribe_deny :: rules
  service_allow :: rules
  service_deny :: rules

definition kNodeName :: string where
  "kNodeName = ''livekit_ros2_bridge_access_policy''"

definition kRosNamespace :: string where
  "kRosNamespace = ''/''"

fun rules_parse :: "expander \<Rightarrow> string list \<Rightarrow> bool \<Rightarrow> rules" where
  "rules_parse expand [] is_service = []"
| "rules_parse expand (entry # entries) is_service =
     (case pattern_parse expand entry kNodeName kRosNamespace is_service of
        None \<Rightarrow> rules_parse expand entries is_service
      | Some p \<Rightarrow> p # rules_parse expand entries is_service)"

definition rules_match :: "rules \<Rightarrow> string \<Rightarrow> bool" where
  "rules_match rs resource = list_ex (\<lambda>p. pattern_matches p resource) rs"

definition make_policy :: "expander \<Rightarrow> access_policy_config \<Rightarrow> access_policy" where
  "make_policy expand config =
     \<lparr>publish_allow = rules_parse expand (allow (publish_cfg config)) False,
      publish_deny = rules_parse expand (deny (publish_cfg config)) False,
      subscribe_allow = rules_parse expand (allow (subscribe_cfg config)) False,
      subscribe_deny = rules_parse expand (deny (subscribe_cfg config)) False,
      service_allow = rules_parse expand (allow (service_cfg config)) True,
      service_deny = rules_parse expand (deny (service_cfg config)) True\<rparr>"

definition allows :: "expander \<Rightarrow> access_policy \<Rightarrow> access_operation \<Rightarrow> string \<Rightarrow> bool" where
  "allows expand policy operation name =
     (let is_service = (operation = CallService);
          resource = normalizeRosResourceName expand name kNodeName kRosNamespace is_service
      in if resource = [] then False
         else (case operation of
                 Publish \<Rightarrow> \<not> rules_match (publish_deny policy) resource
                              \<and> rules_match (publish_allow policy) resource
               | Subscribe \<Rightarrow> \<not> rules_match (subscribe_deny policy) resource
                              \<and> rules_match (subscribe_allow policy) resource
               | CallService \<Rightarrow> \<not> rules_match (service_deny policy) resource
                              \<and> rules_match (service_allow policy) resource))"

section \<open>Decision lemmas\<close>

text \<open>The configured rules of an operation, and the rule semantics they stand for.\<close>

fun op_rules :: "access_policy_config \<Rightarrow> access_operation \<Rightarrow> access_rules_config" where
  "op_rules c Publish = publish_cfg c"
| "op_rules c Subscribe = subscribe_cfg c"
| "op_rules c CallService = service_cfg c"

definition rule_covers :: "expander \<Rightarrow> bool \<Rightarrow> string \<Rightarrow> string \<Rightarrow> bool" where
  "rule_covers expand svc resource entry \<longleftrightarrow>
     (\<exists>p. pattern_parse expand entry kNodeName kRosNamespace svc = Some p \<and> pattern_matches p resource)"

lemma rules_match_parse:
  "rules_match (rules_parse expand es svc) r \<longleftrightarrow> (\<exists>e \<in> set es. rule_covers expand svc r e)"
  by (induction es) (auto simp: rules_match_def rule_covers_def split: option.splits)

lemma rules_match_Nil [simp]: "\<not> rules_match [] r"
  by (simp add: rules_match_def)

text \<open>C15: a request is allowed exactly when its name normalizes to a non-empty resource,
  some configured allow rule of the operation covers that resource and no deny rule does:
  the policy is default-deny and deny rules win.\<close>

theorem policy_allows_iff:
  "allows expand (make_policy expand config) op name \<longleftrightarrow>
    (let svc = (op = CallService);
         resource = normalizeRosResourceName expand name kNodeName kRosNamespace svc in
     resource \<noteq> []
     \<and> (\<exists>e \<in> set (allow (op_rules config op)). rule_covers expand svc resource e)
     \<and> \<not> (\<exists>e \<in> set (deny (op_rules config op)). rule_covers expand svc resource e))"
  by (cases op) (auto simp: allows_def make_policy_def rules_match_parse Let_def)

end
