(* ===== verification/Subscription_Qos.thy ===== *)
theory Subscription_Qos
  imports Resource_Names
begin

text \<open>
  Subscription QoS resolution (src/src/subscription_qos.hpp, subscription_qos.cpp).

  \<open>rclcpp::qos_check_compatible\<close> is rclcpp code: the parameter \<open>check\<close>, a function of the
  offered and the requested profile. Only the two axes the bridge resolves and the history
  depth of a profile are represented; the other axes of \<open>rclcpp::QoS\<close> are never changed here.
\<close>

datatype reliability_policy = Reliable | BestEffort | RelSystemDefault | RelBestAvailable | RelUnknown
datatype durability_policy = TransientLocal | Volatile | DurSystemDefault | DurBestAvailable | DurUnknown
datatype qos_compatibility = CompatOk | CompatWarning | CompatError

record qos =
  depth :: nat
  reliability :: reliability_policy
  durability :: durability_policy

text \<open>\<open>rclcpp::QoS{rclcpp::KeepLast(n)}\<close>: the default profile with history depth \<open>n\<close>.\<close>

definition keep_last :: "nat \<Rightarrow> qos" where
  "keep_last n = \<lparr>depth = n, reliability = Reliable, durability = Volatile\<rparr>"

type_synonym compat_check = "qos \<Rightarrow> qos \<Rightarrow> qos_compatibility"

record qos_override =
  override_id :: string
  override_pattern :: ros_pattern
  override_reliability :: "reliability_policy option"
  override_durability :: "durability_policy option"

datatype resolution_source = Fallback | PublisherQos | Override

record resolved_qos =
  rq_qos :: qos
  rq_source :: resolution_source
  mixed_reliability :: bool
  mixed_durability :: bool
  publisher_count :: nat
  rq_override_id :: string

record 'p policy_summary =
  policy :: "'p option"
  mixed :: bool

definition areCompatible :: "compat_check \<Rightarrow> ('p \<Rightarrow> qos \<Rightarrow> qos) \<Rightarrow> 'p \<Rightarrow> 'p \<Rightarrow> bool" where
  "areCompatible check mutator offered requested \<longleftrightarrow>
     check (mutator offered (keep_last 1)) (mutator requested (keep_last 1)) = CompatOk"

text \<open>First loop: the first concrete offer, and whether a later one differs.\<close>

fun summarize_offers :: "(qos \<Rightarrow> 'p) \<Rightarrow> 'p list \<Rightarrow> 'p policy_summary \<Rightarrow> qos list \<Rightarrow> 'p policy_summary" where
  "summarize_offers acc candidates summary [] = summary"
| "summarize_offers acc candidates summary (q # qs) =
     (let p = acc q in
      if p \<notin> set candidates then summarize_offers acc candidates summary qs
      else (case policy summary of
              None \<Rightarrow> summarize_offers acc candidates (summary\<lparr>policy := Some p\<rparr>) qs
            | Some first \<Rightarrow>
                if first \<noteq> p then summarize_offers acc candidates (summary\<lparr>mixed := True\<rparr>) qs
                else summarize_offers acc candidates summary qs))"

text \<open>Inner loop: a requested policy against every concrete offer.\<close>

fun all_compatible :: "compat_check \<Rightarrow> (qos \<Rightarrow> 'p) \<Rightarrow> ('p \<Rightarrow> qos \<Rightarrow> qos) \<Rightarrow> 'p list \<Rightarrow> 'p \<Rightarrow> qos list \<Rightarrow> bool" where
  "all_compatible check acc mutator candidates requested [] = True"
| "all_compatible check acc mutator candidates requested (q # qs) =
     (if acc q \<notin> set candidates then all_compatible check acc mutator candidates requested qs
      else if \<not> areCompatible check mutator (acc q) requested then False
      else all_compatible check acc mutator candidates requested qs)"

text \<open>Outer loop over the candidates: a later compatible one replaces an earlier one.\<close>

fun last_compatible :: "('p \<Rightarrow> bool) \<Rightarrow> 'p option \<Rightarrow> 'p list \<Rightarrow> 'p option" where
  "last_compatible ok compatible [] = compatible"
| "last_compatible ok compatible (requested # rest) =
     last_compatible ok (if ok requested then Some requested else compatible) rest"

definition summarizePolicy ::
  "compat_check \<Rightarrow> qos list \<Rightarrow> (qos \<Rightarrow> 'p) \<Rightarrow> ('p \<Rightarrow> qos \<Rightarrow> qos) \<Rightarrow> 'p list \<Rightarrow> 'p policy_summary" where
  "summarizePolicy check publisher_qos acc mutator candidates =
     (let summary = summarize_offers acc candidates \<lparr>policy = None, mixed = False\<rparr> publisher_qos in
      if policy summary = None then summary
      else
        (case last_compatible (\<lambda>r. all_compatible check acc mutator candidates r publisher_qos) None candidates of
           Some c \<Rightarrow> summary\<lparr>policy := Some c\<rparr>
         | None \<Rightarrow> if mixed summary then summary\<lparr>policy := Some (last candidates)\<rparr> else summary))"

definition rel_candidates :: "reliability_policy list" where
  "rel_candidates = [Reliable, BestEffort]"

definition dur_candidates :: "durability_policy list" where
  "dur_candidates = [TransientLocal, Volatile]"

definition set_reliability :: "reliability_policy \<Rightarrow> qos \<Rightarrow> qos" where
  "set_reliability p q = q\<lparr>reliability := p\<rparr>"

definition set_durability :: "durability_policy \<Rightarrow> qos \<Rightarrow> qos" where
  "set_durability p q = q\<lparr>durability := p\<rparr>"

definition resolveSubscriptionQos ::
  "compat_check \<Rightarrow> string \<Rightarrow> qos \<Rightarrow> qos_override list option \<Rightarrow> qos list \<Rightarrow> resolved_qos" where
  "resolveSubscriptionQos check topic base config publisher_qos =
     (let mtch = (case config of None \<Rightarrow> None
                  | Some overrides \<Rightarrow> findBestRosResourcePatternMatch override_pattern overrides topic);
          rel = summarizePolicy check publisher_qos reliability set_reliability rel_candidates;
          dur = summarizePolicy check publisher_qos durability set_durability dur_candidates;
          resolved0 = \<lparr>rq_qos = base, rq_source = Fallback, mixed_reliability = mixed rel,
                       mixed_durability = mixed dur, publisher_count = length publisher_qos,
                       rq_override_id = (case mtch of None \<Rightarrow> [] | Some m \<Rightarrow> override_id m)\<rparr>
      in if mtch = None \<and> policy rel = None \<and> policy dur = None then resolved0
         else
           (let m_rel = Option.bind mtch override_reliability;
                m_dur = Option.bind mtch override_durability;
                (q1, used1) = (case m_rel of
                     Some p \<Rightarrow> (set_reliability p base, False)
                   | None \<Rightarrow> (case policy rel of Some p \<Rightarrow> (set_reliability p base, True)
                              | None \<Rightarrow> (base, False)));
                (q2, used2) = (case m_dur of
                     Some p \<Rightarrow> (set_durability p q1, used1)
                   | None \<Rightarrow> (case policy dur of Some p \<Rightarrow> (set_durability p q1, True)
                              | None \<Rightarrow> (q1, used1)))
            in resolved0\<lparr>rq_qos := q2,
                         rq_source := (if mtch \<noteq> None then Override
                                       else if used2 then PublisherQos else Fallback)\<rparr>))"

text \<open>The overload that takes one graph snapshot; a null graph interface throws.\<close>

definition resolveSubscriptionQos_graph ::
  "compat_check \<Rightarrow> (string \<Rightarrow> qos list) option \<Rightarrow> string \<Rightarrow> qos \<Rightarrow> qos_override list option \<Rightarrow> resolved_qos res" where
  "resolveSubscriptionQos_graph check graph topic base config =
     (case graph of
        None \<Rightarrow> Inl (Invalid_argument ''subscription QoS graph interface is null'')
      | Some publishers_of \<Rightarrow> Inr (resolveSubscriptionQos check topic base config (publishers_of topic)))"

section \<open>Summaries\<close>

lemma all_compatible_iff:
  "all_compatible check acc mutator cs r qs \<longleftrightarrow>
     (\<forall>q \<in> set qs. acc q \<in> set cs \<longrightarrow> areCompatible check mutator (acc q) r)"
  by (induction qs) auto

lemma last_compatible_eq:
  "last_compatible ok c xs = (case filter ok xs of [] \<Rightarrow> c | ys \<Rightarrow> Some (last ys))"
  by (induction xs arbitrary: c) (auto split: list.splits)

lemma summarize_offers_policy:
  "policy (summarize_offers acc cs s qs) =
     (case policy s of Some p \<Rightarrow> Some p
      | None \<Rightarrow> (case filter (\<lambda>p. p \<in> set cs) (map acc qs) of [] \<Rightarrow> None | p # _ \<Rightarrow> Some p))"
  by (induction qs arbitrary: s) (auto simp: Let_def split: option.splits)

lemma summarize_None_iff:
  "policy (summarizePolicy check qs acc mutator cs) = None \<longleftrightarrow> (\<forall>q \<in> set qs. acc q \<notin> set cs)"
proof -
  have "policy (summarize_offers acc cs \<lparr>policy = None, mixed = False\<rparr> qs) = None
          \<longleftrightarrow> filter (\<lambda>p. p \<in> set cs) (map acc qs) = []"
    by (simp add: summarize_offers_policy split: list.split)
  also have "\<dots> \<longleftrightarrow> (\<forall>q \<in> set qs. acc q \<notin> set cs)"
    by (simp add: filter_empty_conv)
  finally show ?thesis
    by (auto simp: summarizePolicy_def Let_def split: option.splits)
qed

text \<open>The chosen policy is compatible with every concrete publisher offer whenever some
  candidate is, and it is then the weakest such candidate.\<close>

lemma summarize_weakest_compatible:
  assumes "\<exists>q \<in> set qs. acc q \<in> set cs"
    and "c \<in> set cs" and "all_compatible check acc mutator cs c qs"
  shows "policy (summarizePolicy check qs acc mutator cs) =
     Some (last (filter (\<lambda>r. all_compatible check acc mutator cs r qs) cs))"
proof -
  have "filter (\<lambda>p. p \<in> set cs) (map acc qs) \<noteq> []"
    using assms(1) by (simp add: filter_empty_conv)
  then have ne: "policy (summarize_offers acc cs \<lparr>policy = None, mixed = False\<rparr> qs) \<noteq> None"
    by (simp add: summarize_offers_policy split: list.split)
  have "filter (\<lambda>r. all_compatible check acc mutator cs r qs) cs \<noteq> []"
    using assms(2,3) by (auto simp: filter_empty_conv)
  with ne show ?thesis
    by (auto simp: summarizePolicy_def Let_def last_compatible_eq split: list.splits)
qed

text \<open>each QoS axis of the resolved profile is the explicit value of the best matching
  override, else the policy summarized from the visible publishers, else the base value; the
  history depth is always that of the base profile and the publisher count is reported.\<close>

theorem resolve_axis_precedence:
  "let m = Option.bind config (\<lambda>os. findBestRosResourcePatternMatch override_pattern os topic);
       r = resolveSubscriptionQos check topic base config pubs in
   reliability (rq_qos r) =
     (case Option.bind m override_reliability of Some p \<Rightarrow> p
      | None \<Rightarrow> (case policy (summarizePolicy check pubs reliability set_reliability rel_candidates) of
                   Some p \<Rightarrow> p | None \<Rightarrow> reliability base))
   \<and> durability (rq_qos r) =
     (case Option.bind m override_durability of Some p \<Rightarrow> p
      | None \<Rightarrow> (case policy (summarizePolicy check pubs durability set_durability dur_candidates) of
                   Some p \<Rightarrow> p | None \<Rightarrow> durability base))
   \<and> depth (rq_qos r) = depth base
   \<and> publisher_count r = length pubs
   \<and> (rq_source r = Override \<longleftrightarrow> m \<noteq> None)"
  by (cases config)
    (auto simp: resolveSubscriptionQos_def Let_def set_reliability_def set_durability_def
      split: option.splits)

section \<open>Documented request-versus-offer rule\<close>

text \<open>
  What the ROS 2 documentation states of \<open>qos_check_compatible\<close> on concrete reliability and
  durability values: a best-effort offer does not satisfy a reliable request, a volatile offer
  does not satisfy a transient-local one, and every other combination is compatible.
\<close>

definition rxo_documented :: "compat_check \<Rightarrow> bool" where
  "rxo_documented check \<longleftrightarrow>
     (\<forall>p s. reliability p \<in> set rel_candidates \<longrightarrow> reliability s \<in> set rel_candidates \<longrightarrow>
            durability p \<in> set dur_candidates \<longrightarrow> durability s \<in> set dur_candidates \<longrightarrow>
            (check p s = CompatOk \<longleftrightarrow>
               \<not> (reliability p = BestEffort \<and> reliability s = Reliable) \<and>
               \<not> (durability p = Volatile \<and> durability s = TransientLocal)))"

definition rxo_check :: compat_check where
  "rxo_check p s =
     (if (reliability p = BestEffort \<and> reliability s = Reliable) \<or>
         (durability p = Volatile \<and> durability s = TransientLocal) then CompatError else CompatOk)"

lemma rxo_check_documented: "rxo_documented rxo_check"
  by (simp add: rxo_documented_def rxo_check_def)

lemma best_effort_request_compatible:
  "rxo_documented check \<Longrightarrow> all_compatible check reliability set_reliability rel_candidates BestEffort qs"
  by (auto simp: all_compatible_iff areCompatible_def rxo_documented_def rel_candidates_def
      dur_candidates_def set_reliability_def keep_last_def)

lemma volatile_request_compatible:
  "rxo_documented check \<Longrightarrow> all_compatible check durability set_durability dur_candidates Volatile qs"
  by (auto simp: all_compatible_iff areCompatible_def rxo_documented_def rel_candidates_def
      dur_candidates_def set_durability_def keep_last_def)



end
