(* ===== verification/Json_Fields.thy ===== *)
theory Json_Fields
  imports Text_Utils
begin

text \<open>
  The JSON values the protocol parsers inspect, and the field readers of
  src/src/protocol/detail/json_fields.hpp.

  \<open>nlohmann::json::parse\<close> and \<open>dump\<close> are library code and parameters of the definitions
  that call them. A JSON integer keeps the width and signedness the library stores it with:
  \<open>JUInt\<close> is an unsigned and \<open>JInt\<close> a signed 64-bit value. A float keeps its raw bits, which
  no parser of the bridge reads.
\<close>

datatype json =
    JNull
  | JBool bool
  | JUInt "64 word"
  | JInt "64 word"
  | JFloat "64 word"
  | JString string
  | JArray "json list"
  | JObject "(string \<times> json) list"

text \<open>\<open>find\<close>: absent also on a value that is not an object.\<close>

fun json_find :: "json \<Rightarrow> string \<Rightarrow> json option" where
  "json_find (JObject kvs) k = map_of kvs k"
| "json_find _ k = None"

fun is_object :: "json \<Rightarrow> bool" where
  "is_object (JObject kvs) = True"
| "is_object _ = False"

fun is_number_integer :: "json \<Rightarrow> bool" where
  "is_number_integer (JUInt w) = True"
| "is_number_integer (JInt w) = True"
| "is_number_integer _ = False"

text \<open>\<open>get<std::int64_t>()\<close>: an unsigned value converts modulo \<open>2\<^sup>6\<^sup>4\<close>.\<close>

fun get_int64 :: "json \<Rightarrow> int" where
  "get_int64 (JUInt w) = sint w"
| "get_int64 (JInt w) = sint w"
| "get_int64 _ = 0"

type_synonym 'p json_parser = "'p \<Rightarrow> json option"

definition parseObject :: "'p json_parser \<Rightarrow> 'p \<Rightarrow> string \<Rightarrow> string \<Rightarrow> json res" where
  "parseObject parse payload invalid_json invalid_object =
     (case parse payload of
        None \<Rightarrow> Inl (Invalid_argument invalid_json)
      | Some body \<Rightarrow> if \<not> is_object body then Inl (Invalid_argument invalid_object) else Inr body)"

definition trimmedString :: "json \<Rightarrow> string \<Rightarrow> bool \<Rightarrow> string option res" where
  "trimmedString value invalid null_is_absent =
     (if null_is_absent \<and> value = JNull then Inr None
      else (case value of
              JString s \<Rightarrow> (let t = trim s in if t = [] then Inr None else Inr (Some t))
            | _ \<Rightarrow> Inl (Invalid_argument invalid)))"

definition requiredString :: "json \<Rightarrow> string \<Rightarrow> string \<Rightarrow> string option \<Rightarrow> string res" where
  "requiredString body field invalid empty_message =
     (case json_find body field of
        None \<Rightarrow> Inl (Invalid_argument invalid)
      | Some value \<Rightarrow>
          res_bind (trimmedString value invalid False)
            (\<lambda>t. case t of Some text \<Rightarrow> Inr text
                 | None \<Rightarrow> Inl (Invalid_argument
                     (case empty_message of None \<Rightarrow> invalid | Some m \<Rightarrow> m))))"

definition optionalString :: "json \<Rightarrow> string \<Rightarrow> string \<Rightarrow> bool \<Rightarrow> string option res" where
  "optionalString body field invalid null_is_absent =
     (case json_find body field of
        None \<Rightarrow> Inr None
      | Some value \<Rightarrow> trimmedString value invalid null_is_absent)"

lemma parseObject_Inr_iff [res_iffs]:
  "parseObject parse p a b = Inr body \<longleftrightarrow> parse p = Some body \<and> is_object body"
  by (auto simp: parseObject_def split: option.splits)

lemma parseObject_Inl: "parseObject parse p a b = Inl e \<Longrightarrow> is_invalid_argument e"
  by (auto simp: parseObject_def split: option.splits if_splits)

lemma trimmedString_Inr_iff [res_iffs]:
  "trimmedString v a n = Inr r \<longleftrightarrow>
     (n \<and> v = JNull \<and> r = None) \<or> (\<exists>s. v = JString s \<and> r = (if trim s = [] then None else Some (trim s)))"
  by (cases v) (auto simp: trimmedString_def Let_def)

lemma trimmedString_Inl: "trimmedString v a n = Inl e \<Longrightarrow> e = Invalid_argument a"
  by (cases v) (auto simp: trimmedString_def Let_def split: if_splits)

lemma requiredString_Inr_iff [res_iffs]:
  "requiredString body f a m = Inr t \<longleftrightarrow>
     (\<exists>s. json_find body f = Some (JString s) \<and> t = trim s \<and> trim s \<noteq> [])"
  by (auto simp: requiredString_def res_iffs split: option.splits if_splits)

lemma requiredString_Inl: "requiredString body f a m = Inl e \<Longrightarrow> is_invalid_argument e"
  by (auto simp: requiredString_def res_iffs split: option.splits if_splits dest!: trimmedString_Inl)

lemma optionalString_Inr_iff [res_iffs]:
  "optionalString body f a n = Inr r \<longleftrightarrow>
     (json_find body f = None \<and> r = None) \<or>
     (n \<and> json_find body f = Some JNull \<and> r = None) \<or>
     (\<exists>s. json_find body f = Some (JString s) \<and> r = (if trim s = [] then None else Some (trim s)))"
  by (auto simp: optionalString_def res_iffs split: option.splits)

lemma optionalString_Inl: "optionalString body f a n = Inl e \<Longrightarrow> is_invalid_argument e"
  by (auto simp: optionalString_def split: option.splits dest!: trimmedString_Inl)

lemma optionalString_nonblank:
  "optionalString body f a n = Inr (Some t) \<Longrightarrow> t \<noteq> [] \<and> trim t = t"
  by (auto simp: res_iffs split: if_splits)

end
