(* ===== verification/Protocol_Subscriptions.thy ===== *)
theory Protocol_Subscriptions
  imports Json_Fields Resource_Names
begin

text \<open>
  The subscription control plane on the wire (src/src/protocol/subscriptions.hpp,
  subscriptions_json.cpp): parsing of \<open>lkros.heartbeat\<close> packets with coalescing of duplicate
  targets, and serialization of \<open>lkros.status\<close> reports.
\<close>

section \<open>Data\<close>

datatype target_kind = Topic | OtherVideo | OtherAudio

record demand =
  demand_kind :: target_kind
  demand_name :: string
  preferred_interval_ms :: "int option"

record unsupported_subscription =
  unsup_kind :: string
  unsup_name :: "string option"

record heartbeat =
  session_id :: "string option"
  demands :: "demand list"
  unsupported :: "unsupported_subscription list"

datatype delivery_kind = Data | Video | Audio

record subscription_status =
  st_kind :: target_kind
  st_name :: string
  degradation_reason :: string
  st_interface_type :: string
  st_qos :: "string option"
  st_interval_ms :: int
  delivery :: delivery_kind
  st_track_name :: string

datatype error_reason = Forbidden | NotFound | UnsupportedKind

record error_status =
  es_kind :: target_kind
  es_name :: string
  raw_kind :: string
  raw_name :: "string option"
  reason :: error_reason
  message :: string

datatype status_entry = Active subscription_status | Failed error_status

record status_report =
  statuses :: "status_entry list"
  rep_session_id :: "string option"
  lease_expiry :: "time option"

section \<open>Parsing heartbeats\<close>

fun toWire :: "target_kind \<Rightarrow> string" where
  "toWire Topic = ''topic''"
| "toWire OtherVideo = ''other_video''"
| "toWire OtherAudio = ''other_audio''"

definition kIntervalField :: string where
  "kIntervalField = ''subscriptions.delivery_preferences.interval_ms''"

fun parseClampedInt :: "json \<Rightarrow> string \<Rightarrow> int res" where
  "parseClampedInt (JUInt raw) msg = (if uint raw > int_max then Inr int_max else Inr (uint raw))"
| "parseClampedInt (JInt raw) msg =
     (if sint raw < int_min then Inr int_min
      else if sint raw > int_max then Inr int_max else Inr (sint raw))"
| "parseClampedInt _ msg = Inl (Validation_error kIntervalField msg)"

definition parseIntervalMs :: "json \<Rightarrow> int option res" where
  "parseIntervalMs entry =
     (case json_find entry ''delivery_preferences'' of
        None \<Rightarrow> Inr None
      | Some preferences \<Rightarrow>
          if \<not> is_object preferences then
            Inl (Validation_error ''subscriptions.delivery_preferences'' ''delivery_preferences must be an object'')
          else (case json_find preferences ''interval_ms'' of
                  None \<Rightarrow> Inr None
                | Some interval \<Rightarrow>
                    res_bind (parseClampedInt interval ''delivery_preferences.interval_ms must be an integer'')
                      (\<lambda>n. if n = 0 then Inr None else Inr (Some n))))"

definition kind_of_wire :: "string \<Rightarrow> target_kind option" where
  "kind_of_wire k =
     (if k = ''topic'' then Some Topic
      else if k = ''other_video'' then Some OtherVideo
      else if k = ''other_audio'' then Some OtherAudio else None)"

text \<open>\<open>Inl u\<close> inside the result is the \<open>return false\<close> path: an unrecognized kind.\<close>

definition parseTarget :: "expander \<Rightarrow> json \<Rightarrow> (unsupported_subscription + demand) res" where
  "parseTarget expand entry =
     (case json_find entry ''kind'' of
        Some (JString raw) \<Rightarrow>
          (let kind = trim raw in
           if kind = [] then
             Inl (Validation_error ''subscriptions.kind'' ''heartbeat subscription 'kind' must be a non-empty value'')
           else (case kind_of_wire kind of
             None \<Rightarrow>
               Inr (Inl \<lparr>unsup_kind = raw,
                         unsup_name = (case json_find entry ''name'' of Some (JString n) \<Rightarrow> Some n | _ \<Rightarrow> None)\<rparr>)
           | Some k \<Rightarrow>
               (case json_find entry ''name'' of
                  Some (JString n) \<Rightarrow>
                    if k = Topic then
                      (case expand (trim n) ''livekit_ros2_bridge'' ''/'' False of
                         Inl err \<Rightarrow> Inl (Validation_error ''subscriptions.name'' (what (expand_exn err)))
                       | Inr name \<Rightarrow>
                           Inr (Inr \<lparr>demand_kind = k, demand_name = name, preferred_interval_ms = None\<rparr>))
                    else if trim n = [] then
                      Inl (Validation_error ''subscriptions.name''
                             ''heartbeat subscription other source name must trim to a non-empty name'')
                    else Inr (Inr \<lparr>demand_kind = k, demand_name = trim n, preferred_interval_ms = None\<rparr>)
                | _ \<Rightarrow> Inl (Validation_error ''subscriptions.name'' ''heartbeat subscription 'name' must be a string''))))
      | _ \<Rightarrow> Inl (Validation_error ''subscriptions.kind'' ''heartbeat subscription 'kind' must be a string''))"

definition target_key :: "target_kind \<Rightarrow> string \<Rightarrow> string" where
  "target_key k n = toWire k @ '':'' @ n"

text \<open>
  The loop state: the demands and unsupported entries collected so far, \<open>index_by_target\<close>
  and \<open>seen_unsupported\<close>.
\<close>

record hb_acc =
  acc_demands :: "demand list"
  index_by_target :: "(string, nat) alist"
  acc_unsupported :: "unsupported_subscription list"
  seen_unsupported :: "(string \<times> string option) list"

definition hb_acc_init :: hb_acc where
  "hb_acc_init = \<lparr>acc_demands = [], index_by_target = [], acc_unsupported = [], seen_unsupported = []\<rparr>"

definition add_unsupported :: "unsupported_subscription \<Rightarrow> hb_acc \<Rightarrow> hb_acc" where
  "add_unsupported u acc =
     (let id = (unsup_kind u, unsup_name u) in
      if id \<in> set (seen_unsupported acc) then acc
      else acc\<lparr>seen_unsupported := id # seen_unsupported acc,
               acc_unsupported := acc_unsupported acc @ [u]\<rparr>)"

definition add_demand :: "demand \<Rightarrow> hb_acc \<Rightarrow> hb_acc" where
  "add_demand d acc =
     (let key = target_key (demand_kind d) (demand_name d) in
      case lookup (index_by_target acc) key of
        None \<Rightarrow> acc\<lparr>index_by_target := AList.update key (length (acc_demands acc)) (index_by_target acc),
                    acc_demands := acc_demands acc @ [d]\<rparr>
      | Some pos \<Rightarrow>
          (case preferred_interval_ms d of
             None \<Rightarrow> acc
           | Some requested \<Rightarrow>
               (let cur = acc_demands acc ! pos in
                case preferred_interval_ms cur of
                  Some c \<Rightarrow> if requested \<ge> c then acc
                            else acc\<lparr>acc_demands := (acc_demands acc)[pos := cur\<lparr>preferred_interval_ms := Some requested\<rparr>]\<rparr>
                | None \<Rightarrow> acc\<lparr>acc_demands := (acc_demands acc)[pos := cur\<lparr>preferred_interval_ms := Some requested\<rparr>]\<rparr>)))"

fun parse_entries :: "expander \<Rightarrow> json list \<Rightarrow> hb_acc \<Rightarrow> hb_acc res" where
  "parse_entries expand [] acc = Inr acc"
| "parse_entries expand (entry # entries) acc =
     (if \<not> is_object entry then
        Inl (Validation_error ''subscriptions'' ''heartbeat subscriptions must be objects'')
      else res_bind (parseTarget expand entry) (\<lambda>t.
        case t of
          Inl u \<Rightarrow> parse_entries expand entries (add_unsupported u acc)
        | Inr d \<Rightarrow> res_bind (parseIntervalMs entry) (\<lambda>i.
            parse_entries expand entries (add_demand (d\<lparr>preferred_interval_ms := i\<rparr>) acc))))"

definition parse_heartbeat_body :: "expander \<Rightarrow> json \<Rightarrow> heartbeat res" where
  "parse_heartbeat_body expand body =
     res_bind (invalid_as ''session_id''
                 (optionalString body ''session_id'' ''heartbeat session_id must be a string'' True)) (\<lambda>sid.
     case json_find body ''subscriptions'' of
       None \<Rightarrow> Inl (Validation_error ''subscriptions'' ''heartbeat subscriptions are required'')
     | Some (JArray entries) \<Rightarrow>
         res_bind (parse_entries expand entries hb_acc_init) (\<lambda>acc.
           Inr \<lparr>session_id = sid, demands = acc_demands acc, unsupported = acc_unsupported acc\<rparr>)
     | Some _ \<Rightarrow> Inl (Validation_error ''subscriptions'' ''heartbeat subscriptions must be an array''))"

definition parse_heartbeat :: "'p json_parser \<Rightarrow> expander \<Rightarrow> 'p \<Rightarrow> heartbeat res" where
  "parse_heartbeat parse expand payload =
     (case res_bind (parseObject parse payload ''Invalid JSON in subscription heartbeat''
                       ''Subscription heartbeat must be a JSON object'')
             (parse_heartbeat_body expand) of
        Inr h \<Rightarrow> Inr h
      | Inl (Validation_error f m) \<Rightarrow> Inl (Validation_error f m)
      | Inl e \<Rightarrow> if is_invalid_argument e then Inl (Validation_error ''payload'' (what e)) else Inl e)"

section \<open>Serializing status reports\<close>

definition jint :: "int \<Rightarrow> json" where
  "jint n = JInt (word_of_int n)"

definition kProtocolVersion :: int where
  "kProtocolVersion = 2"

definition kCdrContentType :: string where
  "kCdrContentType = ''application/x-ros-cdr''"

fun delivery_wire :: "delivery_kind \<Rightarrow> string" where
  "delivery_wire Data = ''data''"
| "delivery_wire Video = ''video''"
| "delivery_wire Audio = ''audio''"

fun reason_wire :: "error_reason \<Rightarrow> string" where
  "reason_wire Forbidden = ''forbidden''"
| "reason_wire NotFound = ''not_found''"
| "reason_wire UnsupportedKind = ''unsupported_kind''"

definition serialize_status :: "subscription_status \<Rightarrow> json" where
  "serialize_status st = JObject (
     [(''kind'', JString (toWire (st_kind st))), (''name'', JString (st_name st)), (''status'', JString ''active'')]
     @ (if degradation_reason st \<noteq> [] then [(''degraded_reason'', JString (degradation_reason st))] else [])
     @ (if st_interface_type st \<noteq> [] then [(''interface_type'', JString (st_interface_type st))] else [])
     @ (case st_qos st of None \<Rightarrow> [] | Some d \<Rightarrow> [(''qos'', JObject [(''durability'', JString d)])])
     @ [(''delivery'', JObject (
          [(''kind'', JString (delivery_wire (delivery st))), (''track_name'', JString (st_track_name st))]
          @ (if delivery st = Data then [(''content_type'', JString kCdrContentType),
                                         (''interval_ms'', jint (st_interval_ms st))] else [])))])"

definition serialize_error :: "error_status \<Rightarrow> json res" where
  "serialize_error st =
     (if reason st = UnsupportedKind \<and> raw_kind st = [] then
        Inl (Invalid_argument ''unsupported kind status is missing the raw kind to echo'')
      else Inr (JObject (
        [(''kind'', JString (if reason st = UnsupportedKind then raw_kind st else toWire (es_kind st))),
         (''status'', JString ''error''),
         (''error'', JObject [(''reason'', JString (reason_wire (reason st))), (''message'', JString (message st))])]
        @ (if reason st = UnsupportedKind
           then (case raw_name st of Some n \<Rightarrow> [(''name'', JString n)] | None \<Rightarrow> [])
           else [(''name'', JString (es_name st))]))))"

fun serialize_entry :: "status_entry \<Rightarrow> json res" where
  "serialize_entry (Active st) = Inr (serialize_status st)"
| "serialize_entry (Failed st) = serialize_error st"

fun serialize_entries :: "status_entry list \<Rightarrow> json list res" where
  "serialize_entries [] = Inr []"
| "serialize_entries (e # es) =
     res_bind (serialize_entry e) (\<lambda>j. res_bind (serialize_entries es) (\<lambda>js. Inr (j # js)))"

text \<open>\<open>duration_cast<milliseconds>\<close> truncates towards zero.\<close>

definition to_ms :: "time \<Rightarrow> int" where
  "to_ms t = (if t \<ge> 0 then t div 1000000 else - ((- t) div 1000000))"

definition serialize_report :: "time \<Rightarrow> status_report \<Rightarrow> json res" where
  "serialize_report now report =
     res_bind (serialize_entries (statuses report)) (\<lambda>entries. Inr (JObject (
       [(''v'', jint kProtocolVersion), (''type'', JString ''lkros.status''), (''subscriptions'', JArray entries)]
       @ (case rep_session_id report of None \<Rightarrow> [] | Some s \<Rightarrow> [(''session_id'', JString s)])
       @ (case lease_expiry report of None \<Rightarrow> []
          | Some t \<Rightarrow> [(''lease_expires_in_ms'', jint (to_ms (t - now)))]))))"

section \<open>Intervals\<close>

lemma parseClampedInt_range:
  "parseClampedInt v m = Inr n \<Longrightarrow> int_min \<le> n \<and> n \<le> int_max"
  by (cases "(v, m)" rule: parseClampedInt.cases) (auto split: if_splits intro: order_trans [OF _ uint_ge_0])

lemma parseIntervalMs_Some:
  "parseIntervalMs entry = Inr (Some n) \<Longrightarrow> n \<noteq> 0 \<and> int_min \<le> n \<and> n \<le> int_max"
  by (auto simp: parseIntervalMs_def res_iffs dest!: parseClampedInt_range split: option.splits if_splits)

section \<open>Coalescing\<close>

text \<open>Target keys separate kind and name: no wire kind contains a colon.\<close>

lemma target_key_inj: "target_key k n = target_key k' n' \<longleftrightarrow> k = k' \<and> n = n'"
  by (cases k; cases k') (auto simp: target_key_def)

text \<open>
  Reference meaning of a heartbeat: the distinct targets in first-seen order, each with the
  smallest interval any of its entries asks for (an absent interval is no preference).
\<close>

definition first_seen :: "'a list \<Rightarrow> 'a list" where
  "first_seen ks = rev (remdups (rev ks))"

lemma first_seen_Nil [simp]: "first_seen [] = []"
  by (simp add: first_seen_def)

lemma first_seen_snoc [simp]:
  "first_seen (ks @ [k]) = (if k \<in> set ks then first_seen ks else first_seen ks @ [k])"
  by (simp add: first_seen_def)

lemma set_first_seen [simp]: "set (first_seen ks) = set ks"
  by (simp add: first_seen_def)

lemma distinct_first_seen [simp]: "distinct (first_seen ks)"
  by (simp add: first_seen_def)

definition key_of :: "demand \<Rightarrow> target_kind \<times> string" where
  "key_of d = (demand_kind d, demand_name d)"

definition min_interval :: "demand list \<Rightarrow> int option" where
  "min_interval ds = (case List.map_filter preferred_interval_ms ds of [] \<Rightarrow> None | is \<Rightarrow> Some (Min (set is)))"

definition coalesced :: "demand list \<Rightarrow> target_kind \<times> string \<Rightarrow> demand" where
  "coalesced ds kn = \<lparr>demand_kind = fst kn, demand_name = snd kn,
     preferred_interval_ms = min_interval (filter (\<lambda>d. key_of d = kn) ds)\<rparr>"

definition coalesce :: "demand list \<Rightarrow> demand list" where
  "coalesce ds = map (coalesced ds) (first_seen (map key_of ds))"

fun min_opt :: "int option \<Rightarrow> int option \<Rightarrow> int option" where
  "min_opt None b = b"
| "min_opt a None = a"
| "min_opt (Some a) (Some b) = Some (min a b)"

lemma min_interval_Nil [simp]: "min_interval [] = None"
  by (simp add: min_interval_def List.map_filter_def)

lemma min_interval_snoc [simp]:
  "min_interval (ds @ [d]) = min_opt (min_interval ds) (preferred_interval_ms d)"
proof -
  let ?f = "List.map_filter preferred_interval_ms"
  have snoc: "?f (ds @ [d]) = ?f ds @ (case preferred_interval_ms d of None \<Rightarrow> [] | Some i \<Rightarrow> [i])"
    by (simp add: List.map_filter_def split: option.split)
  show ?thesis
  proof (cases "preferred_interval_ms d")
    case None
    with snoc show ?thesis by (cases "min_interval ds") (simp_all add: min_interval_def)
  next
    case (Some i)
    show ?thesis
    proof (cases "?f ds")
      case Nil
      with snoc Some show ?thesis by (simp add: min_interval_def)
    next
      case (Cons a as)
      have "Min (set (a # as @ [i])) = min (Min (set (a # as))) i"
        by (induction "as") (auto simp: min.assoc min.commute min.left_commute insert_commute)
      with Cons snoc Some show ?thesis by (simp add: min_interval_def)
    qed
  qed
qed

lemma coalesced_snoc:
  "coalesced (ds @ [d]) kn =
     (if key_of d = kn then (coalesced ds kn)\<lparr>preferred_interval_ms :=
         min_opt (preferred_interval_ms (coalesced ds kn)) (preferred_interval_ms d)\<rparr>
      else coalesced ds kn)"
  by (simp add: coalesced_def)

lemma coalesced_fresh: "key_of d \<notin> key_of ` set ds \<Longrightarrow> coalesced (ds @ [d]) (key_of d) = d"
proof -
  assume "key_of d \<notin> key_of ` set ds"
  then have "filter (\<lambda>x. key_of x = key_of d) ds = []"
    unfolding filter_empty_conv by (metis imageI)
  moreover have "min_interval [d] = preferred_interval_ms d"
    using min_interval_snoc [of "[]" d] by simp
  ultimately show ?thesis by (simp add: coalesced_def) (simp add: key_of_def)
qed

text \<open>The invariant of the parser's loop: collected demands and their index.\<close>

definition index_ok :: "(string, nat) alist \<Rightarrow> (target_kind \<times> string) list \<Rightarrow> bool" where
  "index_ok idx ks \<longleftrightarrow>
     (\<forall>k n. case lookup idx (target_key k n) of
              None \<Rightarrow> (k, n) \<notin> set ks
            | Some p \<Rightarrow> p < length ks \<and> ks ! p = (k, n))"

lemma index_ok_update:
  assumes "index_ok idx ks" and "(k, n) \<notin> set ks"
  shows "index_ok (AList.update (target_key k n) (length ks) idx) (ks @ [(k, n)])"
  unfolding index_ok_def
proof (intro allI)
  fix k' n'
  show "case lookup (AList.update (target_key k n) (length ks) idx) (target_key k' n') of
          None \<Rightarrow> (k', n') \<notin> set (ks @ [(k, n)])
        | Some p \<Rightarrow> p < length (ks @ [(k, n)]) \<and> (ks @ [(k, n)]) ! p = (k', n')"
    using assms(1) [unfolded index_ok_def, rule_format, of k' n']
    by (auto simp: al_simps target_key_inj nth_append split: option.splits)
qed

lemma add_demand_coalesce:
  assumes dem: "acc_demands acc = coalesce ds"
    and idx: "index_ok (index_by_target acc) (first_seen (map key_of ds))"
  shows "acc_demands (add_demand d acc) = coalesce (ds @ [d])
       \<and> index_ok (index_by_target (add_demand d acc)) (first_seen (map key_of (ds @ [d])))"
proof (cases "lookup (index_by_target acc) (target_key (demand_kind d) (demand_name d))")
  case None
  with idx have new: "key_of d \<notin> set (map key_of ds)"
    by (auto simp: index_ok_def key_of_def dest!: spec [of _ "demand_kind d"] spec [of _ "demand_name d"])
  have len: "length (coalesce ds) = length (first_seen (map key_of ds))"
    by (simp add: coalesce_def)
  have "map (coalesced (ds @ [d])) (first_seen (map key_of ds)) = coalesce ds"
    unfolding coalesce_def using new by (intro map_cong refl) (auto simp: coalesced_snoc)
  with new have "coalesce (ds @ [d]) = coalesce ds @ [d]"
    by (simp add: coalesce_def coalesced_fresh)
  with None new dem len index_ok_update [OF idx, of "demand_kind d" "demand_name d"] show ?thesis
    by (simp add: add_demand_def key_of_def)
next
  case (Some p)
  let ?ks = "first_seen (map key_of ds)"
  from Some idx have p: "p < length ?ks" "?ks ! p = key_of d"
    by (auto simp: index_ok_def key_of_def dest!: spec [of _ "demand_kind d"] spec [of _ "demand_name d"])
  then have old: "key_of d \<in> set (map key_of ds)" by (metis nth_mem set_first_seen)
  have cur: "acc_demands acc ! p = coalesced ds (key_of d)"
    using p dem by (simp add: coalesce_def)
  have upd: "coalesce (ds @ [d]) = (coalesce ds)[p := coalesced (ds @ [d]) (key_of d)]"
  proof -
    have "map (coalesced (ds @ [d])) ?ks = (map (coalesced ds) ?ks)[p := coalesced (ds @ [d]) (key_of d)]"
    proof (rule nth_equalityI)
      fix i assume i: "i < length (map (coalesced (ds @ [d])) ?ks)"
      show "map (coalesced (ds @ [d])) ?ks ! i =
              (map (coalesced ds) ?ks)[p := coalesced (ds @ [d]) (key_of d)] ! i"
      proof (cases "i = p")
        case True
        with p i show ?thesis by simp
      next
        case False
        with p i have "?ks ! i \<noteq> key_of d"
          by (metis distinct_first_seen length_map nth_eq_iff_index_eq)
        with False i show ?thesis by (simp add: coalesced_snoc)
      qed
    qed simp
    with old show ?thesis by (simp add: coalesce_def)
  qed
  have len: "p < length (coalesce ds)" using p by (simp add: coalesce_def)
  have at: "coalesce ds ! p = coalesced ds (key_of d)" using cur dem by simp
  have keep: "coalesce (ds @ [d]) = coalesce ds" if "coalesced (ds @ [d]) (key_of d) = coalesced ds (key_of d)"
    using that upd at len by (simp add: list_update_same_conv)
  have "acc_demands (add_demand d acc) = coalesce (ds @ [d])"
  proof (cases "min_opt (preferred_interval_ms (coalesced ds (key_of d))) (preferred_interval_ms d)
                  = preferred_interval_ms (coalesced ds (key_of d))")
    case True
    then have "coalesce (ds @ [d]) = coalesce ds" by (intro keep) (simp add: coalesced_snoc)
    moreover have "acc_demands (add_demand d acc) = acc_demands acc"
      using True Some by (auto simp: add_demand_def cur Let_def split: option.splits)
    ultimately show ?thesis using dem by simp
  next
    case False
    then obtain i where i: "preferred_interval_ms d = Some i"
      by (cases "preferred_interval_ms d"; cases "preferred_interval_ms (coalesced ds (key_of d))") auto
    show ?thesis
    proof (cases "preferred_interval_ms (coalesced ds (key_of d))")
      case None
      with Some i show ?thesis by (simp add: add_demand_def upd dem at coalesced_snoc)
    next
      case (Some c)
      with False i have "i < c" by (auto simp: min_def split: if_splits)
      with Some i \<open>lookup _ _ = _\<close> show ?thesis
        by (simp add: add_demand_def upd dem at coalesced_snoc min_def)
    qed
  qed
  moreover have "index_by_target (add_demand d acc) = index_by_target acc"
    using Some by (auto simp: add_demand_def Let_def split: option.splits)
  ultimately show ?thesis using idx old by simp
qed

lemma add_unsupported_first_seen:
  assumes "acc_unsupported acc = first_seen us"
    and "set (seen_unsupported acc) = (\<lambda>u. (unsup_kind u, unsup_name u)) ` set us"
  shows "acc_unsupported (add_unsupported u acc) = first_seen (us @ [u])
       \<and> set (seen_unsupported (add_unsupported u acc)) = (\<lambda>u. (unsup_kind u, unsup_name u)) ` set (us @ [u])"
proof -
  have "(unsup_kind u, unsup_name u) \<in> set (seen_unsupported acc) \<longleftrightarrow> u \<in> set us"
    unfolding assms(2) by (auto simp: image_iff intro!: bexI [of _ u])
      (metis (full_types) old.unit.exhaust unsupported_subscription.equality)
  with assms show ?thesis by (auto simp: add_unsupported_def Let_def)
qed

text \<open>The entries one by one, with no shared state: what each one asks for on its own.\<close>

fun parse_entry :: "expander \<Rightarrow> json \<Rightarrow> (unsupported_subscription + demand) res" where
  "parse_entry expand entry =
     (if \<not> is_object entry then
        Inl (Validation_error ''subscriptions'' ''heartbeat subscriptions must be objects'')
      else res_bind (parseTarget expand entry) (\<lambda>t.
        case t of Inl u \<Rightarrow> Inr (Inl u)
        | Inr d \<Rightarrow> res_bind (parseIntervalMs entry) (\<lambda>i. Inr (Inr (d\<lparr>preferred_interval_ms := i\<rparr>)))))"

fun parse_each :: "expander \<Rightarrow> json list \<Rightarrow> (unsupported_subscription + demand) list res" where
  "parse_each expand [] = Inr []"
| "parse_each expand (e # es) =
     res_bind (parse_entry expand e) (\<lambda>t. res_bind (parse_each expand es) (\<lambda>ts. Inr (t # ts)))"

fun demands_of :: "(unsupported_subscription + demand) list \<Rightarrow> demand list" where
  "demands_of [] = []"
| "demands_of (Inl u # ts) = demands_of ts"
| "demands_of (Inr d # ts) = d # demands_of ts"

fun unsupported_of :: "(unsupported_subscription + demand) list \<Rightarrow> unsupported_subscription list" where
  "unsupported_of [] = []"
| "unsupported_of (Inl u # ts) = u # unsupported_of ts"
| "unsupported_of (Inr d # ts) = unsupported_of ts"

definition acc_ok :: "demand list \<Rightarrow> unsupported_subscription list \<Rightarrow> hb_acc \<Rightarrow> bool" where
  "acc_ok ds us acc \<longleftrightarrow>
     acc_demands acc = coalesce ds \<and> index_ok (index_by_target acc) (first_seen (map key_of ds))
   \<and> acc_unsupported acc = first_seen us
   \<and> set (seen_unsupported acc) = (\<lambda>u. (unsup_kind u, unsup_name u)) ` set us"

lemma acc_ok_init: "acc_ok [] [] hb_acc_init"
  by (simp add: acc_ok_def hb_acc_init_def coalesce_def index_ok_def)

lemma add_unsupported_frame:
  "acc_demands (add_unsupported u acc) = acc_demands acc"
  "index_by_target (add_unsupported u acc) = index_by_target acc"
  by (simp_all add: add_unsupported_def Let_def)

lemma add_demand_frame:
  "acc_unsupported (add_demand d acc) = acc_unsupported acc"
  "seen_unsupported (add_demand d acc) = seen_unsupported acc"
  by (auto simp: add_demand_def Let_def split: option.splits)

lemma acc_ok_demand: "acc_ok ds us acc \<Longrightarrow> acc_ok (ds @ [d]) us (add_demand d acc)"
  using add_demand_coalesce [of acc ds d] by (simp add: acc_ok_def add_demand_frame)

lemma acc_ok_unsupported: "acc_ok ds us acc \<Longrightarrow> acc_ok ds (us @ [u]) (add_unsupported u acc)"
  using add_unsupported_first_seen [of acc us u] by (simp add: acc_ok_def add_unsupported_frame)

lemma parse_entries_step:
  "parse_entries expand (e # es) acc =
     res_bind (parse_entry expand e) (\<lambda>t.
       parse_entries expand es (case t of Inl u \<Rightarrow> add_unsupported u acc | Inr d \<Rightarrow> add_demand d acc))"
  by (cases "parseTarget expand e"; cases "parseIntervalMs e") (auto split: sum.split)

lemma parse_entries_each:
  assumes "acc_ok ds us acc"
  shows "case parse_each expand es of
           Inl e \<Rightarrow> parse_entries expand es acc = Inl e
         | Inr ts \<Rightarrow> (\<exists>acc'. parse_entries expand es acc = Inr acc'
                       \<and> acc_ok (ds @ demands_of ts) (us @ unsupported_of ts) acc')"
  using assms
proof (induction es arbitrary: ds us acc)
  case (Cons e es)
  show ?case
  proof (cases "parse_entry expand e")
    case (Inl x)
    then show ?thesis by (simp add: parse_entries_step del: parse_entry.simps parse_entries.simps)
  next
    case (Inr t)
    show ?thesis
      using Inr Cons.IH [OF acc_ok_unsupported [OF Cons.prems]] Cons.IH [OF acc_ok_demand [OF Cons.prems]]
      by (cases t; cases "parse_each expand es")
        (force simp add: parse_entries_step simp del: parse_entry.simps parse_entries.simps)+
  qed
qed simp

text \<open>
  C30: a heartbeat whose session id and subscription array are well formed parses exactly as its
  entries parse one by one: it fails with the error of the first bad entry, and otherwise
  yields each target once, in first-seen order, with the smallest interval any duplicate of
  the target asks for, and every unsupported entry once.
\<close>

theorem heartbeat_coalesces:
  assumes "optionalString body ''session_id'' ''heartbeat session_id must be a string'' True = Inr sid"
    and "json_find body ''subscriptions'' = Some (JArray es)"
  shows "parse_heartbeat_body expand body =
           res_bind (parse_each expand es) (\<lambda>ts.
             Inr \<lparr>session_id = sid, demands = coalesce (demands_of ts),
                  unsupported = first_seen (unsupported_of ts)\<rparr>)"
  using assms parse_entries_each [OF acc_ok_init, of expand es]
  by (cases "parse_each expand es") (auto simp: parse_heartbeat_body_def acc_ok_def)

lemma parseTarget_unsupported: "parseTarget expand e = Inr (Inl u) \<Longrightarrow> unsup_kind u \<noteq> []"
  by (auto simp: parseTarget_def Let_def split: option.splits json.splits if_splits sum.splits)

lemma parse_entry_unsupported: "parse_entry expand e = Inr (Inl u) \<Longrightarrow> unsup_kind u \<noteq> []"
proof -
  assume "parse_entry expand e = Inr (Inl u)"
  then obtain t where t: "parseTarget expand e = Inr t" "(case t of Inl u \<Rightarrow> Inr (Inl u)
      | Inr d \<Rightarrow> res_bind (parseIntervalMs e) (\<lambda>i. Inr (Inr (d\<lparr>preferred_interval_ms := i\<rparr>)))) = Inr (Inl u)"
    by (auto simp: res_bind_Inr_iff split: if_splits)
  then show ?thesis by (cases t) (auto simp: res_bind_Inr_iff dest: parseTarget_unsupported)
qed

lemma parse_heartbeat_body_Inr:
  "parse_heartbeat parse expand payload = Inr hb \<Longrightarrow> \<exists>body. parse_heartbeat_body expand body = Inr hb"
proof -
  assume p: "parse_heartbeat parse expand payload = Inr hb"
  let ?r = "res_bind (parseObject parse payload ''Invalid JSON in subscription heartbeat''
      ''Subscription heartbeat must be a JSON object'') (parse_heartbeat_body expand)"
  have "?r = Inr hb"
  proof (cases ?r)
    case (Inl e)
    with p show ?thesis by (cases e) (simp_all add: parse_heartbeat_def)
  qed (use p in \<open>simp add: parse_heartbeat_def\<close>)
  then show ?thesis by (auto simp: res_bind_Inr_iff)
qed

lemma parse_heartbeat_body_entries:
  assumes "parse_heartbeat_body expand body = Inr hb"
  shows "\<exists>es acc. parse_entries expand es hb_acc_init = Inr acc \<and> unsupported hb = acc_unsupported acc"
proof -
  from assms obtain sid where *: "(case json_find body ''subscriptions'' of
       None \<Rightarrow> Inl (Validation_error ''subscriptions'' ''heartbeat subscriptions are required'')
     | Some (JArray entries) \<Rightarrow>
         res_bind (parse_entries expand entries hb_acc_init) (\<lambda>acc.
           Inr \<lparr>session_id = sid, demands = acc_demands acc, unsupported = acc_unsupported acc\<rparr>)
     | Some _ \<Rightarrow> Inl (Validation_error ''subscriptions'' ''heartbeat subscriptions must be an array'')) = Inr hb"
    unfolding parse_heartbeat_body_def res_bind_Inr_iff [of "invalid_as _ _"] by blast
  then obtain v where v: "json_find body ''subscriptions'' = Some v" by (cases "json_find body ''subscriptions''") auto
  with * show ?thesis by (cases v) (fastforce simp: res_bind_Inr_iff)+
qed

definition sample_entry :: "string \<Rightarrow> string \<Rightarrow> json list \<Rightarrow> json" where
  "sample_entry k n is = JObject ([(''kind'', JString k), (''name'', JString n)]
     @ map (\<lambda>i. (''delivery_preferences'', JObject [(''interval_ms'', i)])) is)"

definition sample_heartbeat :: json where
  "sample_heartbeat = JObject [(''subscriptions'', JArray
     [sample_entry ''topic'' ''/a'' [JInt 90], sample_entry ''other_video'' ''cam'' [],
      sample_entry ''laser'' ''x'' [], sample_entry '' topic '' ''/a'' [JInt 40], sample_entry ''laser'' ''x'' []])]"

theorem heartbeat_coalesces_witness:
  "parse_heartbeat_body (\<lambda>n p q s. Inr n) sample_heartbeat =
     Inr \<lparr>session_id = None,
          demands = [\<lparr>demand_kind = Topic, demand_name = ''/a'', preferred_interval_ms = Some 40\<rparr>,
                     \<lparr>demand_kind = OtherVideo, demand_name = ''cam'', preferred_interval_ms = None\<rparr>],
          unsupported = [\<lparr>unsup_kind = ''laser'', unsup_name = Some ''x''\<rparr>]\<rparr>"
proof -
  let ?es = "[sample_entry ''topic'' ''/a'' [JInt 90], sample_entry ''other_video'' ''cam'' [],
      sample_entry ''laser'' ''x'' [], sample_entry '' topic '' ''/a'' [JInt 40], sample_entry ''laser'' ''x'' []]"
  have "optionalString sample_heartbeat ''session_id'' ''heartbeat session_id must be a string'' True = Inr None"
    by code_simp
  moreover have "json_find sample_heartbeat ''subscriptions'' = Some (JArray ?es)"
    by (simp add: sample_heartbeat_def)
  ultimately have "parse_heartbeat_body (\<lambda>n p q s. Inr n) sample_heartbeat =
      res_bind (parse_each (\<lambda>n p q s. Inr n) ?es) (\<lambda>ts.
        Inr \<lparr>session_id = None, demands = coalesce (demands_of ts), unsupported = first_seen (unsupported_of ts)\<rparr>)"
    by (rule heartbeat_coalesces)
  also have "\<dots> = Inr \<lparr>session_id = None,
          demands = [\<lparr>demand_kind = Topic, demand_name = ''/a'', preferred_interval_ms = Some 40\<rparr>,
                     \<lparr>demand_kind = OtherVideo, demand_name = ''cam'', preferred_interval_ms = None\<rparr>],
          unsupported = [\<lparr>unsup_kind = ''laser'', unsup_name = Some ''x''\<rparr>]\<rparr>"
    by code_simp
  finally show ?thesis .
qed

end
