(* ===== verification/Base64.thy ===== *)
theory Base64
  imports Bridge_Prelude
begin

text \<open>
  Strict RFC 4648 base64 (src/src/protocol/detail/base64.cpp). The block transforms
  \<open>EVP_EncodeBlock\<close> and \<open>EVP_DecodeBlock\<close> are OpenSSL code: they are parameters here, with
  their documented quantum-by-quantum behaviour as hypotheses, and \<open>rfc_encode\<close> and
  \<open>rfc_decode\<close> as the behaviour the documentation describes.
\<close>

unbundle bit_operations_syntax

section \<open>The code\<close>

datatype b64_status = B64_Ok | B64_MissingPadding | B64_InvalidEncoding

record b64_result =
  b64_bytes :: bytes
  b64_status :: b64_status

definition decodeSextet :: "char \<Rightarrow> int" where
  "decodeSextet c =
     (let x = of_char c :: int in
      if 65 \<le> x \<and> x \<le> 90 then x - 65
      else if 97 \<le> x \<and> x \<le> 122 then 26 + (x - 97)
      else if 48 \<le> x \<and> x \<le> 57 then 52 + (x - 48)
      else if c = CHR ''+'' then 62
      else if c = CHR ''/'' then 63
      else - 1)"

text \<open>\<open>static_cast<int>(size)\<close>, and the two library calls: the text written by the encoder, and
  the bytes written by the decoder (\<open>None\<close> is its error return \<open>-1\<close>).\<close>

definition int_of_size :: "nat \<Rightarrow> int" where
  "int_of_size n = sint (word_of_nat n :: 32 word)"

type_synonym evp_encode_block = "bytes \<Rightarrow> int \<Rightarrow> string"
type_synonym evp_decode_block = "string \<Rightarrow> int \<Rightarrow> bytes option"

definition base64_encode :: "evp_encode_block \<Rightarrow> bytes \<Rightarrow> string" where
  "base64_encode evp bs = (if length bs = 0 then [] else evp bs (int_of_size (length bs)))"

text \<open>The validation loop: counts the padding, \<open>None\<close> is the early \<open>InvalidEncoding\<close> return.\<close>

fun scan_padding :: "string \<Rightarrow> nat \<Rightarrow> nat option" where
  "scan_padding [] padding = Some padding"
| "scan_padding (c # cs) padding =
     (if c = CHR ''='' then scan_padding cs (padding + 1)
      else if padding \<noteq> 0 \<or> decodeSextet c < 0 then None
      else scan_padding cs padding)"

text \<open>
  \<open>bytes.resize(written - padding)\<close>: a failed block decode makes the unsigned size wrap to an
  impossible one, and \<open>resize\<close> throws \<open>std::length_error\<close>.
\<close>

definition base64_decode :: "evp_decode_block \<Rightarrow> string \<Rightarrow> b64_result res" where
  "base64_decode evp text =
     (if text = [] then Inr \<lparr>b64_bytes = [], b64_status = B64_Ok\<rparr>
      else (let size = length text in
        case scan_padding text 0 of
          None \<Rightarrow> Inr \<lparr>b64_bytes = [], b64_status = B64_InvalidEncoding\<rparr>
        | Some padding \<Rightarrow>
            if padding > 2 \<or> (padding \<noteq> 0 \<and> size = 1) then
              Inr \<lparr>b64_bytes = [], b64_status = B64_InvalidEncoding\<rparr>
            else if size mod 4 \<noteq> 0 then Inr \<lparr>b64_bytes = [], b64_status = B64_MissingPadding\<rparr>
            else if padding \<noteq> 0
                 \<and> (decodeSextet (text ! (size - (padding + 1))) AND (if padding = 2 then 0x0F else 0x03)) \<noteq> 0 then
              Inr \<lparr>b64_bytes = [], b64_status = B64_InvalidEncoding\<rparr>
            else (case evp text (int_of_size size) of
                    None \<Rightarrow> Inl (Logic_error ''vector::_M_default_append'')
                  | Some bs \<Rightarrow> Inr \<lparr>b64_bytes = take (length bs - padding) bs, b64_status = B64_Ok\<rparr>)))"

section \<open>The documented block transforms\<close>

definition alphabet :: string where
  "alphabet = ''ABCDEFGHIJKLMNOPQRSTUVWXYZabcdefghijklmnopqrstuvwxyz0123456789+/''"

definition alpha :: "nat \<Rightarrow> char" where
  "alpha n = alphabet ! n"

fun rfc_encode :: "bytes \<Rightarrow> string" where
  "rfc_encode [] = []"
| "rfc_encode [a] = (let n = unat a * 256 * 256 in
     [alpha (n div 64 div 64 div 64), alpha (n div 64 div 64 mod 64), CHR ''='', CHR ''=''])"
| "rfc_encode [a, b] = (let n = (unat a * 256 + unat b) * 256 in
     [alpha (n div 64 div 64 div 64), alpha (n div 64 div 64 mod 64), alpha (n div 64 mod 64), CHR ''=''])"
| "rfc_encode (a # b # c # bs) = (let n = (unat a * 256 + unat b) * 256 + unat c in
     [alpha (n div 64 div 64 div 64), alpha (n div 64 div 64 mod 64), alpha (n div 64 mod 64), alpha (n mod 64)] @ rfc_encode bs)"

definition in_alphabet :: "char \<Rightarrow> bool" where
  "in_alphabet c \<longleftrightarrow> 0 \<le> decodeSextet c"

text \<open>The decoder reads padding as zero bits and always yields three bytes per quantum.\<close>

definition sextet :: "char \<Rightarrow> nat" where
  "sextet c = (if c = CHR ''='' then 0 else nat (decodeSextet c))"

definition quantum :: "char \<Rightarrow> char \<Rightarrow> char \<Rightarrow> char \<Rightarrow> nat" where
  "quantum c1 c2 c3 c4 = ((sextet c1 * 64 + sextet c2) * 64 + sextet c3) * 64 + sextet c4"

fun rfc_decode :: "string \<Rightarrow> bytes" where
  "rfc_decode (c1 # c2 # c3 # c4 # cs) = (let n = quantum c1 c2 c3 c4 in
     [word_of_nat (n div 256 div 256), word_of_nat (n div 256 mod 256), word_of_nat (n mod 256)] @ rfc_decode cs)"
| "rfc_decode _ = []"

definition evp_encode_spec :: "evp_encode_block \<Rightarrow> bool" where
  "evp_encode_spec evp \<longleftrightarrow> (\<forall>bs. length bs < 2 ^ 31 \<longrightarrow> evp bs (int (length bs)) = rfc_encode bs)"

definition evp_decode_spec :: "evp_decode_block \<Rightarrow> bool" where
  "evp_decode_spec evp \<longleftrightarrow>
     (\<forall>t. length t < 2 ^ 31 \<longrightarrow> length t mod 4 = 0 \<longrightarrow> (\<forall>c \<in> set t. in_alphabet c \<or> c = CHR ''='') \<longrightarrow>
        evp t (int (length t)) = Some (rfc_decode t))"

section \<open>Alphabet\<close>

lemma alpha_list: "list_all (\<lambda>n. decodeSextet (alpha n) = int n \<and> alpha n \<noteq> CHR ''='') [0..<64]"
  by code_simp

lemma alpha_sextet:
  assumes "n < 64"
  shows "decodeSextet (alpha n) = int n" "alpha n \<noteq> CHR ''=''" "in_alphabet (alpha n)" "sextet (alpha n) = n"
proof -
  have "n \<in> set [0..<64]" using assms by simp
  then show *: "decodeSextet (alpha n) = int n" "alpha n \<noteq> CHR ''=''"
    using alpha_list unfolding list_all_iff by blast+
  then show "in_alphabet (alpha n)" "sextet (alpha n) = n" by (simp_all add: in_alphabet_def sextet_def)
qed

lemma alpha_code_list:
  "list_all (\<lambda>n. (of_char (alpha n) :: int) = (if n < 26 then int n + 65 else if n < 52 then int n + 71
     else if n < 62 then int n - 4 else if n = 62 then 43 else 47)) [0..<64]"
  by code_simp

lemma alpha_code:
  assumes "n < 64"
  shows "(of_char (alpha n) :: int) = (if n < 26 then int n + 65 else if n < 52 then int n + 71
     else if n < 62 then int n - 4 else if n = 62 then 43 else 47)"
proof -
  have "n \<in> set [0..<64]" using assms by simp
  then show ?thesis using alpha_code_list unfolding list_all_iff by blast
qed

lemma decodeSextet_range: "decodeSextet c < 64"
  by (simp add: decodeSextet_def Let_def)

lemma sextet_alpha:
  assumes "in_alphabet c"
  shows "alpha (sextet c) = c" "sextet c < 64" "c \<noteq> CHR ''=''"
proof -
  show eq: "c \<noteq> CHR ''=''" using assms by (auto simp: in_alphabet_def decodeSextet_def)
  with assms decodeSextet_range [of c] show lt: "sextet c < 64"
    by (auto simp: sextet_def in_alphabet_def)
  have "(of_char (alpha (sextet c)) :: int) = of_char c"
    using assms eq unfolding in_alphabet_def sextet_def decodeSextet_def Let_def
    by (auto simp: alpha_code nat_less_iff simp del: of_char_eq_iff split: if_splits)
  then show "alpha (sextet c) = c" by (simp only: of_char_eq_iff)
qed

section \<open>Quanta\<close>

lemma horner: "(r :: nat) < m \<Longrightarrow> (q * m + r) div m = q" "(r :: nat) < m \<Longrightarrow> (q * m + r) mod m = r"
  by simp_all

lemma top_digit: "(n :: nat) < 16777216 \<Longrightarrow> n div 64 div 64 div 64 < 64" "n < 16777216 \<Longrightarrow> n div 256 div 256 < 256"
  by (simp_all flip: div_mult2_eq add: less_mult_imp_div_less)

lemma byte_bound: "unat (a :: byte) < 256"
  using unsigned_less [of a, where ?'a = nat] by simp

lemma byte_of_nat: "n < 256 \<Longrightarrow> unat (word_of_nat n :: byte) = n"
  by (simp add: unat_of_nat)

text \<open>Four sextets and three bytes are two readings of the same 24 bits.\<close>

lemma quantum_alpha:
  assumes "n < 16777216"
  shows "quantum (alpha (n div 64 div 64 div 64)) (alpha (n div 64 div 64 mod 64)) (alpha (n div 64 mod 64)) (alpha (n mod 64)) = n"
  by (simp add: quantum_def alpha_sextet top_digit assms)

lemma digit_bound: "(q :: nat) < k \<Longrightarrow> r < m \<Longrightarrow> q * m + r < k * m"
proof -
  assume "q < k" "r < m"
  then have "q * m + r < Suc q * m" by simp
  also from \<open>q < k\<close> have "\<dots> \<le> k * m" by (intro mult_le_mono) simp_all
  finally show ?thesis .
qed

lemma triple_bound: "(unat (a :: byte) * 256 + unat (b :: byte)) * 256 + unat (c :: byte) < 16777216"
  using digit_bound [OF digit_bound [OF byte_bound [of a] byte_bound [of b]] byte_bound [of c]] by simp

lemma quantum_bound:
  "\<lbrakk>sextet c1 < 64; sextet c2 < 64; sextet c3 < 64; sextet c4 < 64\<rbrakk> \<Longrightarrow> quantum c1 c2 c3 c4 < 16777216"
  unfolding quantum_def
  using digit_bound [OF digit_bound [OF digit_bound [of "sextet c1" 64 "sextet c2" 64], of "sextet c3" 64], of "sextet c4" 64]
  by simp

section \<open>Round trips of the block transforms\<close>

lemma replicate_2: "replicate 2 x = [x, x]"
  by (simp add: numeral_2_eq_2)

lemma sextet_pad: "sextet (CHR ''='') = 0"
  by (simp add: sextet_def)

lemma quantum_pad1:
  "n < 16777216 \<Longrightarrow> n mod 64 = 0 \<Longrightarrow>
   quantum (alpha (n div 64 div 64 div 64)) (alpha (n div 64 div 64 mod 64)) (alpha (n div 64 mod 64)) (CHR ''='') = n"
  using quantum_alpha [of n] by (simp add: quantum_def sextet_pad alpha_sextet)

lemma quantum_pad2:
  "n < 16777216 \<Longrightarrow> n mod 64 = 0 \<Longrightarrow> n div 64 mod 64 = 0 \<Longrightarrow>
   quantum (alpha (n div 64 div 64 div 64)) (alpha (n div 64 div 64 mod 64)) (CHR ''='') (CHR ''='') = n"
  using quantum_alpha [of n] by (simp add: quantum_def sextet_pad alpha_sextet)

text \<open>The 24 bits of a (zero-filled) group, as an opaque number with its byte digits.\<close>

lemma word_unat_eq: "word_of_nat (unat a) = (a :: byte)"
  by simp

lemma group_bits:
  obtains n where "n = (unat (a :: byte) * 256 + unat (b :: byte)) * 256 + unat (c :: byte)" "n < 16777216"
    "word_of_nat (n div 256 div 256) = a" "word_of_nat (n div 256 mod 256) = b" "(word_of_nat (n mod 256) :: byte) = c"
proof
  show "(unat a * 256 + unat b) * 256 + unat c < 16777216" by (rule triple_bound)
qed (simp_all only: horner byte_bound word_unat_eq refl)

text \<open>The unused bits before the padding are zero.\<close>

definition zero_tail :: "string \<Rightarrow> nat \<Rightarrow> bool" where
  "zero_tail t p \<longleftrightarrow> p = 0 \<or> sextet (t ! (length t - (p + 1))) mod (if p = 2 then 16 else 4) = 0"

lemma zero_tail_append: "p < length t \<Longrightarrow> zero_tail (q @ t) p = zero_tail t p"
  by (auto simp: zero_tail_def nth_append)

lemma rfc_decode_encode:
  "\<exists>p u. rfc_encode bs = u @ replicate p (CHR ''='') \<and> (\<forall>c \<in> set u. in_alphabet c) \<and> p \<le> 2 \<and> zero_tail (rfc_encode bs) p
      \<and> length (rfc_encode bs) mod 4 = 0 \<and> length (rfc_encode bs) \<ge> length bs
      \<and> rfc_decode (rfc_encode bs) = bs @ replicate p 0"
proof (induction bs rule: rfc_encode.induct)
  case (2 a)
  obtain n where n: "n = (unat a * 256 + unat (0 :: byte)) * 256 + unat (0 :: byte)" "n < 16777216"
      "word_of_nat (n div 256 div 256) = a" "word_of_nat (n div 256 mod 256) = (0 :: byte)"
      "word_of_nat (n mod 256) = (0 :: byte)" by (rule group_bits)
  have "n = (unat a * 1024) * 64" "n = unat a * 16 * 64 * 64" using n(1) by simp_all
  then have z: "n mod 64 = 0" "n div 64 mod 64 = 0" and low: "n div 64 div 64 mod 64 mod 16 = 0"
    by (simp_all add: mod_mod_cancel)
  have "rfc_encode [a] = [alpha (n div 64 div 64 div 64), alpha (n div 64 div 64 mod 64), CHR ''='', CHR ''='']"
    using n(1) by (simp add: Let_def)
  with n(2-) quantum_pad2 [OF n(2) z] show ?case
    by (intro exI [of _ 2] exI [of _ "[alpha (n div 64 div 64 div 64), alpha (n div 64 div 64 mod 64)]"])
      (simp add: low zero_tail_def alpha_sextet top_digit Let_def replicate_2 del: rfc_encode.simps)
next
  case (3 a b)
  obtain n where n: "n = (unat a * 256 + unat b) * 256 + unat (0 :: byte)" "n < 16777216"
      "word_of_nat (n div 256 div 256) = a" "word_of_nat (n div 256 mod 256) = b"
      "word_of_nat (n mod 256) = (0 :: byte)" by (rule group_bits)
  have "n = ((unat a * 256 + unat b) * 4) * 64" using n(1) by simp
  then have z: "n mod 64 = 0" and low: "n div 64 mod 64 mod 4 = 0" by (simp_all add: mod_mod_cancel)
  have "rfc_encode [a, b] =
      [alpha (n div 64 div 64 div 64), alpha (n div 64 div 64 mod 64), alpha (n div 64 mod 64), CHR ''='']"
    using n(1) by (simp add: Let_def)
  with n(2-) quantum_pad1 [OF n(2) z] show ?case
    by (intro exI [of _ 1] exI [of _ "[alpha (n div 64 div 64 div 64), alpha (n div 64 div 64 mod 64), alpha (n div 64 mod 64)]"])
      (simp add: low zero_tail_def alpha_sextet top_digit Let_def del: rfc_encode.simps)
next
  case (4 a b c bs)
  obtain n where n: "n = (unat a * 256 + unat b) * 256 + unat c" "n < 16777216"
      "word_of_nat (n div 256 div 256) = a" "word_of_nat (n div 256 mod 256) = b"
      "word_of_nat (n mod 256) = c" by (rule group_bits)
  let ?q = "[alpha (n div 64 div 64 div 64), alpha (n div 64 div 64 mod 64), alpha (n div 64 mod 64), alpha (n mod 64)]"
  have "\<exists>p u. rfc_encode bs = u @ replicate p (CHR ''='') \<and> (\<forall>c \<in> set u. in_alphabet c) \<and> p \<le> 2 \<and> zero_tail (rfc_encode bs) p
      \<and> length (rfc_encode bs) mod 4 = 0 \<and> length (rfc_encode bs) \<ge> length bs
      \<and> rfc_decode (rfc_encode bs) = bs @ replicate p 0"
    using 4 by blast
  then obtain p u where pu: "rfc_encode bs = u @ replicate p (CHR ''='')" "\<forall>c \<in> set u. in_alphabet c" "p \<le> 2"
      and zt: "zero_tail (rfc_encode bs) p" and pl:
      "length (rfc_encode bs) mod 4 = 0" "length (rfc_encode bs) \<ge> length bs"
      "rfc_decode (rfc_encode bs) = bs @ replicate p 0" by (elim exE conjE) rule
  have enc: "rfc_encode (a # b # c # bs) = ?q @ rfc_encode bs"
    using n(1) by (simp only: rfc_encode.simps Let_def)
  have dec: "rfc_decode (?q @ rfc_encode bs) = a # b # c # rfc_decode (rfc_encode bs)"
    using quantum_alpha [OF n(2)] n(3-) by (simp add: Let_def)
  have al: "\<forall>c \<in> set ?q. in_alphabet c" using n(2) by (simp add: alpha_sextet top_digit)
  have len: "length (?q @ rfc_encode bs) = 4 + length (rfc_encode bs)" by simp
  have eq: "?q @ rfc_encode bs = (?q @ u) @ replicate p (CHR ''='')" using pu(1) by simp
  have al': "\<forall>c \<in> set (?q @ u). in_alphabet c" using al pu(2) by auto
  have zt': "zero_tail (?q @ rfc_encode bs) p"
  proof (cases "rfc_encode bs = []")
    case True
    then show ?thesis using pu(1) by (simp add: zero_tail_def)
  next
    case False
    with pl(1) have "3 \<le> length (rfc_encode bs)"
      by (cases "rfc_encode bs") (auto simp: mod_Suc split: if_splits)
    with pu(3) zt show ?thesis by (subst zero_tail_append) auto
  qed
  have "length (?q @ rfc_encode bs) mod 4 = 0" unfolding len using pl(1) by presburger
  then show ?case
    unfolding enc dec using eq al' zt' pu(3) pl(2,3) by (intro exI [of _ p] exI [of _ "?q @ u"] conjI) simp_all
qed (simp add: zero_tail_def)

lemma quantum_digits:
  assumes "sextet c1 < 64" "sextet c2 < 64" "sextet c3 < 64" "sextet c4 < 64"
  shows "quantum c1 c2 c3 c4 div 64 div 64 div 64 = sextet c1" "quantum c1 c2 c3 c4 div 64 div 64 mod 64 = sextet c2"
    "quantum c1 c2 c3 c4 div 64 mod 64 = sextet c3" "quantum c1 c2 c3 c4 mod 64 = sextet c4"
  unfolding quantum_def by (simp_all only: horner assms)

lemma group_recompose:
  assumes "n < 16777216"
  shows "(unat (word_of_nat (n div 256 div 256) :: byte) * 256 + unat (word_of_nat (n div 256 mod 256) :: byte)) * 256
           + unat (word_of_nat (n mod 256) :: byte) = n"
  using assms by (simp add: byte_of_nat top_digit)

lemma sextet_bound: "in_alphabet c \<or> c = CHR ''='' \<Longrightarrow> sextet c < 64"
  using sextet_alpha(2) by (auto simp: sextet_pad)

lemma encode_full_quad:
  assumes "in_alphabet c1" "in_alphabet c2" "in_alphabet c3" "in_alphabet c4" and n: "n = quantum c1 c2 c3 c4"
  shows "rfc_encode (word_of_nat (n div 256 div 256) # word_of_nat (n div 256 mod 256) # word_of_nat (n mod 256) # bs)
           = c1 # c2 # c3 # c4 # rfc_encode bs"
proof -
  note b = assms(1-4) [THEN sextet_alpha(2)]
  have "n < 16777216" unfolding n by (rule quantum_bound [OF b])
  from group_recompose [OF this] show ?thesis
    by (simp only: rfc_encode.simps Let_def) (simp add: n quantum_digits [OF b] sextet_alpha assms)
qed

lemma encode_pad1_quad:
  assumes "in_alphabet c1" "in_alphabet c2" "in_alphabet c3" and low: "sextet c3 mod 4 = 0"
    and n: "n = quantum c1 c2 c3 (CHR ''='')"
  shows "rfc_encode [word_of_nat (n div 256 div 256), word_of_nat (n div 256 mod 256)] = [c1, c2, c3, CHR ''='']"
proof -
  have b: "sextet c1 < 64" "sextet c2 < 64" "sextet c3 < 64" "sextet (CHR ''='') < 64"
    using assms by (simp_all add: sextet_bound)
  have lt: "n < 16777216" unfolding n by (rule quantum_bound [OF b])
  from low obtain j where "sextet c3 = 4 * j" by auto
  then have "n = ((sextet c1 * 64 + sextet c2) * 16 + j) * 256" by (simp add: n quantum_def sextet_pad)
  then have "n mod 256 = 0" by simp
  with group_recompose [OF lt]
  have "(unat (word_of_nat (n div 256 div 256) :: byte) * 256 + unat (word_of_nat (n div 256 mod 256) :: byte)) * 256 = n"
    by simp
  then show ?thesis
    by (simp only: rfc_encode.simps Let_def) (simp add: n quantum_digits [OF b] sextet_alpha assms)
qed

lemma encode_pad2_quad:
  assumes "in_alphabet c1" "in_alphabet c2" and low: "sextet c2 mod 16 = 0"
    and n: "n = quantum c1 c2 (CHR ''='') (CHR ''='')"
  shows "rfc_encode [word_of_nat (n div 256 div 256)] = [c1, c2, CHR ''='', CHR ''='']"
proof -
  have b: "sextet c1 < 64" "sextet c2 < 64" "sextet (CHR ''='') < 64" "sextet (CHR ''='') < 64"
    using assms by (simp_all add: sextet_bound)
  have lt: "n < 16777216" unfolding n by (rule quantum_bound [OF b])
  from low obtain j where "sextet c2 = 16 * j" by auto
  then have "n = (sextet c1 * 4 + j) * 256 * 256" by (simp add: n quantum_def sextet_pad)
  then have "n mod 256 = 0" "n div 256 mod 256 = 0" by simp_all
  with group_recompose [OF lt] have "unat (word_of_nat (n div 256 div 256) :: byte) * 256 * 256 = n"
    by simp
  then show ?thesis
    by (simp only: rfc_encode.simps Let_def) (simp add: n quantum_digits [OF b] sextet_alpha assms)
qed

lemma append_pad_Cons:
  assumes "x # xs = u @ replicate p c" "p \<le> length xs"
  obtains u' where "u = x # u'" "xs = u' @ replicate p c"
proof (cases u)
  case Nil
  with assms(1) have "Suc (length xs) = p" by (metis append_Nil length_Cons length_replicate)
  with assms(2) show ?thesis by simp
qed (use assms that in auto)

text \<open>A quantum followed by at least three more characters holds no padding.\<close>

lemma first_quad:
  assumes "c1 # c2 # c3 # c4 # cs = u @ replicate p c" "p \<le> 2" "3 \<le> length cs"
  obtains u' where "u = c1 # c2 # c3 # c4 # u'" "cs = u' @ replicate p c"
proof -
  have le: "p \<le> length cs" using assms by simp
  from assms(1) obtain u1 where 1: "u = c1 # u1" "c2 # c3 # c4 # cs = u1 @ replicate p c"
    by (rule append_pad_Cons) (use le in simp)
  from 1(2) obtain u2 where 2: "u1 = c2 # u2" "c3 # c4 # cs = u2 @ replicate p c"
    by (rule append_pad_Cons) (use le in simp)
  from 2(2) obtain u3 where 3: "u2 = c3 # u3" "c4 # cs = u3 @ replicate p c"
    by (rule append_pad_Cons) (use le in simp)
  from 3(2) obtain u4 where 4: "u3 = c4 # u4" "cs = u4 @ replicate p c"
    by (rule append_pad_Cons) (use le in simp)
  from 1(1) 2(1) 3(1) 4 that show ?thesis by simp
qed

lemma encode_decode_quad:
  assumes "[c1, c2, c3, c4] = u @ replicate p (CHR ''='')" "\<forall>c \<in> set u. in_alphabet c" "p \<le> 2"
    and zt: "zero_tail [c1, c2, c3, c4] p" and n: "n = quantum c1 c2 c3 c4"
  shows "rfc_encode (take (3 - p) [word_of_nat (n div 256 div 256), word_of_nat (n div 256 mod 256), word_of_nat (n mod 256)])
           = [c1, c2, c3, c4]"
proof -
  have "p = 0 \<or> p = 1 \<or> p = 2" using assms by auto
  then show ?thesis
  proof (elim disjE)
    assume p: "p = 0"
    with assms have "in_alphabet c1" "in_alphabet c2" "in_alphabet c3" "in_alphabet c4" by auto
    with p encode_full_quad [OF this n, of "[]"] show ?thesis by (simp del: rfc_encode.simps(4))
  next
    assume p: "p = 1"
    with assms have u: "u = [c1, c2, c3]" "c4 = CHR ''=''" by (auto simp: append_eq_Cons_conv)
    with assms p encode_pad1_quad [of c1 c2 c3 n] show ?thesis
      by (simp add: zero_tail_def del: rfc_encode.simps)
  next
    assume p: "p = 2"
    with assms have u: "u = [c1, c2]" "c4 = CHR ''=''" "c3 = CHR ''=''"
      by (auto simp: append_eq_Cons_conv numeral_2_eq_2)
    with assms p encode_pad2_quad [of c1 c2 n] show ?thesis
      by (simp add: zero_tail_def del: rfc_encode.simps)
  qed
qed

lemma rfc_encode_decode:
  assumes "t = u @ replicate p (CHR ''='')" "\<forall>c \<in> set u. in_alphabet c" "p \<le> 2" "length t mod 4 = 0" "t \<noteq> []" "zero_tail t p"
  shows "rfc_encode (take (length (rfc_decode t) - p) (rfc_decode t)) = t \<and> 3 \<le> length (rfc_decode t)"
  using assms
proof (induction t arbitrary: u rule: rfc_decode.induct)
  case (1 c1 c2 c3 c4 cs)
  define n where "n = quantum c1 c2 c3 c4"
  let ?b = "[word_of_nat (n div 256 div 256), word_of_nat (n div 256 mod 256), word_of_nat (n mod 256)] :: bytes"
  have dec: "rfc_decode (c1 # c2 # c3 # c4 # cs) = ?b @ rfc_decode cs" by (simp add: n_def Let_def)
  show ?case
  proof (cases "cs = []")
    case True
    have "rfc_encode (take (3 - p) ?b) = [c1, c2, c3, c4]"
      using "1.prems" True by (intro encode_decode_quad [of _ _ _ _ u]) (simp_all add: n_def)
    with True show ?thesis unfolding dec by (simp del: rfc_encode.simps take_Cons_numeral flip: numeral_3_eq_3)
  next
    case False
    have m4: "length cs mod 4 = 0" using "1.prems"(4) by (simp add: mod_Suc split: if_splits)
    with False have len: "3 \<le> length cs" by (cases cs) (auto simp: mod_Suc split: if_splits)
    obtain u' where u': "u = c1 # c2 # c3 # c4 # u'" "cs = u' @ replicate p (CHR ''='')"
      using first_quad [OF "1.prems"(1,3) len] .
    have "zero_tail cs p" using "1.prems"(3,6) len by (auto simp: zero_tail_def nth_Cons' split: if_splits)
    with "1.IH" [OF refl _ _ "1.prems"(3) m4 False] u' "1.prems"(2)
    have ih: "rfc_encode (take (length (rfc_decode cs) - p) (rfc_decode cs)) = cs" "3 \<le> length (rfc_decode cs)" by auto
    have "take (length (?b @ rfc_decode cs) - p) (?b @ rfc_decode cs) = ?b @ take (length (rfc_decode cs) - p) (rfc_decode cs)"
      using ih(2) "1.prems"(3) by (simp add: Suc_diff_le)
    moreover have "rfc_encode (?b @ bs) = c1 # c2 # c3 # c4 # rfc_encode bs" for bs
      using encode_full_quad [of c1 c2 c3 c4 n bs] "1.prems"(2) u'(1) n_def
      by (simp del: rfc_encode.simps)
    ultimately show ?thesis unfolding dec using ih by (simp del: rfc_encode.simps)
  qed
next
  case "2_1" then show ?case by blast
next
  case "2_2" from "2_2.prems"(4) have False by simp then show ?case ..
next
  case "2_3" from "2_3.prems"(4) have False by simp then show ?case ..
next
  case "2_4" from "2_4.prems"(4) have False by simp then show ?case ..
qed

section \<open>Validation\<close>

lemma scan_padding_count: "scan_padding t (Suc k) = Some p \<longleftrightarrow> (\<exists>j. t = replicate j (CHR ''='') \<and> p = Suc k + j)"
  by (induction t arbitrary: k) (auto simp: Cons_replicate_eq)

lemma scan_padding_iff:
  "scan_padding t 0 = Some p \<longleftrightarrow> (\<exists>u. t = u @ replicate p (CHR ''='') \<and> (\<forall>c \<in> set u. in_alphabet c))"
proof (induction t)
  case (Cons c cs)
  show ?case
  proof (cases "c = CHR ''=''")
    case True
    have "(\<exists>u. CHR ''='' # cs = u @ replicate p (CHR ''='') \<and> (\<forall>c \<in> set u. in_alphabet c))
        \<longleftrightarrow> CHR ''='' # cs = replicate p (CHR ''='')"
      (is "?l \<longleftrightarrow> ?r")
    proof
      assume ?l
      then obtain u where u: "CHR ''='' # cs = u @ replicate p (CHR ''='')" "\<forall>c \<in> set u. in_alphabet c" by blast
      then show ?r using sextet_alpha(3) by (cases u) auto
    qed (metis append_Nil empty_iff empty_set)
    with True show ?thesis
      by (cases p) (auto simp: scan_padding_count)
  next
    case False
    have "(\<exists>u. c # cs = u @ replicate p (CHR ''='') \<and> (\<forall>c \<in> set u. in_alphabet c))
        \<longleftrightarrow> in_alphabet c \<and> (\<exists>u. cs = u @ replicate p (CHR ''='') \<and> (\<forall>c \<in> set u. in_alphabet c))"
      (is "?l \<longleftrightarrow> ?r")
    proof
      assume ?l
      then obtain u where u: "c # cs = u @ replicate p (CHR ''='')" "\<forall>c \<in> set u. in_alphabet c" by blast
      then show ?r using False by (cases u; cases p) auto
    next
      assume ?r
      then obtain u where u: "in_alphabet c" "cs = u @ replicate p (CHR ''='')" "\<forall>c \<in> set u. in_alphabet c" by blast
      then show ?l by (intro exI [of _ "c # u"]) auto
    qed
    with False Cons show ?thesis by (auto simp: in_alphabet_def)
  qed
qed auto

lemma sextet_mask:
  assumes "in_alphabet c"
  shows "(decodeSextet c AND 15) = 0 \<longleftrightarrow> sextet c mod 16 = 0" "(decodeSextet c AND 3) = 0 \<longleftrightarrow> sextet c mod 4 = 0"
proof -
  have d: "decodeSextet c = int (sextet c)"
    using assms sextet_alpha(3) [OF assms] by (simp add: sextet_def in_alphabet_def)
  have "decodeSextet c AND mask 4 = decodeSextet c mod 2 ^ 4" "decodeSextet c AND mask 2 = decodeSextet c mod 2 ^ 2"
    by (simp_all only: take_bit_eq_mask [symmetric] take_bit_eq_mod)
  then show "(decodeSextet c AND 15) = 0 \<longleftrightarrow> sextet c mod 16 = 0" "(decodeSextet c AND 3) = 0 \<longleftrightarrow> sextet c mod 4 = 0"
    unfolding d by (simp_all add: mask_eq_exp_minus_1) presburger+
qed

definition well_formed :: "string \<Rightarrow> nat \<Rightarrow> bool" where
  "well_formed t p \<longleftrightarrow> (\<exists>u. t = u @ replicate p (CHR ''='') \<and> (\<forall>c \<in> set u. in_alphabet c))
     \<and> p \<le> 2 \<and> length t mod 4 = 0 \<and> zero_tail t p"

lemma last_before_padding:
  assumes "scan_padding t 0 = Some p" "p \<le> 2" "length t mod 4 = 0" "t \<noteq> []"
  shows "in_alphabet (t ! (length t - (p + 1)))"
proof -
  obtain u where u: "t = u @ replicate p (CHR ''='')" "\<forall>c \<in> set u. in_alphabet c"
    using assms(1) by (auto simp: scan_padding_iff)
  have "length t \<ge> 3" using assms(3,4) by (cases t) (auto simp: mod_Suc split: if_splits)
  then have "u \<noteq> []" using u(1) assms(2) by auto
  then have "t ! (length t - (p + 1)) \<in> set u" using u(1) by (auto simp: nth_append)
  with u(2) show ?thesis by blast
qed

lemma tail_check_iff:
  assumes "scan_padding t 0 = Some p" "p \<le> 2" "length t mod 4 = 0" "t \<noteq> []"
  shows "(p \<noteq> 0 \<and> (decodeSextet (t ! (length t - (p + 1))) AND (if p = 2 then 15 else 3)) \<noteq> 0) \<longleftrightarrow> \<not> zero_tail t p"
  using sextet_mask [OF last_before_padding [OF assms]] by (auto simp: zero_tail_def)

lemma int_of_size_small: "n < 2 ^ 31 \<Longrightarrow> int_of_size n = int n"
  unfolding int_of_size_def by (simp add: signed_of_nat signed_take_bit_int_eq_self)

lemma base64_decode_cases:
  assumes "t \<noteq> []" "length t < 2 ^ 31" "evp_decode_spec evp"
  shows "(\<exists>p. well_formed t p \<and> base64_decode evp t =
            Inr \<lparr>b64_bytes = take (length (rfc_decode t) - p) (rfc_decode t), b64_status = B64_Ok\<rparr>)
       \<or> (\<nexists>p. well_formed t p) \<and> (\<exists>s. s \<noteq> B64_Ok \<and> base64_decode evp t = Inr \<lparr>b64_bytes = [], b64_status = s\<rparr>)"
proof (cases "scan_padding t 0")
  case None
  then have "\<nexists>p. well_formed t p" using scan_padding_iff [of t] by (auto simp: well_formed_def)
  with None assms show ?thesis by (auto simp: base64_decode_def)
next
  case (Some p)
  have wf: "well_formed t q \<longleftrightarrow> q = p \<and> p \<le> 2 \<and> length t mod 4 = 0 \<and> zero_tail t p" for q
    using Some scan_padding_iff [of t q] unfolding well_formed_def by auto
  have one: "length t = 1 \<Longrightarrow> length t mod 4 \<noteq> 0" by simp
  show ?thesis
  proof (cases "p \<le> 2 \<and> length t mod 4 = 0")
    case False
    then show ?thesis using Some assms wf by (auto simp: base64_decode_def Let_def)
  next
    case True
    note check = tail_check_iff [OF Some _ _ assms(1)]
    obtain u where "t = u @ replicate p (CHR ''='')" "\<forall>c \<in> set u. in_alphabet c"
      using Some by (auto simp: scan_padding_iff)
    then have "\<forall>c \<in> set t. in_alphabet c \<or> c = CHR ''=''" by auto
    then have "evp t (int_of_size (length t)) = Some (rfc_decode t)"
      using assms True by (simp add: int_of_size_small evp_decode_spec_def)
    moreover have "length t \<noteq> 1" using True one by auto
    ultimately show ?thesis
      using True Some assms wf check by (cases "zero_tail t p") (auto simp: base64_decode_def Let_def)
  qed
qed

lemma base64_encode_eq:
  "evp_encode_spec evp \<Longrightarrow> length bs < 2 ^ 31 \<Longrightarrow> base64_encode evp bs = rfc_encode bs"
  by (simp add: base64_encode_def evp_encode_spec_def int_of_size_small)

lemma rfc_encode_Nil_iff: "rfc_encode bs = [] \<longleftrightarrow> bs = []"
  by (cases bs rule: rfc_encode.cases) (simp_all add: Let_def)

lemma well_formed_encode:
  "bs \<noteq> [] \<Longrightarrow> \<exists>p. well_formed (rfc_encode bs) p \<and> take (length (rfc_decode (rfc_encode bs)) - p) (rfc_decode (rfc_encode bs)) = bs"
  using rfc_decode_encode [of bs] unfolding well_formed_def by force

lemma base64_canonical:
  assumes enc: "evp_encode_spec enc" and dec: "evp_decode_spec dec"
    and len: "length t < 2 ^ 31" "length bs < 2 ^ 31"
  shows "(\<exists>r. base64_decode dec t = Inr r)
       \<and> (base64_decode dec t = Inr \<lparr>b64_bytes = bs, b64_status = B64_Ok\<rparr> \<longleftrightarrow> t = base64_encode enc bs)"
proof (cases "t = []")
  case True
  then show ?thesis using base64_encode_eq [OF enc len(2)] rfc_encode_Nil_iff [of bs] by (auto simp: base64_decode_def)
next
  case False
  have inv: "rfc_encode (take (length (rfc_decode t) - p) (rfc_decode t)) = t" if "well_formed t p" for p
    using that rfc_encode_decode [OF _ _ _ _ False] by (auto simp: well_formed_def)
  have fwd: "well_formed t p \<and> take (length (rfc_decode t) - p) (rfc_decode t) = bs"
    if "t = rfc_encode bs" "well_formed t q" "p = q" for p q
  proof -
    obtain p' where p': "well_formed t p'" "take (length (rfc_decode t) - p') (rfc_decode t) = bs"
      using well_formed_encode [of bs] rfc_encode_Nil_iff [of bs] \<open>t = rfc_encode bs\<close> False by metis
    moreover have "p' = q"
      using p'(1) that(2) scan_padding_iff [of t p'] scan_padding_iff [of t q] by (auto simp: well_formed_def)
    ultimately show ?thesis using that by simp
  qed
  have ex: "\<exists>p. well_formed t p" if "t = rfc_encode bs"
    using well_formed_encode [of bs] rfc_encode_Nil_iff [of bs] that False by metis
  from base64_decode_cases [OF False len(1) dec] show ?thesis
    unfolding base64_encode_eq [OF enc len(2)]
  proof (elim disjE exE conjE)
    fix p assume wf: "well_formed t p"
      and ok: "base64_decode dec t = Inr \<lparr>b64_bytes = take (length (rfc_decode t) - p) (rfc_decode t), b64_status = B64_Ok\<rparr>"
    have "take (length (rfc_decode t) - p) (rfc_decode t) = bs \<longleftrightarrow> t = rfc_encode bs"
      using inv [OF wf] fwd [OF _ wf refl] by metis
    with ok show "(\<exists>r. base64_decode dec t = Inr r)
        \<and> (base64_decode dec t = Inr \<lparr>b64_bytes = bs, b64_status = B64_Ok\<rparr> \<longleftrightarrow> t = rfc_encode bs)" by simp
  next
    fix s assume "\<nexists>p. well_formed t p" "s \<noteq> B64_Ok" "base64_decode dec t = Inr \<lparr>b64_bytes = [], b64_status = s\<rparr>"
    with ex show "(\<exists>r. base64_decode dec t = Inr r)
        \<and> (base64_decode dec t = Inr \<lparr>b64_bytes = bs, b64_status = B64_Ok\<rparr> \<longleftrightarrow> t = rfc_encode bs)" by auto
  qed
qed

text \<open>
  C24: base64 decoding accepts exactly the canonical encodings. Whatever the text, decoding
  returns without throwing, and it reports \<open>Ok\<close> with some bytes exactly when the text is what
  the encoder produces for these bytes: no text with misplaced padding, foreign characters or
  stray low bits is accepted, and every encoded buffer is read back unchanged.
\<close>

theorem base64_decode_exact:
  assumes enc: "evp_encode_spec enc" and dec: "evp_decode_spec dec"
    and len: "length t < 2 ^ 31" "length bs < 2 ^ 31"
  shows "(\<exists>r. base64_decode dec t = Inr r)
       \<and> (base64_decode dec t = Inr \<lparr>b64_bytes = bs, b64_status = B64_Ok\<rparr> \<longleftrightarrow> t = base64_encode enc bs)"
  using assms by (rule base64_canonical)

text \<open>The documented behaviour is realizable: the reference transforms satisfy it.\<close>

definition rfc_encode_block :: evp_encode_block where
  "rfc_encode_block bs n = rfc_encode (take (nat n) bs)"

definition rfc_decode_block :: evp_decode_block where
  "rfc_decode_block t n = Some (rfc_decode (take (nat n) t))"

lemma rfc_blocks_spec: "evp_encode_spec rfc_encode_block" "evp_decode_spec rfc_decode_block"
  by (simp_all add: evp_encode_spec_def evp_decode_spec_def rfc_encode_block_def rfc_decode_block_def)

theorem base64_decode_exact_witness:
  "base64_decode rfc_decode_block ''aGk='' = Inr \<lparr>b64_bytes = [104, 105], b64_status = B64_Ok\<rparr>"
proof -
  have "''aGk='' = base64_encode rfc_encode_block [104, 105]"
    by (simp add: base64_encode_def rfc_encode_block_def int_of_size_def Let_def alpha_def alphabet_def)
  moreover have "length ''aGk='' < 2 ^ 31" "length [104, 105 :: byte] < 2 ^ 31" by simp_all
  ultimately show ?thesis
    using base64_decode_exact [OF rfc_blocks_spec, of "''aGk=''" "[104, 105]"]
    by blast
qed

end
