(* ===== verification/Protocol_Requests.thy ===== *)
theory Protocol_Requests
  imports Base64 Protocol_Subscriptions
begin

text \<open>
  The request and response codecs of the RPC methods and of the publish byte stream:
  CDR envelopes (src/src/protocol/cdr.cpp), service calls (services_json.cpp), topic publish
  (topic_publish_json.cpp), echo-once (echo_once_json.cpp), interface definitions
  (interfaces_json.cpp) and resource listings (resources_json.cpp). Responses are modelled up
  to the JSON value that is dumped.
\<close>

section \<open>CDR envelopes\<close>

datatype cdr_field = MessageField | RequestField

fun cdr_field_name :: "cdr_field \<Rightarrow> string" where
  "cdr_field_name MessageField = ''message''"
| "cdr_field_name RequestField = ''request''"

definition decode_payload :: "evp_decode_block \<Rightarrow> string \<Rightarrow> bytes res" where
  "decode_payload evp encoded =
     res_bind (base64_decode evp encoded) (\<lambda>r.
       case b64_status r of
         B64_Ok \<Rightarrow> Inr (b64_bytes r)
       | B64_MissingPadding \<Rightarrow> Inl (Invalid_argument ''payload_base64 must be padded standard base64.'')
       | B64_InvalidEncoding \<Rightarrow> Inl (Invalid_argument ''payload_base64 is not valid base64.''))"

definition cdr_parse :: "evp_decode_block \<Rightarrow> json \<Rightarrow> cdr_field \<Rightarrow> bytes res" where
  "cdr_parse evp body field =
     (let field_name = cdr_field_name field in
      case json_find body field_name of
        Some (JObject kvs) \<Rightarrow>
          (let envelope = JObject kvs in
           case json_find envelope ''content_type'' of
             Some (JString ct) \<Rightarrow>
               if ct \<noteq> kCdrContentType then
                 Inl (Invalid_argument (field_name @ ''.content_type must be application/x-ros-cdr.''))
               else (case json_find envelope ''payload_base64'' of
                 Some (JString encoded) \<Rightarrow>
                   decode_payload evp encoded
               | _ \<Rightarrow> Inl (Invalid_argument ''payload_base64 must be a string.''))
           | _ \<Rightarrow> Inl (Invalid_argument ''content_type must be a string.''))
      | _ \<Rightarrow> Inl (Invalid_argument (field_name @ '' must be an object.'')))"

definition cdr_serialize :: "evp_encode_block \<Rightarrow> bytes \<Rightarrow> json" where
  "cdr_serialize evp bs =
     JObject [(''content_type'', JString kCdrContentType), (''payload_base64'', JString (base64_encode evp bs))]"

section \<open>Service calls\<close>

record service_call_request =
  sreq_name :: string
  sreq_type :: string
  sreq_payload :: bytes
  sreq_timeout :: "int option"  \<comment> \<open>milliseconds\<close>

record service_call_response =
  sres_name :: string
  sres_type :: string
  sres_payload :: bytes

definition value_or_empty :: "string option \<Rightarrow> string" where
  "value_or_empty s = (case s of None \<Rightarrow> [] | Some t \<Rightarrow> t)"

definition expand_or_throw :: "expander \<Rightarrow> string \<Rightarrow> bool \<Rightarrow> string res" where
  "expand_or_throw expand name is_service =
     (case expand name ''livekit_ros2_bridge'' ''/'' is_service of Inl e \<Rightarrow> Inl (expand_exn e) | Inr n \<Rightarrow> Inr n)"

definition services_parse_body :: "expander \<Rightarrow> evp_decode_block \<Rightarrow> json \<Rightarrow> service_call_request res" where
  "services_parse_body expand evp body =
     res_bind (invalid_as ''service''
       (res_bind (requiredString body ''service'' ''service is required'' None) (\<lambda>n. expand_or_throw expand n True))) (\<lambda>name.
     res_bind (invalid_as ''interface_type''
       (res_bind (optionalString body ''interface_type'' ''interface_type must be a string'' False)
          (\<lambda>t. Inr (value_or_empty t)))) (\<lambda>itype.
     res_bind (invalid_as ''request''
       (res_bind (cdr_parse evp body RequestField)
          (\<lambda>p. if length p = 0 then Inl (Invalid_argument ''request.payload_base64 must not be empty'') else Inr p))) (\<lambda>payload.
     case json_find body ''timeout_ms'' of
       None \<Rightarrow> Inr \<lparr>sreq_name = name, sreq_type = itype, sreq_payload = payload, sreq_timeout = None\<rparr>
     | Some t \<Rightarrow>
         if \<not> is_number_integer t then Inl (Validation_error ''timeout_ms'' ''timeout_ms must be an integer'')
         else Inr \<lparr>sreq_name = name, sreq_type = itype, sreq_payload = payload,
                   sreq_timeout = Some (get_int64 t)\<rparr>)))"

definition services_parse :: "string json_parser \<Rightarrow> expander \<Rightarrow> evp_decode_block \<Rightarrow> string \<Rightarrow> service_call_request res" where
  "services_parse parse expand evp payload =
     res_bind (invalid_as ''payload'' (parseObject parse payload ''Invalid JSON in service call request''
                 ''Service call request must be a JSON object''))
       (services_parse_body expand evp)"

definition services_serialize :: "evp_encode_block \<Rightarrow> service_call_response \<Rightarrow> json" where
  "services_serialize evp r = JObject
     [(''service'', JString (sres_name r)), (''interface_type'', JString (sres_type r)),
      (''response'', cdr_serialize evp (sres_payload r))]"

section \<open>Topic publish\<close>

record publish_request =
  ros_topic :: string
  preq_type :: string
  preq_message :: bytes

definition topic_publish_parse_body :: "evp_decode_block \<Rightarrow> json \<Rightarrow> publish_request res" where
  "topic_publish_parse_body evp body =
     res_bind (invalid_as ''topic'' (requiredString body ''topic'' ''Publish request requires a string 'topic' field.''
                 (Some ''Publish request requires a non-empty 'topic' field.''))) (\<lambda>topic.
     res_bind (invalid_as ''interface_type'' (requiredString body ''interface_type''
                 ''Publish request requires a non-empty 'interface_type' field.'' None)) (\<lambda>itype.
     res_bind (invalid_as ''message'' (cdr_parse evp body MessageField)) (\<lambda>msg.
       if length msg = 0 then
         Inl (Validation_error ''message'' ''Publish request requires a non-empty message.payload_base64 field.'')
       else Inr \<lparr>ros_topic = topic, preq_type = itype, preq_message = msg\<rparr>)))"

definition topic_publish_parse :: "bytes json_parser \<Rightarrow> evp_decode_block \<Rightarrow> bytes \<Rightarrow> publish_request res" where
  "topic_publish_parse parse evp payload =
     res_bind (invalid_as ''payload'' (parseObject parse payload ''Invalid JSON in publish request''
                 ''Publish request must be a JSON object''))
       (topic_publish_parse_body evp)"

section \<open>Echo once\<close>

record echo_once_request =
  echo_kind :: target_kind
  echo_name :: string

datatype echo_once_result = Sent | NoValue

definition echo_once_parse :: "string json_parser \<Rightarrow> expander \<Rightarrow> string \<Rightarrow> echo_once_request res" where
  "echo_once_parse parse expand payload =
     res_bind (invalid_as ''payload'' (parseObject parse payload ''Invalid JSON in echo-once request''
                 ''Echo-once request must be a JSON object'')) (\<lambda>body.
     case json_find body ''kind'' of
       Some (JString k) \<Rightarrow>
         if trim k \<noteq> ''topic'' then Inl (Validation_error ''kind'' (''echo-once 'kind' must be 'topic'' @ [CHR 0x27]))
         else (case json_find body ''name'' of
           Some (JString n) \<Rightarrow>
             (case expand (trim n) ''livekit_ros2_bridge'' ''/'' False of
                Inl err \<Rightarrow> Inl (Validation_error ''name'' (what (expand_exn err)))
              | Inr name \<Rightarrow> Inr \<lparr>echo_kind = Topic, echo_name = name\<rparr>)
         | _ \<Rightarrow> Inl (Validation_error ''name'' ''echo-once 'name' must be a string''))
     | _ \<Rightarrow> Inl (Validation_error ''kind'' ''echo-once 'kind' must be a string''))"

fun echo_once_serialize :: "echo_once_result \<Rightarrow> json" where
  "echo_once_serialize Sent = JObject [(''result'', JString ''sent'')]"
| "echo_once_serialize NoValue = JObject [(''result'', JString ''none'')]"

section \<open>Interface definitions\<close>

record interface_definition =
  def_type :: string
  def_body :: string

fun parse_types :: "json list \<Rightarrow> string list res" where
  "parse_types [] = Inr []"
| "parse_types (JString s # es) =
     (if trim s = [] then Inl (Invalid_argument ''interface_types entries must not be empty'')
      else res_bind (parse_types es) (\<lambda>ts. Inr (trim s # ts)))"
| "parse_types (_ # es) = Inl (Invalid_argument ''interface_types entries must be strings'')"

definition interfaces_parse :: "string json_parser \<Rightarrow> string \<Rightarrow> string list res" where
  "interfaces_parse parse payload =
     res_bind (invalid_as ''payload'' (parseObject parse payload ''Invalid JSON in interface show request''
                 ''Interface show request must be a JSON object'')) (\<lambda>body.
     invalid_as ''interface_types''
       (case json_find body ''interface_types'' of
          Some (JArray entries) \<Rightarrow>
            res_bind (parse_types entries) (\<lambda>types.
              if types = [] then Inl (Invalid_argument ''interface_types must not be empty'') else Inr types)
        | _ \<Rightarrow> Inl (Invalid_argument ''interface_types must be an array'')))"

definition interfaces_serialize :: "interface_definition list \<Rightarrow> json" where
  "interfaces_serialize defs = JObject [(''interfaces'', JArray (map (\<lambda>d. JObject
     [(''interface_type'', JString (def_type d)), (''format'', JString ''ros2msg''),
      (''definition'', JString (def_body d))]) defs))]"

section \<open>Resource listings\<close>

record resource_list_request =
  query :: "string option"
  limit :: "int option"

definition resources_parse :: "string json_parser \<Rightarrow> string \<Rightarrow> resource_list_request res" where
  "resources_parse parse payload =
     res_bind (invalid_as ''payload'' (parseObject parse payload ''Invalid JSON in list request''
                 ''List request must be a JSON object'')) (\<lambda>body.
     res_bind (invalid_as ''query'' (optionalString body ''query'' ''query must be a string'' True)) (\<lambda>q.
       case json_find body ''limit'' of
         None \<Rightarrow> Inr \<lparr>query = q, limit = None\<rparr>
       | Some field \<Rightarrow>
           if field = JNull then Inr \<lparr>query = q, limit = None\<rparr>
           else if \<not> is_number_integer field then Inl (Validation_error ''limit'' ''limit must be a positive integer'')
           else if get_int64 field \<le> 0 then Inl (Validation_error ''limit'' ''limit must be a positive integer'')
           else Inr \<lparr>query = q, limit = Some (get_int64 field)\<rparr>))"

type_synonym resource_types_by_name = "(string \<times> string list) list"

definition serialize_resources :: "string \<Rightarrow> string \<Rightarrow> resource_types_by_name \<Rightarrow> json" where
  "serialize_resources list_key name_key rs = JObject [(list_key, JArray (map (\<lambda>(n, ts).
     JObject [(name_key, JString n), (''interface_type'', JString (hd ts))]) rs))]"

definition serializeServices :: "resource_types_by_name \<Rightarrow> json" where
  "serializeServices rs = serialize_resources ''services'' ''service'' rs"

definition serializeTopics :: "resource_types_by_name \<Rightarrow> json" where
  "serializeTopics rs = serialize_resources ''topics'' ''topic'' rs"

section \<open>Lemmas\<close>

definition encoded_field :: "json \<Rightarrow> cdr_field \<Rightarrow> string \<Rightarrow> bool" where
  "encoded_field body field text \<longleftrightarrow> (\<exists>kvs. json_find body (cdr_field_name field) = Some (JObject kvs)
     \<and> map_of kvs ''content_type'' = Some (JString kCdrContentType)
     \<and> map_of kvs ''payload_base64'' = Some (JString text))"

lemma decode_payload_Inr_iff:
  "decode_payload evp t = Inr bs \<longleftrightarrow> base64_decode evp t = Inr \<lparr>b64_bytes = bs, b64_status = B64_Ok\<rparr>"
proof (cases "base64_decode evp t")
  case (Inr r)
  then show ?thesis by (cases r; cases "b64_status r") (simp_all add: decode_payload_def)
qed (simp add: decode_payload_def)

lemma decode_payload_Inl:
  "decode_payload evp t = Inl e \<Longrightarrow> is_invalid_argument e \<or> base64_decode evp t = Inl e"
proof (cases "base64_decode evp t")
  case (Inr r)
  then show "decode_payload evp t = Inl e \<Longrightarrow> is_invalid_argument e \<or> base64_decode evp t = Inl e"
    by (cases "b64_status r") (auto simp: decode_payload_def)
qed (simp add: decode_payload_def)

text \<open>An envelope either carries a base64 text, or the request is malformed.\<close>

lemma cdr_parse_cases:
  "(\<exists>text. encoded_field body field text \<and> cdr_parse evp body field = decode_payload evp text)
   \<or> (\<nexists>text. encoded_field body field text) \<and> (\<exists>m. cdr_parse evp body field = Inl (Invalid_argument m))"
  by (simp add: cdr_parse_def encoded_field_def Let_def split: option.splits json.splits)

lemma encoded_field_inj: "encoded_field body f t \<Longrightarrow> encoded_field body f t' \<Longrightarrow> t = t'"
  by (auto simp: encoded_field_def)

lemma cdr_parse_Inr_iff:
  "cdr_parse evp body field = Inr bs \<longleftrightarrow>
     (\<exists>text. encoded_field body field text \<and> base64_decode evp text = Inr \<lparr>b64_bytes = bs, b64_status = B64_Ok\<rparr>)"
  using cdr_parse_cases [of body field evp] by (metis Inl_Inr_False decode_payload_Inr_iff encoded_field_inj)

lemma cdr_parse_Inl:
  "cdr_parse evp body field = Inl e \<Longrightarrow>
     is_invalid_argument e \<or> (\<exists>text. encoded_field body field text \<and> base64_decode evp text = Inl e)"
  using cdr_parse_cases [of body field evp] by (metis Inl_inject decode_payload_Inl is_invalid_argument.simps(1))

text \<open>
  CDR envelopes round-trip. A buffer serialized into an envelope and read back from a request
  body, under either field name, is unchanged; and reading a body yields a buffer only when the
  body carries exactly the envelope the serializer writes for that buffer.
\<close>

theorem cdr_roundtrip:
  assumes "evp_encode_spec enc" "evp_decode_spec dec" "length bs < 2 ^ 31" "length (base64_encode enc bs) < 2 ^ 31"
  shows "(json_find body (cdr_field_name field) = Some (cdr_serialize enc bs) \<longrightarrow> cdr_parse dec body field = Inr bs)
       \<and> (cdr_parse dec body field = Inr bs \<and> (\<forall>text. encoded_field body field text \<longrightarrow> length text < 2 ^ 31)
            \<longrightarrow> encoded_field body field (base64_encode enc bs))"
proof (intro conjI impI)
  assume "json_find body (cdr_field_name field) = Some (cdr_serialize enc bs)"
  then have "encoded_field body field (base64_encode enc bs)"
    by (simp add: encoded_field_def cdr_serialize_def)
  with base64_canonical [OF assms(1,2,4,3)] show "cdr_parse dec body field = Inr bs"
    by (auto simp: cdr_parse_Inr_iff)
next
  assume "cdr_parse dec body field = Inr bs \<and> (\<forall>text. encoded_field body field text \<longrightarrow> length text < 2 ^ 31)"
  then show "encoded_field body field (base64_encode enc bs)"
    using base64_canonical [OF assms(1,2) _ assms(3)] by (auto simp: cdr_parse_Inr_iff)
qed

theorem cdr_roundtrip_witness:
  "cdr_parse rfc_decode_block (JObject [(''message'', cdr_serialize rfc_encode_block [104, 105])]) MessageField = Inr [104, 105]"
proof -
  have e: "base64_encode rfc_encode_block [104, 105] = ''aGk=''"
    by (simp add: base64_encode_def rfc_encode_block_def int_of_size_def Let_def alpha_def alphabet_def)
  have "length [104, 105 :: byte] < 2 ^ 31" "length (base64_encode rfc_encode_block [104, 105]) < 2 ^ 31"
    unfolding e by simp_all
  from cdr_roundtrip [OF rfc_blocks_spec this, of "JObject [(''message'', cdr_serialize rfc_encode_block [104, 105])]" MessageField]
  show ?thesis by simp
qed

text \<open>
  a publish request body is accepted exactly when it has a topic and an interface type that
  are strings with visible characters and a message envelope that decodes to a non-empty
  buffer; the parsed request holds the trimmed strings and that buffer.
\<close>

theorem publish_accepts_iff:
  "topic_publish_parse_body evp body = Inr r \<longleftrightarrow>
     (\<exists>t i. json_find body ''topic'' = Some (JString t) \<and> trim t \<noteq> []
        \<and> json_find body ''interface_type'' = Some (JString i) \<and> trim i \<noteq> []
        \<and> cdr_parse evp body MessageField = Inr (preq_message r) \<and> preq_message r \<noteq> []
        \<and> ros_topic r = trim t \<and> preq_type r = trim i)"
  by (cases r) (auto simp: topic_publish_parse_body_def res_iffs)

lemma invalid_as_Inl:
  "invalid_as f r = Inl e \<longleftrightarrow>
     (\<exists>e'. r = Inl e' \<and> e = (if is_invalid_argument e' then Validation_error f (what e') else e'))"
  by (cases r) auto

lemma expand_exn_runtime:
  "\<not> is_invalid_argument (expand_exn a) \<Longrightarrow> \<exists>m. a = ExpansionRuntimeError m \<and> expand_exn a = Runtime_error m"
  by (cases a) simp_all

text \<open>
  every rejected service call names the offending field. Parsing a service call throws
  \<open>ValidationError\<close> for \<open>payload\<close>, \<open>service\<close>, \<open>interface_type\<close>, \<open>request\<close> or \<open>timeout_ms\<close>; the only
  other exceptions are runtime errors of the name expansion library. The base64 block decoder
  is assumed to follow its documentation on the payload.
\<close>

theorem service_errors_name_field:
  assumes "services_parse parse expand evp payload = Inl e"
    and dec: "evp_decode_spec evp"
    and small: "\<forall>body text. parse payload = Some body \<longrightarrow> encoded_field body RequestField text \<longrightarrow> length text < 2 ^ 31"
  shows "(\<exists>f m. e = Validation_error f m \<and> f \<in> {''payload'', ''service'', ''interface_type'', ''request'', ''timeout_ms''})
       \<or> (\<exists>n m. expand n ''livekit_ros2_bridge'' ''/'' True = Inl (ExpansionRuntimeError m) \<and> e = Runtime_error m)"
proof -
  have cdr: "is_invalid_argument e'" if "parse payload = Some body" "cdr_parse evp body RequestField = Inl e'" for body e'
  proof -
    have "base64_decode evp t \<noteq> Inl e'" if "length t < 2 ^ 31" for t
      using base64_decode_cases [OF _ that dec] by (cases "t = []") (auto simp: base64_decode_def)
    with cdr_parse_Inl [OF that(2)] small that(1) show ?thesis by metis
  qed
  have exp: "(\<exists>m. expand n ''livekit_ros2_bridge'' ''/'' True = Inl (ExpansionRuntimeError m) \<and> e' = Runtime_error m)"
    if "expand_or_throw expand n True = Inl e'" "\<not> is_invalid_argument e'" for n e'
    using that by (cases "expand n ''livekit_ros2_bridge'' ''/'' True")
      (auto simp: expand_or_throw_def dest!: expand_exn_runtime)
  from assms(1) consider
      "invalid_as ''payload'' (parseObject parse payload ''Invalid JSON in service call request''
                 ''Service call request must be a JSON object'') = Inl e"
    | body where "parse payload = Some body" "services_parse_body expand evp body = Inl e"
    unfolding services_parse_def res_bind_Inl_iff invalid_as_Inr_iff parseObject_Inr_iff by blast
  then show ?thesis
  proof cases
    case 1
    then show ?thesis by (auto dest!: parseObject_Inl simp: invalid_as_Inl)
  next
    case (2 body)
    from 2(2) consider
        "invalid_as ''service'' (res_bind (requiredString body ''service'' ''service is required'' None)
            (\<lambda>n. expand_or_throw expand n True)) = Inl e"
      | "invalid_as ''interface_type'' (res_bind (optionalString body ''interface_type'' ''interface_type must be a string'' False)
            (\<lambda>t. Inr (value_or_empty t))) = Inl e"
      | "invalid_as ''request'' (res_bind (cdr_parse evp body RequestField)
            (\<lambda>p. if length p = 0 then Inl (Invalid_argument ''request.payload_base64 must not be empty'') else Inr p)) = Inl e"
      | "e = Validation_error ''timeout_ms'' ''timeout_ms must be an integer''"
      unfolding services_parse_body_def res_bind_Inl_iff [of "invalid_as _ _"]
      by (elim disjE exE conjE) (auto split: option.splits if_splits)
    then show ?thesis
    proof cases
      case 1
      then obtain e' where e': "res_bind (requiredString body ''service'' ''service is required'' None)
          (\<lambda>n. expand_or_throw expand n True) = Inl e'"
          "e = (if is_invalid_argument e' then Validation_error ''service'' (what e') else e')"
        by (auto simp: invalid_as_Inl)
      then show ?thesis using exp requiredString_Inl unfolding res_bind_Inl_iff
        by (cases "is_invalid_argument e'") fastforce+
    next
      case 2
      then show ?thesis by (auto simp: invalid_as_Inl res_bind_Inl_iff dest!: optionalString_Inl)
    next
      case 3
      then show ?thesis using cdr [OF \<open>parse payload = Some body\<close>]
        by (auto simp: invalid_as_Inl res_bind_Inl_iff split: if_splits)
    qed simp
  qed
qed

text \<open>
  a listing request that parses has either no cap or a positive one that fits the signed
  64-bit range, and its query, when present, is trimmed and not blank.
\<close>

theorem list_request_bounds:
  assumes "resources_parse parse payload = Inr r"
  shows "(\<forall>n. limit r = Some n \<longrightarrow> 0 < n \<and> n < 2 ^ 63) \<and> (\<forall>q. query r = Some q \<longrightarrow> q \<noteq> [] \<and> trim q = q)"
proof -
  have range: "get_int64 v < 2 ^ 63" for v
    using sint_lt [where ?'a = 64] by (cases v) simp_all
  from assms obtain body q where q: "optionalString body ''query'' ''query must be a string'' True = Inr q"
      "query r = q" "limit r = None \<or> (\<exists>v. limit r = Some (get_int64 v) \<and> 0 < get_int64 v)"
    unfolding resources_parse_def res_bind_Inr_iff invalid_as_Inr_iff
    by (elim exE conjE) (force split: option.splits if_splits)
  then show ?thesis using range optionalString_nonblank [of body "''query''" _ True] by (metis option.distinct(1) option.inject)
qed

theorem list_request_bounds_witness:
  "resources_parse (\<lambda>p. Some (JObject [(''limit'', JUInt 5), (''query'', JString '' odom '')])) []
     = Inr \<lparr>query = Some ''odom'', limit = Some 5\<rparr>
   \<and> (0::int) < 5 \<and> trim ''odom'' = ''odom''"
proof -
  have r: "resources_parse (\<lambda>p. Some (JObject [(''limit'', JUInt 5), (''query'', JString '' odom '')])) []
     = Inr \<lparr>query = Some ''odom'', limit = Some 5\<rparr>"
    by code_simp
  from list_request_bounds [OF r] r show ?thesis by simp
qed

definition bad_timeout_request :: json where
  "bad_timeout_request = JObject [(''service'', JString ''reset''), (''request'', cdr_serialize rfc_encode_block [104, 105]),
     (''timeout_ms'', JString ''soon'')]"

theorem service_errors_name_field_witness:
  "\<exists>e. services_parse (\<lambda>p. Some bad_timeout_request) (\<lambda>n q r s. Inr (CHR ''/'' # n)) rfc_decode_block [] = Inl e
     \<and> (\<exists>f m. e = Validation_error f m \<and> f \<in> {''payload'', ''service'', ''interface_type'', ''request'', ''timeout_ms''})"
proof -
  let ?x = "\<lambda>n q r s. Inr (CHR ''/'' # n)"
  have e: "base64_encode rfc_encode_block [104, 105] = ''aGk=''"
    by (simp add: base64_encode_def rfc_encode_block_def int_of_size_def Let_def alpha_def alphabet_def)
  have t: "trim ''reset'' = ''reset''" by code_simp
  have enc: "encoded_field bad_timeout_request RequestField t \<longleftrightarrow> t = ''aGk=''" for t
    by (auto simp: encoded_field_def bad_timeout_request_def cdr_serialize_def e)
  have "base64_decode rfc_decode_block ''aGk='' = Inr \<lparr>b64_bytes = [104, 105], b64_status = B64_Ok\<rparr>"
    using base64_canonical [OF rfc_blocks_spec, of "''aGk=''" "[104, 105]"] e by simp
  then have "cdr_parse rfc_decode_block bad_timeout_request RequestField = Inr [104, 105]"
    by (simp add: cdr_parse_Inr_iff enc)
  then have r: "services_parse (\<lambda>p. Some bad_timeout_request) ?x rfc_decode_block []
      = Inl (Validation_error ''timeout_ms'' ''timeout_ms must be an integer'')"
    by (simp add: services_parse_def services_parse_body_def parseObject_def requiredString_def optionalString_def
        trimmedString_def expand_or_throw_def bad_timeout_request_def t)
  have "\<forall>body t. Some bad_timeout_request = Some body \<longrightarrow> encoded_field body RequestField t \<longrightarrow> length t < 2 ^ 31"
    by (auto simp: enc)
  from service_errors_name_field [OF r rfc_blocks_spec(2) this] r show ?thesis by auto
qed

end
