(* ===== verification/Settlement.thy ===== *)
theory Settlement
  imports Bridge_Prelude
begin

text \<open>
  The contract of every component that hands out futures (the executor queue and the service
  caller): a request that was accepted is either still pending or was settled, and no promise is
  set twice. The interface is a transition system with three observations, and its laws say how
  one step may change them; the consequences for all reachable states are proved once here.
\<close>

locale settlement =
  fixes init :: 's
    and step :: "'s \<Rightarrow> 's \<Rightarrow> bool"
    and good :: "'s \<Rightarrow> bool"
    and submitted :: "'s \<Rightarrow> 'i multiset"
    and pending :: "'s \<Rightarrow> 'i multiset"
    and settled :: "'s \<Rightarrow> 'i multiset"
  assumes good_init: "good init"
    and good_step: "step s t \<Longrightarrow> good s \<Longrightarrow> good t"
    and submitted_init: "submitted init = {#}"
    and pending_init: "pending init = {#}"
    and settled_init: "settled init = {#}"
    and submitted_step: "step s t \<Longrightarrow> good s \<Longrightarrow> submitted t = submitted s \<or> (\<exists>i. i \<notin># submitted s \<and> submitted t = add_mset i (submitted s))"
    and conserve: "step s t \<Longrightarrow> good s \<Longrightarrow> submitted s = pending s + settled s \<Longrightarrow> submitted t = pending t + settled t"
begin

lemma reachable_good: "step\<^sup>*\<^sup>* init s \<Longrightarrow> good s"
  by (induction rule: rtranclp_induct) (auto intro: good_init good_step)

lemma conserved: "step\<^sup>*\<^sup>* init s \<Longrightarrow> submitted s = pending s + settled s"
proof (induction rule: rtranclp_induct)
  case base
  then show ?case by (simp add: submitted_init pending_init settled_init)
next
  case (step s t)
  then show ?case by (blast intro: conserve reachable_good)
qed

lemma submitted_once: "step\<^sup>*\<^sup>* init s \<Longrightarrow> count (submitted s) i \<le> 1"
proof (induction rule: rtranclp_induct)
  case base
  then show ?case by (simp add: submitted_init)
next
  case (step s t)
  from submitted_step [OF step.hyps(2) reachable_good [OF step.hyps(1)]] step.IH show ?case
    by (auto simp: not_in_iff)
qed

text \<open>A request is pending or settled, never both, and settled at most once.\<close>

lemma exactly_one_place:
  assumes "step\<^sup>*\<^sup>* init s" "i \<in># submitted s"
  shows "count (pending s) i + count (settled s) i = 1"
proof -
  have "count (submitted s) i = 1"
    using submitted_once [OF assms(1), of i] assms(2) by (meson count_greater_eq_one_iff le_antisym)
  with conserved [OF assms(1)] show ?thesis by simp
qed

lemma settled_at_most_once: "step\<^sup>*\<^sup>* init s \<Longrightarrow> count (settled s) i \<le> 1"
  using submitted_once [of s i] conserved [of s] by simp

lemma all_settled:
  assumes "step\<^sup>*\<^sup>* init s" "pending s = {#}"
  shows "settled s = submitted s"
  using conserved [OF assms(1)] assms(2) by simp

end

text \<open>
  Terminal shutdown: a condition that every step keeps, once a component is shut down and drained.
\<close>

locale terminal_shutdown =
  fixes step :: "'s \<Rightarrow> 's \<Rightarrow> bool"
    and down :: "'s \<Rightarrow> bool"
  assumes down_step: "step s t \<Longrightarrow> down s \<Longrightarrow> down t"
begin

lemma down_forever: "step\<^sup>*\<^sup>* s t \<Longrightarrow> down s \<Longrightarrow> down t"
  by (induction rule: rtranclp_induct) (auto intro: down_step)

end

end
