(* ===== verification/Executor_Queue.thy ===== *)
theory Executor_Queue
  imports Settlement
begin

text \<open>
  \<open>RosExecutorQueue\<close> (src/src/ros_executor_queue.hpp, ros_executor_queue.cpp). Each critical
  section under \<open>State::mutex\<close> is one operation; the step relation interleaves them over
  arbitrary threads. A task is its promise's identity. The record holds the fields of \<open>State\<close>,
  the trigger flag of the guard condition, where each thread of control stands between two
  critical sections, and the history of settled promises.
\<close>

section \<open>State\<close>

type_synonym thread = nat
type_synonym task = nat

datatype outcome = Completed | QueueShutDown

text \<open>Where the active drain stands: the loop head, running a task, or before its scope exit.\<close>

datatype drain_pc = NotDraining | LoopHead | RunningTask task | Leaving

record exec_queue =
  tasks :: "task list"
  q_shutdown :: bool
  draining :: bool
  drain_owner :: "thread option"
  guard_triggered :: bool
  drain_pc :: drain_pc
  wakes_due :: nat  \<comment> \<open>submitters between pushing a task and \<open>wake()\<close>\<close>
  canceling :: "task list"  \<comment> \<open>the moved-out snapshot still to be canceled\<close>
  canceler :: "thread option"  \<comment> \<open>the thread that flipped \<open>shutdown\<close>\<close>
  outcomes :: "(task \<times> outcome) list"  \<comment> \<open>promises set, oldest first\<close>
  started :: "task list"  \<comment> \<open>tasks whose \<open>run\<close> began, oldest first\<close>
  accepted :: "task list"  \<comment> \<open>tasks pushed, oldest first\<close>
  rejected :: "task list"
  snapshot :: "task list"  \<comment> \<open>what \<open>shutdown\<close> moved out\<close>

definition queue_init :: exec_queue where
  "queue_init = \<lparr>tasks = [], q_shutdown = False, draining = False, drain_owner = None, guard_triggered = False,
     drain_pc = NotDraining, wakes_due = 0, canceling = [], canceler = None, outcomes = [], started = [],
     accepted = [], rejected = [], snapshot = []\<rparr>"

section \<open>Operations\<close>

definition settle :: "task \<Rightarrow> outcome \<Rightarrow> exec_queue \<Rightarrow> exec_queue" where
  "settle i r q = q\<lparr>outcomes := outcomes q @ [(i, r)]\<rparr>"

text \<open>\<open>submit\<close> up to its unlock: a closed queue cancels the task on the spot.\<close>

definition submit :: "task \<Rightarrow> exec_queue \<Rightarrow> exec_queue" where
  "submit i q =
     (if q_shutdown q then settle i QueueShutDown (q\<lparr>rejected := rejected q @ [i]\<rparr>)
      else q\<lparr>tasks := tasks q @ [i], accepted := accepted q @ [i], wakes_due := wakes_due q + 1\<rparr>)"

text \<open>\<open>shutdown\<close> up to its unlock: only the thread that flips the flag takes the queued tasks.\<close>

definition shutdown_flip :: "thread \<Rightarrow> exec_queue \<Rightarrow> exec_queue" where
  "shutdown_flip t q =
     (if q_shutdown q then q
      else q\<lparr>q_shutdown := True, canceling := tasks q, snapshot := tasks q, tasks := [], canceler := Some t\<rparr>)"

text \<open>One turn of the cancellation loop.\<close>

definition cancel_next :: "exec_queue \<Rightarrow> exec_queue" where
  "cancel_next q = (case canceling q of [] \<Rightarrow> q | i # is \<Rightarrow> settle i QueueShutDown (q\<lparr>canceling := is\<rparr>))"

text \<open>The predicate \<open>awaitIdle\<close> waits for.\<close>

definition idle_for :: "thread \<Rightarrow> exec_queue \<Rightarrow> bool" where
  "idle_for t q \<longleftrightarrow> \<not> draining q \<or> drain_owner q = Some t"

text \<open>\<open>shutdown\<close> called by \<open>t\<close> may return: its own cancellations are done and the queue is idle for it.\<close>

definition shutdown_may_return :: "thread \<Rightarrow> exec_queue \<Rightarrow> bool" where
  "shutdown_may_return t q \<longleftrightarrow> q_shutdown q \<and> (canceler q = Some t \<longrightarrow> canceling q = []) \<and> idle_for t q"

text \<open>\<open>wake\<close>: a trigger that throws shuts the queue down.\<close>

definition wake :: "thread \<Rightarrow> bool \<Rightarrow> exec_queue \<Rightarrow> exec_queue" where
  "wake t trigger_ok q =
     (let q' = q\<lparr>wakes_due := wakes_due q - 1\<rparr> in
      if q_shutdown q then q'
      else if trigger_ok then q'\<lparr>guard_triggered := True\<rparr>
      else shutdown_flip t q')"

text \<open>\<open>execute\<close> of the waitable consumes the trigger and enters \<open>drain\<close>.\<close>

definition drain_enter :: "thread \<Rightarrow> exec_queue \<Rightarrow> exec_queue" where
  "drain_enter t q =
     (let q' = q\<lparr>guard_triggered := False\<rparr> in
      if q_shutdown q \<or> draining q then q'
      else q'\<lparr>draining := True, drain_owner := Some t, drain_pc := LoopHead\<rparr>)"

definition drain_next :: "exec_queue \<Rightarrow> exec_queue" where
  "drain_next q =
     (case tasks q of
        [] \<Rightarrow> q\<lparr>drain_pc := Leaving\<rparr>
      | i # is \<Rightarrow> q\<lparr>tasks := is, drain_pc := RunningTask i, started := started q @ [i]\<rparr>)"

text \<open>\<open>task.run\<close> sets the promise, with the value or with the exception the work threw.\<close>

definition task_done :: "task \<Rightarrow> exec_queue \<Rightarrow> exec_queue" where
  "task_done i q = settle i Completed (q\<lparr>drain_pc := LoopHead\<rparr>)"

definition drain_exit :: "exec_queue \<Rightarrow> exec_queue" where
  "drain_exit q = q\<lparr>draining := False, drain_owner := None, drain_pc := NotDraining\<rparr>"

section \<open>Interleavings\<close>

definition all_submitted :: "exec_queue \<Rightarrow> task list" where
  "all_submitted q = accepted q @ rejected q"

text \<open>
  \<open>submit\<close>, \<open>shutdown\<close> and \<open>wake\<close> may come from any thread at any moment, queue work included.
  A fresh task has a promise of its own.
\<close>

inductive qstep :: "exec_queue \<Rightarrow> exec_queue \<Rightarrow> bool" where
  Submit: "i \<notin> set (all_submitted q) \<Longrightarrow> qstep q (submit i q)"
| Wake: "wakes_due q > 0 \<Longrightarrow> qstep q (wake t ok q)"
| Shutdown: "qstep q (shutdown_flip t q)"
| Cancel: "canceling q \<noteq> [] \<Longrightarrow> qstep q (cancel_next q)"
| Enter: "guard_triggered q \<Longrightarrow> qstep q (drain_enter t q)"
| Next: "drain_pc q = LoopHead \<Longrightarrow> qstep q (drain_next q)"
| Task_done: "drain_pc q = RunningTask i \<Longrightarrow> qstep q (task_done i q)"
| Exit: "drain_pc q = Leaving \<Longrightarrow> qstep q (drain_exit q)"

inductive_cases qstepE: "qstep q q'"

abbreviation queue_reachable :: "exec_queue \<Rightarrow> bool" where
  "queue_reachable q \<equiv> qstep\<^sup>*\<^sup>* queue_init q"

section \<open>Invariant\<close>

definition running :: "exec_queue \<Rightarrow> task list" where
  "running q = (case drain_pc q of RunningTask i \<Rightarrow> [i] | _ \<Rightarrow> [])"

definition queue_inv :: "exec_queue \<Rightarrow> bool" where
  "queue_inv q \<longleftrightarrow>
     (draining q \<longleftrightarrow> drain_pc q \<noteq> NotDraining) \<and> (draining q \<longleftrightarrow> drain_owner q \<noteq> None)
   \<and> (\<not> q_shutdown q \<longrightarrow> canceling q = [] \<and> canceler q = None \<and> snapshot q = [] \<and> rejected q = [])
   \<and> (q_shutdown q \<longrightarrow> tasks q = [] \<and> canceler q \<noteq> None)
   \<and> accepted q = started q @ (if q_shutdown q then snapshot q else tasks q)"

lemmas queue_ops = submit_def shutdown_flip_def cancel_next_def wake_def drain_enter_def drain_next_def
  task_done_def drain_exit_def settle_def Let_def

lemma queue_inv_init: "queue_inv queue_init"
  by (simp add: queue_inv_def queue_init_def)

lemma queue_inv_step: "qstep q q' \<Longrightarrow> queue_inv q \<Longrightarrow> queue_inv q'"
  by (erule qstepE) (auto simp: queue_inv_def queue_ops split: list.splits)

definition pending_tasks :: "exec_queue \<Rightarrow> task multiset" where
  "pending_tasks q = mset (tasks q) + mset (canceling q) + mset (running q)"

definition settled_tasks :: "exec_queue \<Rightarrow> task multiset" where
  "settled_tasks q = mset (map fst (outcomes q))"

lemma queue_submitted_step:
  assumes "qstep q q'" "queue_inv q"
  shows "mset (all_submitted q') = mset (all_submitted q)
       \<or> (\<exists>i. i \<notin># mset (all_submitted q) \<and> mset (all_submitted q') = add_mset i (mset (all_submitted q)))"
  using assms(1)
  by (cases rule: qstep.cases) (auto simp: all_submitted_def queue_ops split: list.splits)

lemma queue_conserve:
  assumes "qstep q q'" "queue_inv q" "mset (all_submitted q) = pending_tasks q + settled_tasks q"
  shows "mset (all_submitted q') = pending_tasks q' + settled_tasks q'"
proof -
  have "\<not> draining q \<Longrightarrow> drain_pc q = NotDraining" "\<not> q_shutdown q \<Longrightarrow> canceling q = []"
    using assms(2) by (auto simp: queue_inv_def)
  with assms(1,3) show ?thesis
    by (cases rule: qstep.cases)
      (auto simp: all_submitted_def pending_tasks_def settled_tasks_def running_def queue_ops ac_simps
        split: list.splits)
qed

interpretation eq: settlement queue_init qstep queue_inv "\<lambda>q. mset (all_submitted q)" pending_tasks settled_tasks
proof
  show "queue_inv queue_init" by (rule queue_inv_init)
  show "mset (all_submitted queue_init) = {#}" by (simp add: all_submitted_def queue_init_def)
  show "pending_tasks queue_init = {#}" by (simp add: pending_tasks_def running_def queue_init_def)
  show "settled_tasks queue_init = {#}" by (simp add: settled_tasks_def queue_init_def)
qed (fact queue_inv_step queue_submitted_step queue_conserve)+

section \<open>Properties\<close>

text \<open>
  C6: every submitted task is settled exactly once or still pending, in every interleaving of
  submitters, drains and shutdowns: its promise has been set once and it is nowhere in the
  queue, or it has not been set and it waits in the queue, runs, or waits for cancellation.
\<close>

theorem queue_settles_once:
  assumes "queue_reachable q" "i \<in> set (all_submitted q)"
  shows "count (pending_tasks q) i + count (settled_tasks q) i = 1"
  using assms by (intro eq.exactly_one_place) simp_all

text \<open>
  tasks start in the order in which they were submitted: what was accepted is what was
  started followed by what still waits, or by what shutdown took over for cancellation.
\<close>

theorem queue_fifo:
  assumes "queue_reachable q"
  shows "accepted q = started q @ (if q_shutdown q then snapshot q else tasks q)"
  using eq.reachable_good [OF assms] by (simp add: queue_inv_def)

lemma idle_not_running: "queue_inv q \<Longrightarrow> idle_for t q \<Longrightarrow> drain_owner q \<noteq> Some t \<Longrightarrow> running q = []"
  by (auto simp: queue_inv_def idle_for_def running_def split: drain_pc.splits)

text \<open>
  when the \<open>shutdown\<close> call that closed the queue returns on a thread that is not itself
  inside queue work, every task ever submitted has been settled, and no task is running.
\<close>

theorem shutdown_settles_all:
  assumes "queue_reachable q" "canceler q = Some t" "shutdown_may_return t q" "drain_owner q \<noteq> Some t"
  shows "settled_tasks q = mset (all_submitted q) \<and> running q = []"
proof -
  have inv: "queue_inv q" using assms(1) by (rule eq.reachable_good)
  have run: "running q = []"
    using assms(3,4) idle_not_running [OF inv, of t] by (simp add: shutdown_may_return_def)
  moreover have "pending_tasks q = {#}"
    using inv run assms(2,3) by (simp add: pending_tasks_def queue_inv_def shutdown_may_return_def)
  ultimately show ?thesis using eq.all_settled [OF assms(1)] by simp
qed

text \<open>
  The waitable sits in the node's default callback group, which is mutually exclusive: the
  executor takes the trigger of the guard condition only while no drain is active.
\<close>

definition exclusive_step :: "exec_queue \<Rightarrow> exec_queue \<Rightarrow> bool" where
  "exclusive_step q q' \<longleftrightarrow> qstep q q' \<and> (draining q \<and> guard_triggered q \<longrightarrow> guard_triggered q')"

definition wake_inv :: "exec_queue \<Rightarrow> bool" where
  "wake_inv q \<longleftrightarrow> queue_inv q \<and>
     (\<not> q_shutdown q \<and> tasks q \<noteq> [] \<longrightarrow>
        guard_triggered q \<or> wakes_due q > 0 \<or> drain_pc q = LoopHead \<or> (\<exists>i. drain_pc q = RunningTask i))"

lemma wake_inv_step:
  assumes "exclusive_step q q'" "wake_inv q"
  shows "wake_inv q'"
proof -
  have q: "qstep q q'" "draining q \<and> guard_triggered q \<longrightarrow> guard_triggered q'" "queue_inv q"
    using assms by (simp_all add: exclusive_step_def wake_inv_def)
  then have "queue_inv q'" by (blast intro: queue_inv_step)
  with q(1,2) assms(2) show ?thesis
    by (cases rule: qstep.cases) (auto simp: wake_inv_def queue_inv_def queue_ops split: list.splits if_splits)
qed

text \<open>
  no task is stranded. Under an executor that respects the mutually exclusive callback group,
  whenever tasks wait in an open queue, the guard condition is triggered, a submitter is about
  to trigger it, or the active drain has not yet looked at the queue for the last time.
\<close>

theorem queue_no_lost_wakeup:
  assumes "exclusive_step\<^sup>*\<^sup>* queue_init q" "\<not> q_shutdown q" "tasks q \<noteq> []"
  shows "guard_triggered q \<or> wakes_due q > 0 \<or> drain_pc q = LoopHead \<or> (\<exists>i. drain_pc q = RunningTask i)"
proof -
  have "wake_inv queue_init" using queue_inv_init by (simp add: wake_inv_def) (simp add: queue_init_def)
  with assms(1) have "wake_inv q"
    by (induction rule: rtranclp_induct) (auto intro: wake_inv_step)
  with assms(2,3) show ?thesis by (simp add: wake_inv_def)
qed

section \<open>Concrete schedules\<close>

datatype qaction = ASubmit task | AWake thread bool | AShutdown thread | ACancel | AEnter thread | ANext | ADone | AExit

fun qapply :: "qaction \<Rightarrow> exec_queue \<Rightarrow> exec_queue option" where
  "qapply (ASubmit i) q = (if i \<in> set (all_submitted q) then None else Some (submit i q))"
| "qapply (AWake t ok) q = (if wakes_due q > 0 then Some (wake t ok q) else None)"
| "qapply (AShutdown t) q = Some (shutdown_flip t q)"
| "qapply ACancel q = (if canceling q = [] then None else Some (cancel_next q))"
| "qapply (AEnter t) q = (if guard_triggered q \<and> \<not> draining q then Some (drain_enter t q) else None)"
| "qapply ANext q = (if drain_pc q = LoopHead then Some (drain_next q) else None)"
| "qapply ADone q = (case drain_pc q of RunningTask i \<Rightarrow> Some (task_done i q) | _ \<Rightarrow> None)"
| "qapply AExit q = (if drain_pc q = Leaving then Some (drain_exit q) else None)"

fun schedule :: "qaction list \<Rightarrow> exec_queue \<Rightarrow> exec_queue option" where
  "schedule [] q = Some q"
| "schedule (a # as) q = (case qapply a q of None \<Rightarrow> None | Some q' \<Rightarrow> schedule as q')"

lemma qapply_step: "qapply a q = Some q' \<Longrightarrow> qstep q q'"
  by (cases a) (auto split: if_splits drain_pc.splits intro: qstep.intros)

lemma qapply_exclusive: "qapply a q = Some q' \<Longrightarrow> exclusive_step q q'"
  using qapply_step [of a q q'] unfolding exclusive_step_def
  by (cases a) (auto simp: queue_ops split: if_splits drain_pc.splits list.splits)

lemma schedule_exclusive: "schedule as q = Some q' \<Longrightarrow> exclusive_step\<^sup>*\<^sup>* q q'"
  by (induction "as" arbitrary: q)
    (auto split: option.splits dest: qapply_exclusive intro: converse_rtranclp_into_rtranclp)

lemma schedule_reachable: "schedule as queue_init = Some q \<Longrightarrow> queue_reachable q"
  using schedule_exclusive [of "as" queue_init q]
  by (rule rev_mp) (auto simp: exclusive_step_def elim!: rtranclp_mono [THEN predicate2D, rotated])

text \<open>Two submissions, a drain that runs the first while another thread shuts the queue down.\<close>

definition sample_schedule :: "qaction list" where
  "sample_schedule = [ASubmit 10, ASubmit 11, AWake 7 True, AEnter 1, ANext, AShutdown 2, ASubmit 12, ADone, ANext, AExit, ACancel]"

definition sample_queue :: "qaction list \<Rightarrow> exec_queue" where
  "sample_queue as = the (schedule as queue_init)"

lemma sample_run: "schedule sample_schedule queue_init = Some (sample_queue sample_schedule)"
  "schedule (take 3 sample_schedule) queue_init = Some (sample_queue (take 3 sample_schedule))"
  by code_simp+

theorem queue_settles_once_witness:
  "count (pending_tasks (sample_queue sample_schedule)) 11 + count (settled_tasks (sample_queue sample_schedule)) 11 = 1"
proof -
  have "11 \<in> set (all_submitted (sample_queue sample_schedule))" by code_simp
  then show ?thesis by (rule queue_settles_once [OF schedule_reachable [OF sample_run(1)]])
qed

theorem queue_fifo_witness:
  "accepted (sample_queue sample_schedule) = [10, 11]
   \<and> started (sample_queue sample_schedule) @ snapshot (sample_queue sample_schedule) = [10, 11]"
proof -
  have "accepted (sample_queue sample_schedule) = [10, 11]" "q_shutdown (sample_queue sample_schedule)" by code_simp+
  with queue_fifo [OF schedule_reachable [OF sample_run(1)]] show ?thesis by simp
qed

theorem shutdown_settles_all_witness:
  "settled_tasks (sample_queue sample_schedule) = mset [10, 11, 12]"
proof -
  have "canceler (sample_queue sample_schedule) = Some 2" "shutdown_may_return 2 (sample_queue sample_schedule)"
    "drain_owner (sample_queue sample_schedule) \<noteq> Some 2" "all_submitted (sample_queue sample_schedule) = [10, 11, 12]"
    by code_simp+
  with shutdown_settles_all [OF schedule_reachable [OF sample_run(1)]] show ?thesis by simp
qed

theorem queue_no_lost_wakeup_witness:
  "tasks (sample_queue (take 3 sample_schedule)) = [10, 11] \<and> guard_triggered (sample_queue (take 3 sample_schedule))"
proof -
  let ?q = "sample_queue (take 3 sample_schedule)"
  have "\<not> q_shutdown ?q" "tasks ?q \<noteq> []" "tasks ?q = [10, 11]" "guard_triggered ?q"
    by code_simp+
  with queue_no_lost_wakeup [OF schedule_exclusive [OF sample_run(2)]] show ?thesis by simp
qed

end
