(* ===== verification/Callback_Gate.thy ===== *)
theory Callback_Gate
  imports Bridge_Prelude
begin

text \<open>
  The three barriers that keep callbacks out of a component that is being torn down:
  \<open>CallbackGate\<close> (src/src/utils/callback_gate.hpp), the use counter of the service waitable
  (src/src/ros_service_caller.cpp) and the callback counter of the GStreamer pipelines
  (src/src/video/gstreamer_pipeline.cpp, src/src/audio/gstreamer_pipeline.cpp). The last two pack
  a stop bit and a count into one atomic word. All three implement the contract \<open>gate\<close>.
\<close>

unbundle bit_operations_syntax

section \<open>The contract\<close>

text \<open>
  \<open>room\<close> is the condition under which the counter still has space. A trace is a sequence of
  entries, exits and closings by arbitrary threads; exits only match entries.
\<close>

datatype gate_op = Enter nat | Leave nat | Close

fun gate_run :: "(nat \<Rightarrow> 's \<Rightarrow> 's option) \<Rightarrow> (nat \<Rightarrow> 's \<Rightarrow> 's) \<Rightarrow> ('s \<Rightarrow> 's) \<Rightarrow> ('s \<Rightarrow> nat) \<Rightarrow> gate_op list \<Rightarrow> 's \<Rightarrow> 's" where
  "gate_run en le cl ac [] s = s"
| "gate_run en le cl ac (Enter t # ops) s = gate_run en le cl ac ops (case en t s of None \<Rightarrow> s | Some s' \<Rightarrow> s')"
| "gate_run en le cl ac (Leave t # ops) s = gate_run en le cl ac ops (if ac s > 0 then le t s else s)"
| "gate_run en le cl ac (Close # ops) s = gate_run en le cl ac ops (cl s)"

locale gate =
  fixes enter :: "nat \<Rightarrow> 's \<Rightarrow> 's option"
    and leave :: "nat \<Rightarrow> 's \<Rightarrow> 's"
    and close :: "'s \<Rightarrow> 's"
    and closed :: "'s \<Rightarrow> bool"
    and active :: "'s \<Rightarrow> nat"
    and room :: "'s \<Rightarrow> bool"
  assumes enter_open: "enter t s = Some s' \<Longrightarrow> \<not> closed s"
    and enter_counts: "enter t s = Some s' \<Longrightarrow> room s \<Longrightarrow> \<not> closed s' \<and> active s' = active s + 1"
    and leave_counts: "active s > 0 \<Longrightarrow> active (leave t s) = active s - 1 \<and> closed (leave t s) = closed s"
    and close_closes: "closed (close s) \<and> active (close s) = active s"
begin

lemma closed_rejects: "closed s \<Longrightarrow> enter t s = None"
  using enter_open by (cases "enter t s") auto

text \<open>Once closed, the gate stays closed and no callback starts: the count only falls.\<close>

lemma closed_run: "closed s \<Longrightarrow> closed (gate_run enter leave close active ops s) \<and> active (gate_run enter leave close active ops s) \<le> active s"
proof (induction ops arbitrary: s)
  case (Cons a ops)
  show ?case
  proof (cases a)
    case (Enter t)
    with Cons closed_rejects show ?thesis by simp
  next
    case (Leave t)
    show ?thesis
    proof (cases "active s > 0")
      case True
      with leave_counts [OF this, of t] Cons.prems have "closed (leave t s)" "active (leave t s) \<le> active s" by auto
      with Cons.IH [of "leave t s"] True Leave show ?thesis by auto
    next
      case False
      with Cons.IH [OF Cons.prems] Leave show ?thesis by simp
    qed
  next
    case Close
    with Cons.IH [of "close s"] close_closes [of s] show ?thesis by simp
  qed
qed simp

text \<open>After a close that waited for the active callbacks, no callback is ever active again.\<close>

lemma quiescent_forever: "active s = 0 \<Longrightarrow> active (gate_run enter leave close active ops (close s)) = 0"
  using closed_run [of "close s" ops] close_closes [of s] by simp

end

section \<open>CallbackGate\<close>

datatype concurrency = Concurrent | Exclusive
datatype wait_mode = AllCallbacks | ExcludingCurrentThread

record callback_gate =
  concurrency :: concurrency
  gate_closed :: bool
  active_count :: nat
  exclusive_owner :: "nat option"

definition gate_init :: "concurrency \<Rightarrow> callback_gate" where
  "gate_init c = \<lparr>concurrency = c, gate_closed = False, active_count = 0, exclusive_owner = None\<rparr>"

definition tryEnter :: "nat \<Rightarrow> callback_gate \<Rightarrow> callback_gate option" where
  "tryEnter t g =
     (if gate_closed g then None
      else if concurrency g = Exclusive \<and> active_count g \<noteq> 0 then None
      else (let g' = g\<lparr>active_count := active_count g + 1\<rparr> in
            Some (if concurrency g = Exclusive then g'\<lparr>exclusive_owner := Some t\<rparr> else g')))"

definition gate_leave :: "nat \<Rightarrow> callback_gate \<Rightarrow> callback_gate" where
  "gate_leave t g =
     (let g' = g\<lparr>active_count := active_count g - 1\<rparr> in
      if concurrency g = Exclusive \<and> exclusive_owner g = Some t then g'\<lparr>exclusive_owner := None\<rparr> else g')"

definition activeCallbacksToWaitFor :: "nat \<Rightarrow> wait_mode \<Rightarrow> callback_gate \<Rightarrow> nat" where
  "activeCallbacksToWaitFor caller mode g =
     (if mode = AllCallbacks then active_count g
      else if concurrency g = Exclusive \<and> active_count g \<noteq> 0 \<and> exclusive_owner g = Some caller then 0
      else active_count g)"

text \<open>
  \<open>closeAndWait\<close>: the locked part before the wait, with its return value, and the condition
  under which the wait lets the caller go.
\<close>

definition gate_close :: "callback_gate \<Rightarrow> callback_gate" where
  "gate_close g = g\<lparr>gate_closed := True\<rparr>"

definition closeAndWait :: "callback_gate \<Rightarrow> callback_gate \<times> bool" where
  "closeAndWait g = (gate_close g, \<not> gate_closed g)"

definition wait_done :: "nat \<Rightarrow> wait_mode \<Rightarrow> callback_gate \<Rightarrow> bool" where
  "wait_done caller mode g \<longleftrightarrow> activeCallbacksToWaitFor caller mode g = 0"

lemmas gate_defs = tryEnter_def gate_leave_def gate_close_def Let_def

interpretation cg: gate tryEnter gate_leave gate_close gate_closed active_count "\<lambda>g. True"
  by unfold_locales (auto simp: gate_defs split: if_splits)

text \<open>The threads inside \<open>run\<close>, next to the gate they entered.\<close>

inductive gate_step :: "callback_gate \<times> nat list \<Rightarrow> callback_gate \<times> nat list \<Rightarrow> bool" where
  Run_enter: "tryEnter t g = Some g' \<Longrightarrow> gate_step (g, ts) (g', t # ts)"
| Run_leave: "t \<in> set ts \<Longrightarrow> gate_step (g, ts) (gate_leave t g, remove1 t ts)"
| Close_gate: "gate_step (g, ts) (gate_close g, ts)"

definition gate_inv :: "concurrency \<Rightarrow> callback_gate \<times> nat list \<Rightarrow> bool" where
  "gate_inv c = (\<lambda>(g, ts). concurrency g = c \<and> active_count g = length ts
     \<and> (c = Exclusive \<longrightarrow> length ts \<le> 1 \<and> exclusive_owner g = (case ts of [] \<Rightarrow> None | t # _ \<Rightarrow> Some t)))"

lemma gate_inv_step: "gate_step a b \<Longrightarrow> gate_inv c a \<Longrightarrow> gate_inv c b"
  by (induction rule: gate_step.induct)
    (auto simp: gate_inv_def gate_defs length_remove1 split: if_splits list.splits)

lemma gate_reachable_inv: "gate_step\<^sup>*\<^sup>* (gate_init c, []) s \<Longrightarrow> gate_inv c s"
proof (induction rule: rtranclp_induct)
  case base
  show ?case by (simp add: gate_inv_def gate_init_def)
qed (rule gate_inv_step)

text \<open>
  \<open>closeAndWait\<close> is a barrier. In every reachable state in which the wait of a closing caller
  is over, the callbacks still inside the gate are none in the default mode, and at most the
  caller's own one when an exclusive gate excludes the current thread; and no later sequence of
  entries, exits and closings lets another callback start.
\<close>

theorem gate_close_barrier:
  assumes "gate_step\<^sup>*\<^sup>* (gate_init c, []) (g, ts)" "gate_closed g" "wait_done t mode g"
  shows "(ts = [] \<or> mode = ExcludingCurrentThread \<and> c = Exclusive \<and> ts = [t])
       \<and> active_count (gate_run tryEnter gate_leave gate_close active_count ops g) \<le> length ts"
proof -
  have inv: "gate_inv c (g, ts)" by (rule gate_reachable_inv [OF assms(1)])
  have "ts = [] \<or> mode = ExcludingCurrentThread \<and> c = Exclusive \<and> ts = [t]"
    using inv assms(3)
    by (auto simp: gate_inv_def wait_done_def activeCallbacksToWaitFor_def le_Suc_eq length_Suc_conv
        split: if_splits list.splits intro: wait_mode.exhaust [of mode])
  with cg.closed_run [OF assms(2), of ops] inv show ?thesis by (simp add: gate_inv_def)
qed

text \<open>An exclusive gate whose active callback closes it from its own thread.\<close>

theorem gate_close_barrier_witness:
  "\<exists>g. gate_step\<^sup>*\<^sup>* (gate_init Exclusive, []) (g, [3]) \<and> gate_closed g \<and> wait_done 3 ExcludingCurrentThread g
     \<and> active_count (gate_run tryEnter gate_leave gate_close active_count [Enter 4, Leave 3, Enter 5] g) \<le> 1"
proof -
  let ?g1 = "\<lparr>concurrency = Exclusive, gate_closed = False, active_count = 1, exclusive_owner = Some 3\<rparr>"
  let ?g = "gate_close ?g1"
  have "gate_step (gate_init Exclusive, []) (?g1, [3])"
    by (rule Run_enter) (simp add: gate_defs gate_init_def)
  moreover have "gate_step (?g1, [3]) (?g, [3])" by (rule Close_gate)
  ultimately have r: "gate_step\<^sup>*\<^sup>* (gate_init Exclusive, []) (?g, [3])" by (meson r_into_rtranclp rtranclp.simps)
  have c: "gate_closed ?g" "wait_done 3 ExcludingCurrentThread ?g"
    by (simp_all add: gate_close_def wait_done_def activeCallbacksToWaitFor_def)
  have "active_count (gate_run tryEnter gate_leave gate_close active_count [Enter 4, Leave 3, Enter 5] ?g) \<le> length [3 :: nat]"
    using gate_close_barrier [OF r c] by blast
  with r c show ?thesis by (intro exI [of _ ?g]) (simp del: gate_run.simps)
qed

section \<open>Stop bit and count in one word\<close>

definition kUseStopped :: "64 word" where
  "kUseStopped = NOT (drop_bit 1 (NOT 0))"

definition kUseCountMask :: "64 word" where
  "kUseCountMask = NOT kUseStopped"

text \<open>One successful round of the compare-exchange loop, or the loop's exit.\<close>

definition beginUse :: "64 word \<Rightarrow> (64 word) option" where
  "beginUse state = (if state AND kUseStopped = 0 then Some (state + 1) else None)"

definition endUse :: "64 word \<Rightarrow> 64 word" where
  "endUse state = state - 1"

text \<open>\<open>fetch_or\<close> of the stop bit, and the condition of the spin loop after it.\<close>

definition stop_use :: "64 word \<Rightarrow> 64 word" where
  "stop_use state = state OR kUseStopped"

definition use_count :: "64 word \<Rightarrow> nat" where
  "use_count state = unat (state AND kUseCountMask)"

definition use_stopped :: "64 word \<Rightarrow> bool" where
  "use_stopped state \<longleftrightarrow> state AND kUseStopped \<noteq> 0"

text \<open>\<open>resumeCallbacks\<close> of the pipelines reopens the barrier.\<close>

definition resumeCallbacks :: "64 word \<Rightarrow> 64 word" where
  "resumeCallbacks state = 0"

lemma kUseStopped_exp: "kUseStopped = 2 ^ 63"
  by code_simp

lemma kUseCountMask_mask: "kUseCountMask = mask 63"
  by code_simp

lemma use_stopped_bit: "use_stopped s \<longleftrightarrow> bit s 63"
  unfolding use_stopped_def kUseStopped_exp by (simp only: and_exp_eq_0_iff_not_bit not_not)

lemma use_stopped_iff: "use_stopped s \<longleftrightarrow> 2 ^ 63 \<le> unat s"
proof -
  have "unat s < 2 ^ 64" using unsigned_less [of s, where ?'a = nat] by simp
  then have "unat s div 2 ^ 63 < 2" by (simp add: div_less_iff_less_mult)
  moreover have "unat s div 2 ^ 63 = 0 \<longleftrightarrow> unat s < 2 ^ 63" by (simp add: div_eq_0_iff)
  ultimately have "odd (unat s div 2 ^ 63) \<longleftrightarrow> 2 ^ 63 \<le> unat s"
    by (cases "unat s div 2 ^ 63 = 0") (auto simp: not_less less_2_cases_iff)
  moreover have "bit s 63 \<longleftrightarrow> bit (unat s) 63" by (simp add: bit_unsigned_iff)
  ultimately show ?thesis unfolding use_stopped_bit by (simp only: bit_iff_odd)
qed

lemma use_count_mod: "use_count s = unat s mod 2 ^ 63"
  unfolding use_count_def kUseCountMask_mask take_bit_eq_mask [symmetric]
  by (simp only: unsigned_take_bit_eq) (simp only: take_bit_eq_mod)

lemma beginUse_counts:
  assumes "beginUse s = Some s'" "use_count s < 2 ^ 63 - 1"
  shows "\<not> use_stopped s' \<and> use_count s' = use_count s + 1"
proof -
  have lt: "unat s < 2 ^ 63" and s': "s' = s + 1"
    using assms(1) use_stopped_iff [of s] by (auto simp: beginUse_def use_stopped_def split: if_splits)
  then have u: "use_count s = unat s" by (simp add: use_count_mod)
  then have "unat (s + 1) = unat s + 1" using assms(2) by (simp add: unat_word_ariths)
  with s' u assms(2) show ?thesis by (simp add: use_stopped_iff use_count_mod)
qed

lemma endUse_counts:
  assumes "use_count s > 0"
  shows "use_count (endUse s) = use_count s - 1 \<and> use_stopped (endUse s) = use_stopped s"
proof -
  have pos: "unat s mod 2 ^ 63 > 0" using assms by (simp add: use_count_mod)
  then have "unat s > 0" by (cases "unat s = 0") simp_all
  then have u: "unat (s - 1) = unat s - 1" by (simp add: unat_minus_one unat_gt_0)
  have "(n - 1) mod m = n mod m - 1 \<and> (m \<le> n - 1 \<longleftrightarrow> m \<le> n)" if "n mod m > 0" for n m :: nat
  proof -
    have n: "n = n div m * m + n mod m" by simp
    have "(n div m * m + (n mod m - 1)) mod m = n mod m - 1"
      by (cases "m = 0") (simp_all add: less_imp_diff_less)
    moreover have "n - 1 = n div m * m + (n mod m - 1)" using n that by linarith
    moreover have "m \<le> n - 1 \<longleftrightarrow> m \<le> n" using that by (cases "n = m") auto
    ultimately show ?thesis by simp
  qed
  from this [OF pos] u show ?thesis by (simp only: endUse_def use_count_mod use_stopped_iff)
qed

lemma stop_use_stops: "use_stopped (stop_use s) \<and> use_count (stop_use s) = use_count s"
proof -
  have "(s OR kUseStopped) AND kUseCountMask = s AND kUseCountMask"
    unfolding kUseCountMask_def by (auto simp: bit_eq_iff bit_simps)
  moreover have "(s OR kUseStopped) AND kUseStopped = kUseStopped" by (auto simp: bit_eq_iff bit_simps)
  moreover have "kUseStopped \<noteq> 0" by code_simp
  ultimately show ?thesis by (simp add: stop_use_def use_count_def use_stopped_def)
qed

lemma beginUse_open: "beginUse s = Some s' \<Longrightarrow> \<not> use_stopped s"
  by (auto simp: beginUse_def use_stopped_def split: if_splits)

interpretation ug: gate "\<lambda>t. beginUse" "\<lambda>t. endUse" stop_use use_stopped use_count "\<lambda>s. use_count s < 2 ^ 63 - 1"
  by unfold_locales (use beginUse_open beginUse_counts endUse_counts stop_use_stops in blast)+

text \<open>
  the one-word barrier of the service waitable and of the pipelines is exact. After the stop
  bit is set and the spin loop has seen a zero count, no sequence of later entries and exits
  makes the count nonzero; and below the capacity of 2 to the 63 users, an entry adds one user
  without reaching the stop bit.
\<close>

theorem use_word_barrier:
  assumes "use_count s = 0"
  shows "use_count (gate_run (\<lambda>t. beginUse) (\<lambda>t. endUse) stop_use use_count ops (stop_use s)) = 0
       \<and> (\<forall>w w'. beginUse w = Some w' \<and> use_count w < 2 ^ 63 - 1 \<longrightarrow> \<not> use_stopped w' \<and> use_count w' = use_count w + 1)"
  using ug.quiescent_forever [OF assms, of ops] beginUse_counts by blast

theorem use_word_barrier_witness:
  "use_count (gate_run (\<lambda>t. beginUse) (\<lambda>t. endUse) stop_use use_count [Enter 1, Leave 2, Enter 3] (stop_use 0)) = 0"
proof -
  have "use_count 0 = 0" by (simp add: use_count_def)
  then show ?thesis using use_word_barrier by blast
qed

end
