(* ===== verification/Caches.thy ===== *)
theory Caches
  imports Bridge_Prelude
begin

text \<open>
  Bounded caches and throttles shared by the ROS side of the bridge: \<open>EventThrottle\<close>
  (src/src/utils/event_throttle.hpp), \<open>FailureCache\<close> (src/src/ros_interfaces/failure_cache.hpp),
  \<open>requireSingleType\<close> (graph_lookup.hpp) and \<open>ServiceTypeSupportCache\<close> (service_type_support.cpp).
  Loading a type-support library is a parameter.
\<close>

section \<open>The contract of a bounded cache\<close>

locale bounded_cache =
  fixes cap :: nat
    and entries :: "'c \<Rightarrow> ('k, 'v) alist"
    and put :: "'k \<Rightarrow> 'v \<Rightarrow> 'c \<Rightarrow> 'c"
  assumes put_distinct: "distinct (keys (entries c)) \<Longrightarrow> distinct (keys (entries (put k v c)))"
    and put_bounded: "length (entries c) \<le> cap \<Longrightarrow> length (entries (put k v c)) \<le> cap"
    and put_sound: "lookup (entries (put k v c)) k' = Some w \<Longrightarrow> (k' = k \<and> w = v) \<or> lookup (entries c) k' = Some w"
begin

definition cache_wf :: "'c \<Rightarrow> bool" where
  "cache_wf c \<longleftrightarrow> distinct (keys (entries c)) \<and> length (entries c) \<le> cap"

lemma put_wf: "cache_wf c \<Longrightarrow> cache_wf (put k v c)"
  by (simp add: cache_wf_def put_distinct put_bounded)

lemma puts_wf: "cache_wf c \<Longrightarrow> cache_wf (fold (\<lambda>(k, v). put k v) kvs c)"
  by (induction kvs arbitrary: c) (auto simp: put_wf)

text \<open>A lookup only ever returns a value that was stored under its key.\<close>

lemma puts_sound:
  "lookup (entries (fold (\<lambda>(k, v). put k v) kvs c)) k = Some v \<Longrightarrow> (k, v) \<in> set kvs \<or> lookup (entries c) k = Some v"
  by (induction kvs arbitrary: c) (fastforce dest: put_sound)+

end

section \<open>Failures\<close>

type_synonym failures = "(string, exn) alist"

definition failure_find :: "string \<Rightarrow> failures \<Rightarrow> exn option" where
  "failure_find key fs = lookup fs key"

definition remember :: "nat \<Rightarrow> string \<Rightarrow> exn \<Rightarrow> failures \<Rightarrow> failures" where
  "remember capacity key failure fs =
     (if capacity = 0 then fs
      else (case lookup fs key of
              Some old \<Rightarrow> AList.update key failure fs
            | None \<Rightarrow>
                (let kept = (if length fs \<ge> capacity then [] else fs) in
                 AList.update key failure kept)))"

lemma length_update_le: "length (AList.update k v al) \<le> Suc (length al)"
  by (induction al) auto

lemma remember_distinct: "distinct (keys fs) \<Longrightarrow> distinct (keys (remember cap k e fs))"
  by (auto simp: remember_def al_simps Let_def split: option.split)

lemma remember_bounded: "length fs \<le> cap \<Longrightarrow> length (remember cap k e fs) \<le> cap"
  using length_update_le [of k e fs]
  by (auto simp: remember_def length_update_old Let_def Suc_le_eq split: option.split)

lemma lookup_remember: "cap > 0 \<Longrightarrow> lookup (remember cap k e fs) k = Some e"
  by (simp add: remember_def al_simps Let_def split: option.split)

interpretation fc: bounded_cache cap "\<lambda>fs. fs" "remember cap" for cap
proof
  fix k v k' w and c :: failures
  show "lookup (remember cap k v c) k' = Some w \<Longrightarrow> (k' = k \<and> w = v) \<or> lookup c k' = Some w"
    by (auto simp: remember_def al_simps Let_def split: option.splits if_splits)
qed (simp_all add: remember_distinct remember_bounded)

section \<open>Service type supports\<close>

record 'h type_support_cache =
  ts_entries :: "(string, 'h) alist"
  ts_failures :: failures

text \<open>
  \<open>load\<close> is the constructor of \<open>ServiceTypeSupport\<close>. Invalid arguments and runtime errors are
  remembered; any other exception is thrown without being cached.
\<close>

definition type_support_get ::
  "nat \<Rightarrow> (string \<Rightarrow> 'h res) \<Rightarrow> string \<Rightarrow> 'h type_support_cache \<Rightarrow> 'h res \<times> 'h type_support_cache" where
  "type_support_get capacity load type c =
     (case lookup (ts_entries c) type of
        Some h \<Rightarrow> (Inr h, c)
      | None \<Rightarrow>
          (case failure_find type (ts_failures c) of
             Some e \<Rightarrow> (Inl e, c)
           | None \<Rightarrow>
               (case load type of
                  Inr h \<Rightarrow> (Inr h, c\<lparr>ts_entries := AList.update type h (ts_entries c)\<rparr>)
                | Inl e \<Rightarrow>
                    if is_invalid_argument e \<or> is_runtime_error e
                    then (Inl e, c\<lparr>ts_failures := remember capacity type e (ts_failures c)\<rparr>)
                    else (Inl e, c))))"

text \<open>
  a type-support lookup that has been answered is answered the same way at once afterwards,
  without loading the library again: a loaded support stays cached, and with a positive
  capacity an invalid-argument or runtime failure is rethrown from the cache whatever the
  loader would now do.
\<close>

theorem type_support_memoizes:
  assumes "type_support_get cap load type c = (r, c')" "cap > 0"
    and "\<forall>e. r = Inl e \<longrightarrow> is_invalid_argument e \<or> is_runtime_error e"
  shows "type_support_get cap load' type c' = (r, c')"
proof (cases "lookup (ts_entries c) type")
  case None
  show ?thesis
  proof (cases "lookup (ts_failures c) type")
    case fresh: None
    show ?thesis
    proof (cases "load type")
      case (Inl e)
      then have "r = Inl e" using assms(1) None fresh by (auto simp: type_support_get_def failure_find_def split: if_splits)
      then have "is_invalid_argument e \<or> is_runtime_error e" using assms(3) by simp
      with Inl None fresh assms(1,2) show ?thesis
        by (auto simp: type_support_get_def failure_find_def lookup_remember)
    qed (use None fresh assms(1) in \<open>auto simp: type_support_get_def failure_find_def al_simps\<close>)
  next
    case (Some e)
    with None assms show ?thesis by (auto simp: type_support_get_def failure_find_def)
  qed
qed (use assms in \<open>auto simp: type_support_get_def\<close>)

theorem type_support_memoizes_witness:
  "type_support_get 1 (\<lambda>t. Inr True) ''pkg/srv/Nope''
     (snd (type_support_get 1 (\<lambda>t. Inl (Runtime_error ''no library'')) ''pkg/srv/Nope''
       \<lparr>ts_entries = [], ts_failures = [(''other'', Runtime_error ''x'')]\<rparr>))
   = (Inl (Runtime_error ''no library''), \<lparr>ts_entries = [], ts_failures = [(''pkg/srv/Nope'', Runtime_error ''no library'')]\<rparr>)"
proof -
  let ?c = "\<lparr>ts_entries = [] :: (string, bool) alist, ts_failures = [(''other'', Runtime_error ''x'')]\<rparr>"
  let ?c' = "\<lparr>ts_entries = [] :: (string, bool) alist, ts_failures = [(''pkg/srv/Nope'', Runtime_error ''no library'')]\<rparr>"
  have g: "type_support_get 1 (\<lambda>t. Inl (Runtime_error ''no library'')) ''pkg/srv/Nope'' ?c
      = (Inl (Runtime_error ''no library''), ?c')"
    by (simp add: type_support_get_def failure_find_def remember_def)
  have p: "0 < (1 :: nat)" "\<forall>e. (Inl (Runtime_error ''no library'') :: bool res) = Inl e \<longrightarrow> is_invalid_argument e \<or> is_runtime_error e"
    by simp_all
  from type_support_memoizes [OF g p, of "\<lambda>t. Inr True"] g show ?thesis by simp
qed

section \<open>Graph lookup\<close>

definition requireSingleType :: "(string, string list) alist \<Rightarrow> string \<Rightarrow> string \<Rightarrow> string res" where
  "requireSingleType graph resource kind =
     (case lookup graph resource of
        None \<Rightarrow> Inl (Invalid_argument (''No ROS types found for '' @ kind @ '' '' @ [CHR 0x27] @ resource @ [CHR 0x27] @ ''.''))
      | Some types \<Rightarrow>
          if length types \<noteq> 1 then
            Inl (Invalid_argument (''Multiple ROS types found for '' @ kind @ '' '' @ [CHR 0x27] @ resource @ [CHR 0x27] @ ''.''))
          else Inr (hd types))"

lemma requireSingleType_Inr_iff [res_iffs]:
  "requireSingleType graph resource kind = Inr t \<longleftrightarrow> lookup graph resource = Some [t]"
  by (auto simp: requireSingleType_def length_Suc_conv split: option.splits)

section \<open>Event throttle\<close>

text \<open>The default time point is the clock's epoch, here 0.\<close>

record event_throttle =
  throttle_interval :: time
  throttle_pending :: nat
  next_allowed_at :: time

definition throttle_init :: "time \<Rightarrow> event_throttle" where
  "throttle_init i = \<lparr>throttle_interval = i, throttle_pending = 0, next_allowed_at = 0\<rparr>"

definition record_event :: "time \<Rightarrow> event_throttle \<Rightarrow> nat \<times> event_throttle" where
  "record_event now e =
     (let p = throttle_pending e + 1 in
      if next_allowed_at e = 0 \<or> now \<ge> next_allowed_at e
      then (p, e\<lparr>throttle_pending := 0, next_allowed_at := now + throttle_interval e\<rparr>)
      else (0, e\<lparr>throttle_pending := p\<rparr>))"

fun record_all :: "time list \<Rightarrow> event_throttle \<Rightarrow> nat list \<times> event_throttle" where
  "record_all [] e = ([], e)"
| "record_all (now # nows) e =
     (let (n, e') = record_event now e; (ns, e'') = record_all nows e' in (n # ns, e''))"

text \<open>
  the throttle neither loses nor invents events: whatever the clock readings, the counts it
  has reported and the count it still holds add up to the number of events recorded.
\<close>

theorem throttle_accounts:
  "sum_list (fst (record_all nows e)) + throttle_pending (snd (record_all nows e)) = throttle_pending e + length nows"
proof (induction nows arbitrary: e)
  case (Cons now nows)
  have "fst (record_event now e) + throttle_pending (snd (record_event now e)) = throttle_pending e + 1"
    by (simp add: record_event_def Let_def)
  with Cons [of "snd (record_event now e)"] show ?case
    by (simp add: Let_def case_prod_beta)
qed simp

end
