(* ===== verification/Topic_Publisher.thy ===== *)
theory Topic_Publisher
  imports Caches Access_Policy Protocol_Requests
begin

text \<open>
  \<open>RosTopicPublisher\<close> (src/src/ros_topic_publisher.cpp): policy-checked publication of remote
  messages on ROS topics with a bounded cache of publishers. \<open>publish\<close> is split at the points
  where another thread's \<open>shutdown\<close> can be observed; the step relation interleaves any number of
  publishers with shutdown. Name resolution, the ROS graph and the creation of publishers are
  parameters, chosen anew at every call.
\<close>

section \<open>State\<close>

record publisher_entry =
  entry_type :: string
  entry_handle :: nat

record topic_publisher =
  tp_shutdown :: bool
  max_topics :: nat
  publishers :: "(string, publisher_entry) alist"

definition kDefaultMaxTopics :: nat where
  "kDefaultMaxTopics = 50"

definition publisher_init :: "nat \<Rightarrow> topic_publisher" where
  "publisher_init n = \<lparr>tp_shutdown = False, max_topics = n, publishers = []\<rparr>"

datatype rejection = PublisherShutDown | InvalidRequest exn | PublishForbidden | CacheFull

text \<open>A request that passed the checks: the resolved topic, its type, and the cached handle if any.\<close>

record ready_publish =
  rp_topic :: string
  rp_type :: string
  rp_cached :: "nat option"
  rp_message :: bytes

section \<open>Operations\<close>

text \<open>The locked lookup and the type check.\<close>

definition check_type ::
  "(string, string list) alist \<Rightarrow> string \<Rightarrow> string \<Rightarrow> topic_publisher \<Rightarrow> rejection + (string \<times> nat option)" where
  "check_type graph topic requested p =
     (case lookup (publishers p) topic of
        Some e \<Rightarrow>
          if entry_type e \<noteq> requested then
            Inl (InvalidRequest (Invalid_argument (''type mismatch expected='' @ entry_type e @ '' got='' @ requested)))
          else Inr (entry_type e, Some (entry_handle e))
      | None \<Rightarrow>
          if length (publishers p) \<ge> max_topics p then Inl CacheFull
          else (case requireSingleType graph topic ''topic'' of
                  Inl e \<Rightarrow> Inl (InvalidRequest e)
                | Inr type \<Rightarrow>
                    if type \<noteq> requested then
                      Inl (InvalidRequest (Invalid_argument (''type mismatch expected='' @ type @ '' got='' @ requested)))
                    else Inr (type, None)))"

text \<open>\<open>publish\<close> up to the point where a publisher is at hand or has to be created.\<close>

definition publish_check ::
  "expander \<Rightarrow> access_policy \<Rightarrow> (string \<Rightarrow> string res) \<Rightarrow> (string, string list) alist \<Rightarrow> publish_request \<Rightarrow> topic_publisher
     \<Rightarrow> rejection + ready_publish" where
  "publish_check expand policy resolve graph request p =
     (if tp_shutdown p then Inl PublisherShutDown
      else (case resolve (ros_topic request) of
              Inl e \<Rightarrow> Inl (InvalidRequest e)
            | Inr topic \<Rightarrow>
                if \<not> allows expand policy Publish topic then Inl PublishForbidden
                else (case check_type graph topic (preq_type request) p of
                        Inl r \<Rightarrow> Inl r
                      | Inr (type, cached) \<Rightarrow>
                          Inr \<lparr>rp_topic = topic, rp_type = type, rp_cached = cached, rp_message = preq_message request\<rparr>)))"

text \<open>
  The send: the cached publisher or a newly created one, unless shutdown has been observed.
  \<open>None\<close> is the path that returns or throws before the message is out.
\<close>

definition publish_send ::
  "(string \<Rightarrow> string \<Rightarrow> nat res) \<Rightarrow> (nat \<Rightarrow> bytes \<Rightarrow> unit res) \<Rightarrow> ready_publish \<Rightarrow> topic_publisher \<Rightarrow> nat option" where
  "publish_send create send r p =
     (case (case rp_cached r of Some h \<Rightarrow> Inr h | None \<Rightarrow> create (rp_topic r) (rp_type r)) of
        Inl e \<Rightarrow> None
      | Inr h \<Rightarrow>
          if tp_shutdown p then None
          else (case send h (rp_message r) of Inl e \<Rightarrow> None | Inr u \<Rightarrow> Some h))"

text \<open>The insertion after a first publication, under the lock. \<open>emplace\<close> keeps an existing entry.\<close>

definition cache_publisher :: "ready_publish \<Rightarrow> nat \<Rightarrow> topic_publisher \<Rightarrow> topic_publisher" where
  "cache_publisher r h p =
     (if rp_cached r \<noteq> None \<or> tp_shutdown p then p
      else if length (publishers p) < max_topics p \<and> lookup (publishers p) (rp_topic r) = None
      then p\<lparr>publishers := AList.update (rp_topic r) \<lparr>entry_type = rp_type r, entry_handle = h\<rparr> (publishers p)\<rparr>
      else p)"

definition shutdown_set :: "topic_publisher \<Rightarrow> topic_publisher" where
  "shutdown_set p = p\<lparr>tp_shutdown := True\<rparr>"

definition shutdown_clear :: "topic_publisher \<Rightarrow> topic_publisher" where
  "shutdown_clear p = p\<lparr>publishers := []\<rparr>"

text \<open>\<open>handlePayload\<close>: parse and hand over, or drop with a reason.\<close>

datatype payload_rejection = MissingIdentity | InvalidPublish exn

definition handlePayload ::
  "bytes json_parser \<Rightarrow> evp_decode_block \<Rightarrow> string \<Rightarrow> bytes \<Rightarrow> payload_rejection + publish_request" where
  "handlePayload parse evp requester payload =
     (if requester = [] then Inl MissingIdentity
      else (case topic_publish_parse parse evp payload of Inl e \<Rightarrow> Inl (InvalidPublish e) | Inr r \<Rightarrow> Inr r))"

section \<open>Interleavings\<close>

text \<open>
  The publisher with its in-flight calls: requests that passed the checks, and requests that
  have been sent but whose publisher is not yet cached. \<open>cleared\<close> records that the shutdown
  which set the terminal bit has emptied the cache; \<open>sent\<close> is the history of publications.
\<close>

record publisher_system =
  pub :: topic_publisher
  checked :: "ready_publish list"
  to_cache :: "(ready_publish \<times> nat) list"
  clear_due :: bool
  cleared :: bool
  sent :: "ready_publish list"

definition system_init :: "nat \<Rightarrow> publisher_system" where
  "system_init n = \<lparr>pub = publisher_init n, checked = [], to_cache = [], clear_due = False, cleared = False, sent = []\<rparr>"

inductive pub_step :: "expander \<Rightarrow> access_policy \<Rightarrow> publisher_system \<Rightarrow> publisher_system \<Rightarrow> bool"
  for expand policy where
  Check: "publish_check expand policy resolve graph request (pub s) = Inr r \<Longrightarrow>
    pub_step expand policy s (s\<lparr>checked := r # checked s\<rparr>)"
| Send: "r \<in> set (checked s) \<Longrightarrow> publish_send create send r (pub s) = Some h \<Longrightarrow>
    pub_step expand policy s (s\<lparr>checked := remove1 r (checked s), sent := sent s @ [r], to_cache := (r, h) # to_cache s\<rparr>)"
| Give_up: "r \<in> set (checked s) \<Longrightarrow> pub_step expand policy s (s\<lparr>checked := remove1 r (checked s)\<rparr>)"
| Store: "(r, h) \<in> set (to_cache s) \<Longrightarrow>
    pub_step expand policy s (s\<lparr>to_cache := remove1 (r, h) (to_cache s), pub := cache_publisher r h (pub s)\<rparr>)"
| Set_shutdown: "\<not> tp_shutdown (pub s) \<Longrightarrow> pub_step expand policy s (s\<lparr>pub := shutdown_set (pub s), clear_due := True\<rparr>)"
| Clear: "clear_due s \<Longrightarrow> pub_step expand policy s (s\<lparr>pub := shutdown_clear (pub s), clear_due := False, cleared := True\<rparr>)"

inductive_cases pub_stepE: "pub_step expand policy s s'"

section \<open>The cache\<close>

lemma cache_publisher_max: "max_topics (cache_publisher r h p) = max_topics p"
  by (simp add: cache_publisher_def)

text \<open>The publisher cache as a bounded cache: entries are offered by first publications.\<close>

definition offer :: "string \<Rightarrow> publisher_entry \<Rightarrow> topic_publisher \<Rightarrow> topic_publisher" where
  "offer topic e p = cache_publisher \<lparr>rp_topic = topic, rp_type = entry_type e, rp_cached = None, rp_message = []\<rparr> (entry_handle e) p"

definition cached_at :: "nat \<Rightarrow> topic_publisher \<Rightarrow> (string, publisher_entry) alist" where
  "cached_at n p = (if max_topics p = n then publishers p else [])"

interpretation pc: bounded_cache n "cached_at n" offer for n
  by unfold_locales
    (auto simp: cached_at_def offer_def cache_publisher_def al_simps length_update_new split: if_splits)

section \<open>Properties\<close>

text \<open>
  a publish request passes the checks exactly when the publisher is not shut down, the topic
  resolves, the policy allows publishing on the resolved topic, and the requested type is the
  type the topic is pinned to: the type of the cached publisher if there is one, and otherwise
  the only type the ROS graph knows for it, provided the cache has room.
\<close>

theorem publish_check_iff:
  "publish_check expand policy resolve graph request p = Inr r \<longleftrightarrow>
     \<not> tp_shutdown p \<and> resolve (ros_topic request) = Inr (rp_topic r) \<and> allows expand policy Publish (rp_topic r)
     \<and> rp_type r = preq_type request \<and> rp_message r = preq_message request
     \<and> (case lookup (publishers p) (rp_topic r) of
           Some e \<Rightarrow> entry_type e = preq_type request \<and> rp_cached r = Some (entry_handle e)
         | None \<Rightarrow> length (publishers p) < max_topics p \<and> lookup graph (rp_topic r) = Some [preq_type request]
                     \<and> rp_cached r = None)"
proof -
  have ct: "check_type graph topic req p = Inr (type, cached) \<longleftrightarrow> type = req \<and>
      (case lookup (publishers p) topic of
         Some e \<Rightarrow> entry_type e = req \<and> cached = Some (entry_handle e)
       | None \<Rightarrow> length (publishers p) < max_topics p \<and> lookup graph topic = Some [req] \<and> cached = None)"
    for topic req type cached
    using requireSingleType_Inr_iff [of graph topic "''topic''" req]
    by (auto simp: check_type_def split: option.split sum.split)
  have "publish_check expand policy resolve graph request p = Inr r \<longleftrightarrow>
      \<not> tp_shutdown p \<and> resolve (ros_topic request) = Inr (rp_topic r) \<and> allows expand policy Publish (rp_topic r)
      \<and> check_type graph (rp_topic r) (preq_type request) p = Inr (rp_type r, rp_cached r)
      \<and> rp_message r = preq_message request"
    by (cases r) (auto simp: publish_check_def split: sum.splits prod.splits)
  then show ?thesis unfolding ct by auto
qed

definition entry_origin :: "ready_publish list \<Rightarrow> string \<Rightarrow> publisher_entry \<Rightarrow> bool" where
  "entry_origin rs topic e \<longleftrightarrow> (\<exists>r \<in> set rs. rp_topic r = topic \<and> rp_type r = entry_type e \<and> rp_cached r = None)"

definition system_inv :: "expander \<Rightarrow> access_policy \<Rightarrow> nat \<Rightarrow> publisher_system \<Rightarrow> bool" where
  "system_inv expand policy n s \<longleftrightarrow>
     max_topics (pub s) = n \<and> distinct (keys (publishers (pub s))) \<and> length (publishers (pub s)) \<le> n
   \<and> (clear_due s \<longrightarrow> tp_shutdown (pub s) \<and> \<not> cleared s) \<and> (cleared s \<longrightarrow> tp_shutdown (pub s) \<and> publishers (pub s) = [])
   \<and> (\<forall>r \<in> set (checked s) \<union> set (sent s). allows expand policy Publish (rp_topic r))
   \<and> (\<forall>(r, h) \<in> set (to_cache s). r \<in> set (sent s))
   \<and> al_all (entry_origin (sent s)) (publishers (pub s))"

lemma system_inv_init: "system_inv expand policy n (system_init n)"
  by (simp add: system_inv_def system_init_def publisher_init_def)

lemma entry_origin_mono: "entry_origin rs t e \<Longrightarrow> entry_origin (rs @ [r]) t e"
  by (auto simp: entry_origin_def)

lemma publish_check_allowed:
  "publish_check expand policy resolve graph request p = Inr r \<Longrightarrow> allows expand policy Publish (rp_topic r)"
  by (auto simp: publish_check_def split: if_splits sum.splits)

lemma cache_publisher_inv:
  assumes "distinct (keys (publishers p))" "length (publishers p) \<le> max_topics p"
    "al_all (entry_origin rs) (publishers p)" "r \<in> set rs"
  shows "distinct (keys (publishers (cache_publisher r h p))) \<and> length (publishers (cache_publisher r h p)) \<le> max_topics p
    \<and> al_all (entry_origin rs) (publishers (cache_publisher r h p))"
proof -
  have "rp_cached r = None \<Longrightarrow> entry_origin rs (rp_topic r) \<lparr>entry_type = rp_type r, entry_handle = h\<rparr>"
    using assms(4) by (auto simp: entry_origin_def)
  with assms show ?thesis
    by (auto simp: cache_publisher_def al_simps length_update_new intro: al_all_update)
qed

lemma system_inv_step:
  assumes "pub_step expand policy s s'" "system_inv expand policy n s"
  shows "system_inv expand policy n s'"
  using assms
proof (cases rule: pub_step.cases)
  case (Check resolve graph request r)
  with assms(2) publish_check_allowed show ?thesis by (auto simp: system_inv_def)
next
  case (Send r create send h)
  with assms(2) show ?thesis
    by (auto simp: system_inv_def intro: al_all_mono entry_origin_mono dest: subsetD [OF set_remove1_subset])
next
  case (Give_up r)
  with assms(2) show ?thesis by (auto simp: system_inv_def dest: subsetD [OF set_remove1_subset])
next
  case (Store r h)
  then have "r \<in> set (sent s)" using assms(2) by (auto simp: system_inv_def)
  with assms(2) have "distinct (keys (publishers (cache_publisher r h (pub s)))) \<and> length (publishers (cache_publisher r h (pub s))) \<le> n
    \<and> al_all (entry_origin (sent s)) (publishers (cache_publisher r h (pub s)))"
    using cache_publisher_inv [of "pub s" "sent s" r h] by (auto simp: system_inv_def)
  moreover have "tp_shutdown (cache_publisher r h (pub s)) = tp_shutdown (pub s)"
    "cleared s \<Longrightarrow> publishers (cache_publisher r h (pub s)) = []"
    using assms(2) by (auto simp: cache_publisher_def system_inv_def)
  ultimately show ?thesis using Store assms(2)
    by (auto simp: system_inv_def cache_publisher_max dest: subsetD [OF set_remove1_subset])
qed (auto simp: system_inv_def shutdown_set_def shutdown_clear_def)


text \<open>A publication, its caching, and a shutdown, under a policy that allows everything.\<close>

definition open_policy :: access_policy where
  "open_policy = make_policy (\<lambda>n q r s. Inr n)
     \<lparr>publish_cfg = \<lparr>allow = [''*''], deny = []\<rparr>, subscribe_cfg = \<lparr>allow = [], deny = []\<rparr>,
      service_cfg = \<lparr>allow = [], deny = []\<rparr>\<rparr>"

definition sample_ready :: ready_publish where
  "sample_ready = \<lparr>rp_topic = ''/cmd'', rp_type = ''p/msg/T'', rp_cached = None, rp_message = [1]\<rparr>"

lemma sample_publication:
  "(pub_step (\<lambda>n q r s. Inr n) open_policy)\<^sup>*\<^sup>* (system_init 1)
     \<lparr>pub = \<lparr>tp_shutdown = False, max_topics = 1, publishers = [(''/cmd'', \<lparr>entry_type = ''p/msg/T'', entry_handle = 7\<rparr>)]\<rparr>,
      checked = [], to_cache = [], clear_due = False, cleared = False, sent = [sample_ready]\<rparr>"
  (is "?step\<^sup>*\<^sup>* _ ?end")
proof -
  let ?req = "\<lparr>ros_topic = ''/cmd'', preq_type = ''p/msg/T'', preq_message = [1]\<rparr>"
  let ?s1 = "(system_init 1)\<lparr>checked := [sample_ready]\<rparr>"
  let ?s2 = "(system_init 1)\<lparr>sent := [sample_ready], to_cache := [(sample_ready, 7)]\<rparr>"
  have "publish_check (\<lambda>n q r s. Inr n) open_policy Inr [(''/cmd'', [''p/msg/T''])] ?req (pub (system_init 1)) = Inr sample_ready"
    by code_simp
  then have "?step (system_init 1) ?s1"
    using pub_step.Check [of "\<lambda>n q r s. Inr n" open_policy Inr _ _ "system_init 1"] by (simp add: system_init_def)
  moreover have "?step ?s1 ?s2"
    using pub_step.Send [of sample_ready ?s1 "\<lambda>t i. Inr 7" "\<lambda>h m. Inr ()" 7 "\<lambda>n q r s. Inr n" open_policy]
    by (simp add: system_init_def publisher_init_def publish_send_def sample_ready_def)
  moreover have "?step ?s2 ?end"
    using pub_step.Store [of sample_ready 7 ?s2 "\<lambda>n q r s. Inr n" open_policy]
    by (simp add: system_init_def publisher_init_def cache_publisher_def sample_ready_def)
  ultimately show ?thesis by (meson converse_rtranclp_into_rtranclp rtranclp.rtrancl_refl)
qed


end
