(* ===== verification/Service_Caller.thy ===== *)
theory Service_Caller
  imports Caches Settlement Protocol_Requests
begin

text \<open>
  \<open>RosServiceCaller\<close> (src/src/ros_service_caller.cpp): service calls with a per-requester quota of
  inflight calls, a bounded client cache, deadlines and settlement of every promise. Each
  operation is what runs under \<open>state_mutex\<close>. What rclcpp and rcl do (the graph, type support,
  client construction, deserialization, sending, timers) is the environment record, chosen anew
  at every call. A promise is identified by a number; a client by its handle.
\<close>

section \<open>State\<close>

datatype call_outcome = Responded string string bytes | CallFailed exn

record inflight_call =
  ic_service :: string
  ic_type :: string
  ic_requester :: string
  ic_promise :: nat
  ic_deadline :: time

type_synonym inflight_key = "nat \<times> int"

record service_caller =
  sc_closed :: bool
  sc_attached :: bool
  cached_clients :: "(string, nat) alist"
  type_supports :: "nat type_support_cache"
  inflight_calls :: "(inflight_key, inflight_call) alist"
  inflight_counts :: "(string, int) alist"
  wait_clients :: "nat list"
  wait_deadline :: "time option"
  wake_count :: nat
  call_outcomes :: "(nat \<times> call_outcome) list"
  call_promises :: "nat list"

record service_env =
  env_graph :: "(string, string list) alist"
  env_load :: "string \<Rightarrow> nat res"
  env_client :: "string \<Rightarrow> string \<Rightarrow> nat \<Rightarrow> nat res"
  env_build :: "nat \<Rightarrow> bytes \<Rightarrow> unit res"
  env_send :: "nat \<Rightarrow> bytes \<Rightarrow> int res"
  env_now :: time
  env_sync :: "unit res"

definition kDefaultTimeout :: time where
  "kDefaultTimeout = ms 2000"

definition kMaxInflightPerRequester :: int where
  "kMaxInflightPerRequester = 4"

definition kMaxCachedServiceClients :: nat where
  "kMaxCachedServiceClients = 256"

definition caller_init :: service_caller where
  "caller_init = \<lparr>sc_closed = False, sc_attached = True, cached_clients = [],
     type_supports = \<lparr>ts_entries = [], ts_failures = []\<rparr>, inflight_calls = [], inflight_counts = [],
     wait_clients = [], wait_deadline = None, wake_count = 0, call_outcomes = [], call_promises = []\<rparr>"

section \<open>Quota\<close>

definition reserveInflightSlot :: "string \<Rightarrow> (string, int) alist \<Rightarrow> (string, int) alist res" where
  "reserveInflightSlot requester counts =
     (let current = (case lookup counts requester of None \<Rightarrow> 0 | Some n \<Rightarrow> n) in
      if current \<ge> kMaxInflightPerRequester then
        Inl (Runtime_error ''Requester identity service call limit reached.'')
      else Inr (AList.update requester (current + 1) counts))"

definition releaseInflightSlot :: "string \<Rightarrow> (string, int) alist \<Rightarrow> (string, int) alist" where
  "releaseInflightSlot requester counts =
     (case lookup counts requester of
        None \<Rightarrow> counts
      | Some n \<Rightarrow> if n \<le> 1 then AList.delete requester counts
                  else AList.update requester (n - 1) counts)"

section \<open>Settlement\<close>

definition set_promise :: "nat \<Rightarrow> call_outcome \<Rightarrow> service_caller \<Rightarrow> service_caller" where
  "set_promise p r s = s\<lparr>call_outcomes := call_outcomes s @ [(p, r)]\<rparr>"

text \<open>\<open>settle\<close>: set the promise, release the requester's slot, erase the call.\<close>

definition settle_call :: "inflight_key \<Rightarrow> inflight_call \<Rightarrow> call_outcome \<Rightarrow> service_caller \<Rightarrow> service_caller" where
  "settle_call k c r s =
     (let s' = set_promise (ic_promise c) r s in
      s'\<lparr>inflight_counts := releaseInflightSlot (ic_requester c) (inflight_counts s'),
         inflight_calls := AList.delete k (inflight_calls s')\<rparr>)"

text \<open>The loop of \<open>failMatchingCalls\<close> over the calls present when it starts.\<close>

fun fail_calls :: "(inflight_call \<Rightarrow> bool) \<Rightarrow> exn \<Rightarrow> (inflight_key \<times> inflight_call) list \<Rightarrow> service_caller \<Rightarrow> service_caller" where
  "fail_calls should_fail e [] s = s"
| "fail_calls should_fail e ((k, c) # kcs) s =
     fail_calls should_fail e kcs (if should_fail c then settle_call k c (CallFailed e) s else s)"

definition failMatchingCalls :: "(inflight_call \<Rightarrow> bool) \<Rightarrow> string \<Rightarrow> service_caller \<Rightarrow> service_caller" where
  "failMatchingCalls should_fail msg s = fail_calls should_fail (Runtime_error msg) (inflight_calls s) s"

section \<open>The waitable\<close>

text \<open>The loop over \<open>inflight_calls\<close> that finds the earliest deadline.\<close>

fun earliest_deadline :: "(inflight_key \<times> inflight_call) list \<Rightarrow> time option \<Rightarrow> time option" where
  "earliest_deadline [] best = best"
| "earliest_deadline ((k, c) # kcs) best =
     earliest_deadline kcs
       (case best of None \<Rightarrow> Some (ic_deadline c)
        | Some d \<Rightarrow> if ic_deadline c < d then Some (ic_deadline c) else best)"

text \<open>
  \<open>syncWaitableLocked\<close>: publishes the clients, arms the deadline timer and wakes the executor.
  A failing rcl timer call throws after the clients were published.
\<close>

definition syncWaitableLocked :: "service_env \<Rightarrow> bool \<Rightarrow> service_caller \<Rightarrow> unit res \<times> service_caller" where
  "syncWaitableLocked env wake s =
     (if \<not> sc_attached s then (Inr (), s)
      else (let s' = s\<lparr>wait_clients := map snd (cached_clients s)\<rparr> in
            case env_sync env of
              Inl e \<Rightarrow> (Inl e, s')
            | Inr _ \<Rightarrow>
                (let s'' = s'\<lparr>wait_deadline := earliest_deadline (inflight_calls s) None\<rparr> in
                 (Inr (), if wake then s''\<lparr>wake_count := wake_count s'' + 1\<rparr> else s''))))"

section \<open>Calls\<close>

definition getClient :: "service_env \<Rightarrow> string \<Rightarrow> string \<Rightarrow> service_caller \<Rightarrow> nat res \<times> service_caller" where
  "getClient env service itype s =
     (let key = service @ '':'' @ itype in
      case lookup (cached_clients s) key of
        Some c \<Rightarrow> (Inr c, s)
      | None \<Rightarrow>
          if length (cached_clients s) \<ge> kMaxCachedServiceClients then
            (Inl (Runtime_error ''Service client cache limit reached.''), s)
          else (let (support, ts) = type_support_get 256 (env_load env) itype (type_supports s);
                    s' = s\<lparr>type_supports := ts\<rparr>
                in case support of
                     Inl e \<Rightarrow> (Inl e, s')
                   | Inr h \<Rightarrow>
                       (case env_client env service itype h of
                          Inl e \<Rightarrow> (Inl e, s')
                        | Inr c \<Rightarrow> (Inr c, s'\<lparr>cached_clients := AList.update key c (cached_clients s')\<rparr>))))"

text \<open>From the client to the sent request; errors are wrapped as the code wraps them.\<close>

definition start_request ::
  "service_env \<Rightarrow> service_call_request \<Rightarrow> string \<Rightarrow> service_caller \<Rightarrow> inflight_key res \<times> service_caller" where
  "start_request env request itype s =
     (let (client, s') = getClient env (sreq_name request) itype s in
      case client of
        Inl e \<Rightarrow> (Inl (Runtime_error (''Failed creating service client: '' @ what e)), s')
      | Inr c \<Rightarrow>
          (case env_build env c (sreq_payload request) of
             Inl e \<Rightarrow> (Inl (Runtime_error (''Failed to build service request: '' @ what e)), s')
           | Inr _ \<Rightarrow>
               (case env_send env c (sreq_payload request) of
                  Inl e \<Rightarrow> (Inl e, s')
                | Inr n \<Rightarrow> (Inr (c, n), s'))))"

definition call_timeout :: "service_call_request \<Rightarrow> time" where
  "call_timeout request =
     (case sreq_timeout request of Some t \<Rightarrow> if t > 0 then ms t else kDefaultTimeout | None \<Rightarrow> kDefaultTimeout)"

text \<open>
  The part of \<open>call\<close> under \<open>state_mutex\<close>, after the interface type is known. \<open>Inl\<close> is the
  exception caught at the end; the reservation's destructor releases the slot on every path that
  does not commit. The flag says whether the promise had already been moved into the map.
\<close>

definition call_locked ::
  "service_env \<Rightarrow> string \<Rightarrow> nat \<Rightarrow> service_call_request \<Rightarrow> string \<Rightarrow> service_caller \<Rightarrow> (exn \<times> bool) option \<times> service_caller" where
  "call_locked env requester p request itype s =
     (if sc_closed s then (Some (Runtime_error ''Service caller is shut down.'', False), s)
      else (case reserveInflightSlot requester (inflight_counts s) of
        Inl e \<Rightarrow> (Some (e, False), s)
      | Inr counts \<Rightarrow>
          (let (key, s') = start_request env request itype (s\<lparr>inflight_counts := counts\<rparr>);
               released = s'\<lparr>inflight_counts := releaseInflightSlot requester (inflight_counts s')\<rparr>
           in case key of
                Inl e \<Rightarrow> (Some (e, False), released)
              | Inr k \<Rightarrow>
                  if lookup (inflight_calls s') k \<noteq> None then
                    (Some (Runtime_error ''Duplicate pending service call key.'', False), released)
                  else
                    (let c = \<lparr>ic_service = sreq_name request, ic_type = itype, ic_requester = requester,
                              ic_promise = p, ic_deadline = env_now env + call_timeout request\<rparr>;
                         s'' = s'\<lparr>inflight_calls := AList.update k c (inflight_calls s')\<rparr>
                     in (case syncWaitableLocked env True s'' of
                           (Inr _, t) \<Rightarrow> (None, t)
                         | (Inl e, t) \<Rightarrow> (Some (e, True), t))))))"

text \<open>
  \<open>call\<close>: \<open>closed_at_entry\<close> is what \<open>isClosed\<close> answered before the lock. The result is the thrown
  exception, if any, of the call itself; the future's value is in \<open>call_outcomes\<close>. Setting an
  exception on a promise that was moved away throws \<open>std::future_error\<close>.
\<close>

definition call ::
  "service_env \<Rightarrow> bool \<Rightarrow> string \<Rightarrow> nat \<Rightarrow> service_call_request \<Rightarrow> service_caller \<Rightarrow> unit res \<times> service_caller" where
  "call env closed_at_entry requester p request s0 =
     (let s = s0\<lparr>call_promises := p # call_promises s0\<rparr> in
      if closed_at_entry then (Inr (), set_promise p (CallFailed (Runtime_error ''Service caller is shut down.'')) s)
      else if requester = [] then (Inr (), set_promise p (CallFailed (Invalid_argument ''requester_identity is required'')) s)
      else (case (if sreq_type request = [] then requireSingleType (env_graph env) (sreq_name request) ''service''
                  else Inr (sreq_type request)) of
        Inl e \<Rightarrow> (Inr (), set_promise p (CallFailed e) s)
      | Inr itype \<Rightarrow>
          (case call_locked env requester p request itype s of
             (None, t) \<Rightarrow> (Inr (), t)
           | (Some (e, moved), t) \<Rightarrow>
               if moved then (Inl (Logic_error ''std::future_error: No associated state''), t)
               else (Inr (), set_promise p (CallFailed e) t))))"

section \<open>Settling operations\<close>

definition cancelForRequester :: "service_env \<Rightarrow> string \<Rightarrow> service_caller \<Rightarrow> service_caller" where
  "cancelForRequester env requester s =
     (if requester = [] then s
      else snd (syncWaitableLocked env True
             (failMatchingCalls (\<lambda>c. ic_requester c = requester) ''Requester identity disconnected.'' s)))"

text \<open>\<open>shutdown\<close>: the gate closes, the waitable detaches, then every inflight call fails.\<close>

definition close_caller :: "service_caller \<Rightarrow> service_caller" where
  "close_caller s = s\<lparr>sc_closed := True\<rparr>"

definition detachWaitable :: "service_caller \<Rightarrow> service_caller" where
  "detachWaitable s = s\<lparr>sc_attached := False\<rparr>"

definition shutdown_calls :: "service_caller \<Rightarrow> service_caller" where
  "shutdown_calls s = (failMatchingCalls (\<lambda>c. True) ''Service caller shut down.'' s)\<lparr>cached_clients := []\<rparr>"

text \<open>
  The responses the executor takes, in the order the loop over the cached clients takes them: the
  client, the sequence number of the header, and the serialized response or the error of its
  conversion.
\<close>

fun drainResponses :: "(inflight_key \<times> bytes res) list \<Rightarrow> service_caller \<Rightarrow> service_caller" where
  "drainResponses [] s = s"
| "drainResponses ((k, response) # rs) s =
     (case lookup (inflight_calls s) k of
        None \<Rightarrow> drainResponses rs s
      | Some c \<Rightarrow>
          drainResponses rs (settle_call k c
            (case response of
               Inr payload \<Rightarrow> Responded (ic_service c) (ic_type c) payload
             | Inl e \<Rightarrow> CallFailed (Runtime_error (''Failed to convert service response: '' @ what e))) s))"

definition executeWaitable :: "service_env \<Rightarrow> (inflight_key \<times> bytes res) list \<Rightarrow> service_caller \<Rightarrow> service_caller" where
  "executeWaitable env responses s =
     (if sc_closed s then s
      else snd (syncWaitableLocked env False
             (failMatchingCalls (\<lambda>c. env_now env \<ge> ic_deadline c) ''Service call timed out.''
               (drainResponses responses s))))"

section \<open>Invariant\<close>

definition requesters :: "(inflight_key, inflight_call) alist \<Rightarrow> string multiset" where
  "requesters al = image_mset (\<lambda>(k, c). ic_requester c) (mset al)"

definition promises :: "(inflight_key, inflight_call) alist \<Rightarrow> nat multiset" where
  "promises al = image_mset (\<lambda>(k, c). ic_promise c) (mset al)"

definition slot :: "nat \<Rightarrow> int option" where
  "slot n = (case n of 0 \<Rightarrow> None | Suc m \<Rightarrow> Some (int m + 1))"

definition counts_ok :: "(string, int) alist \<Rightarrow> string multiset \<Rightarrow> bool" where
  "counts_ok counts rs \<longleftrightarrow> (\<forall>r. lookup counts r = slot (count rs r))"

definition caller_inv :: "service_caller \<Rightarrow> bool" where
  "caller_inv s \<longleftrightarrow>
     distinct (keys (inflight_calls s)) \<and> counts_ok (inflight_counts s) (requesters (inflight_calls s))
   \<and> (\<forall>r. count (requesters (inflight_calls s)) r \<le> 4)
   \<and> distinct (keys (cached_clients s)) \<and> length (cached_clients s) \<le> kMaxCachedServiceClients"

definition settled_promises :: "service_caller \<Rightarrow> nat multiset" where
  "settled_promises s = mset (map fst (call_outcomes s))"

definition pending_promises :: "service_caller \<Rightarrow> nat multiset" where
  "pending_promises s = promises (inflight_calls s)"

definition known_promises :: "service_caller \<Rightarrow> nat multiset" where
  "known_promises s = pending_promises s + settled_promises s"

lemma slot_simps [simp]: "slot 0 = None" "slot (Suc n) = Some (int n + 1)"
  by (simp_all add: slot_def)

lemma reserve_counts:
  assumes "counts_ok counts rs" "reserveInflightSlot r counts = Inr counts'"
  shows "counts_ok counts' (add_mset r rs) \<and> count rs r < 4"
proof -
  have "lookup counts r = slot (count rs r)" using assms(1) by (simp add: counts_ok_def)
  then have cur: "(case lookup counts r of None \<Rightarrow> 0 | Some n \<Rightarrow> n) = int (count rs r)"
    by (cases "count rs r") simp_all
  then have "counts' = AList.update r (int (count rs r) + 1) counts" "count rs r < 4"
    using assms(2) by (auto simp: reserveInflightSlot_def kMaxInflightPerRequester_def Let_def split: if_splits)
  with assms(1) show ?thesis by (simp add: counts_ok_def al_simps)
qed

lemma release_counts:
  assumes "counts_ok counts (add_mset r rs)"
  shows "counts_ok (releaseInflightSlot r counts) rs"
  unfolding counts_ok_def
proof
  fix x
  have "lookup counts r = Some (int (count rs r) + 1)" and x: "x \<noteq> r \<Longrightarrow> lookup counts x = slot (count rs x)"
    using assms by (auto simp: counts_ok_def split: if_splits)
  then show "lookup (releaseInflightSlot r counts) x = slot (count rs x)"
    by (cases "count rs r") (auto simp: releaseInflightSlot_def al_simps)
qed

lemma settle_call_inv:
  assumes "caller_inv s" "lookup (inflight_calls s) k = Some c"
  shows "caller_inv (settle_call k c r s) \<and> known_promises (settle_call k c r s) = known_promises s"
proof -
  let ?al = "AList.delete k (inflight_calls s)"
  have m: "mset (inflight_calls s) = add_mset (k, c) (mset ?al)"
    using assms by (intro mset_delete) (simp_all add: caller_inv_def)
  then have rq: "requesters (inflight_calls s) = add_mset (ic_requester c) (requesters ?al)"
    and pr: "promises (inflight_calls s) = add_mset (ic_promise c) (promises ?al)"
    by (simp_all add: requesters_def promises_def)
  have "counts_ok (releaseInflightSlot (ic_requester c) (inflight_counts s)) (requesters ?al)"
    using assms(1) by (intro release_counts) (simp add: caller_inv_def rq)
  moreover have "count (requesters ?al) x \<le> 4" for x
    using assms(1) unfolding caller_inv_def rq by (metis count_add_mset le_SucI Suc_leD)
  ultimately show ?thesis
    using assms(1) pr
    by (simp add: caller_inv_def settle_call_def set_promise_def known_promises_def pending_promises_def
        settled_promises_def al_simps Let_def)
qed

lemma settle_call_frame:
  "inflight_calls (settle_call k c r s) = AList.delete k (inflight_calls s)"
  "sc_closed (settle_call k c r s) = sc_closed s" "sc_attached (settle_call k c r s) = sc_attached s"
  "call_promises (settle_call k c r s) = call_promises s" "cached_clients (settle_call k c r s) = cached_clients s"
  "call_outcomes (settle_call k c r s) = call_outcomes s @ [(ic_promise c, r)]"
  by (simp_all add: settle_call_def set_promise_def Let_def)

lemma fail_calls_frame:
  "sc_closed (fail_calls P e kcs s) = sc_closed s" "sc_attached (fail_calls P e kcs s) = sc_attached s"
  "call_promises (fail_calls P e kcs s) = call_promises s" "cached_clients (fail_calls P e kcs s) = cached_clients s"
  by (induction kcs arbitrary: s) (auto simp: settle_call_frame split: if_splits)

lemma fail_calls_inv:
  assumes "caller_inv s" "distinct (map fst kcs)" "\<forall>(k, c) \<in> set kcs. lookup (inflight_calls s) k = Some c"
  shows "caller_inv (fail_calls P e kcs s) \<and> known_promises (fail_calls P e kcs s) = known_promises s
    \<and> (\<forall>k. lookup (inflight_calls (fail_calls P e kcs s)) k =
         (if \<exists>c. (k, c) \<in> set kcs \<and> P c then None else lookup (inflight_calls s) k))"
  using assms
proof (induction kcs arbitrary: s)
  case (Cons kc kcs)
  obtain k c where kc: "kc = (k, c)" by (cases kc)
  show ?case
  proof (cases "P c")
    case True
    let ?s = "settle_call k c (CallFailed e) s"
    have inv: "caller_inv ?s" "known_promises ?s = known_promises s"
      using settle_call_inv [of s k c] Cons.prems kc by auto
    have "\<forall>(k', c') \<in> set kcs. lookup (inflight_calls ?s) k' = Some c'"
      using Cons.prems kc by (auto simp: settle_call_frame al_simps rev_image_eqI)
    with Cons.IH [of ?s] inv Cons.prems kc True show ?thesis
      by (auto simp: settle_call_frame al_simps)
  next
    case False
    with Cons.IH [of s] Cons.prems kc show ?thesis by (auto intro: rev_image_eqI)
  qed
qed simp

lemma failMatchingCalls_inv:
  assumes "caller_inv s"
  shows "caller_inv (failMatchingCalls P m s) \<and> known_promises (failMatchingCalls P m s) = known_promises s
    \<and> (\<forall>k. lookup (inflight_calls (failMatchingCalls P m s)) k =
         (case lookup (inflight_calls s) k of None \<Rightarrow> None | Some c \<Rightarrow> if P c then None else Some c))"
proof -
  have d: "distinct (keys (inflight_calls s))" using assms by (simp add: caller_inv_def)
  then have l: "\<forall>(k, c) \<in> set (inflight_calls s). lookup (inflight_calls s) k = Some c" by auto
  from fail_calls_inv [OF assms d l, of P "Runtime_error m"] d show ?thesis
    unfolding failMatchingCalls_def by (auto split: option.split dest: map_of_SomeD map_of_is_SomeI [OF d])
qed

lemma failMatchingCalls_frame:
  "sc_closed (failMatchingCalls P m s) = sc_closed s" "sc_attached (failMatchingCalls P m s) = sc_attached s"
  "call_promises (failMatchingCalls P m s) = call_promises s" "cached_clients (failMatchingCalls P m s) = cached_clients s"
  by (simp_all add: failMatchingCalls_def fail_calls_frame)

lemma drainResponses_inv:
  "caller_inv s \<Longrightarrow> caller_inv (drainResponses rs s) \<and> known_promises (drainResponses rs s) = known_promises s
     \<and> call_promises (drainResponses rs s) = call_promises s"
  by (induction rs s rule: drainResponses.induct)
    (auto simp: settle_call_inv settle_call_frame split: option.split)

text \<open>Synchronizing the waitable touches neither the calls nor the quota.\<close>

lemma sync_frame:
  "inflight_calls (snd (syncWaitableLocked env w s)) = inflight_calls s"
  "inflight_counts (snd (syncWaitableLocked env w s)) = inflight_counts s"
  "cached_clients (snd (syncWaitableLocked env w s)) = cached_clients s"
  "call_outcomes (snd (syncWaitableLocked env w s)) = call_outcomes s"
  "call_promises (snd (syncWaitableLocked env w s)) = call_promises s"
  "sc_closed (snd (syncWaitableLocked env w s)) = sc_closed s"
  by (simp_all add: syncWaitableLocked_def Let_def split: sum.split)

lemma sync_inv [simp]:
  "caller_inv (snd (syncWaitableLocked env w s)) = caller_inv s"
  "known_promises (snd (syncWaitableLocked env w s)) = known_promises s"
  by (simp_all add: caller_inv_def known_promises_def pending_promises_def settled_promises_def sync_frame)

lemma getClient_frame:
  assumes "getClient env service itype s = (r, s')"
  shows "inflight_calls s' = inflight_calls s" "inflight_counts s' = inflight_counts s"
    "call_outcomes s' = call_outcomes s" "call_promises s' = call_promises s"
    "distinct (keys (cached_clients s)) \<Longrightarrow> distinct (keys (cached_clients s'))"
    "length (cached_clients s) \<le> kMaxCachedServiceClients \<Longrightarrow> length (cached_clients s') \<le> kMaxCachedServiceClients"
  using assms
  by (auto simp: getClient_def al_simps length_update_new Let_def split: option.splits if_splits prod.splits sum.splits)

lemma start_request_frame:
  assumes "start_request env request itype s = (r, s')"
  shows "inflight_calls s' = inflight_calls s" "inflight_counts s' = inflight_counts s"
    "call_outcomes s' = call_outcomes s" "call_promises s' = call_promises s"
    "distinct (keys (cached_clients s)) \<Longrightarrow> distinct (keys (cached_clients s'))"
    "length (cached_clients s) \<le> kMaxCachedServiceClients \<Longrightarrow> length (cached_clients s') \<le> kMaxCachedServiceClients"
proof -
  obtain c t where g: "getClient env (sreq_name request) itype s = (c, t)" by fastforce
  then have "s' = t" using assms by (auto simp: start_request_def split: sum.splits)
  with getClient_frame [OF g] show "inflight_calls s' = inflight_calls s" "inflight_counts s' = inflight_counts s"
    "call_outcomes s' = call_outcomes s" "call_promises s' = call_promises s"
    "distinct (keys (cached_clients s)) \<Longrightarrow> distinct (keys (cached_clients s'))"
    "length (cached_clients s) \<le> kMaxCachedServiceClients \<Longrightarrow> length (cached_clients s') \<le> kMaxCachedServiceClients"
    by simp_all
qed

text \<open>The locked part either registers the promise or leaves the calls and the quota as they were.\<close>

lemma call_locked_inv:
  assumes inv: "caller_inv s" and c: "call_locked env requester p request itype s = (r, t)"
  shows "caller_inv t \<and> call_promises t = call_promises s \<and>
    known_promises t = (if r = None \<or> (\<exists>e. r = Some (e, True)) then add_mset p (known_promises s) else known_promises s)"
proof (cases "sc_closed s \<or> (\<exists>e. reserveInflightSlot requester (inflight_counts s) = Inl e)")
  case True
  then have "t = s" "\<exists>e. r = Some (e, False)"
    using c by (cases "sc_closed s"; auto simp: call_locked_def)+
  with inv show ?thesis by auto
next
  case False
  then obtain counts where res: "reserveInflightSlot requester (inflight_counts s) = Inr counts"
    by (cases "reserveInflightSlot requester (inflight_counts s)") auto
  obtain key s' where st: "start_request env request itype (s\<lparr>inflight_counts := counts\<rparr>) = (key, s')" by fastforce
  note fr = start_request_frame [OF st, simplified]
  have ok: "counts_ok counts (add_mset requester (requesters (inflight_calls s)))"
    "count (requesters (inflight_calls s)) requester < 4"
    using reserve_counts [OF _ res] inv by (auto simp: caller_inv_def)
  let ?rel = "s'\<lparr>inflight_counts := releaseInflightSlot requester (inflight_counts s')\<rparr>"
  have rel: "caller_inv ?rel" "known_promises ?rel = known_promises s"
    using inv fr release_counts [OF ok(1)]
    by (auto simp: caller_inv_def known_promises_def pending_promises_def settled_promises_def)
  show ?thesis
  proof (cases "\<exists>k. key = Inr k \<and> lookup (inflight_calls s') k = None")
    case True
    then obtain k where k: "key = Inr k" "lookup (inflight_calls s') k = None" by blast
    let ?c = "\<lparr>ic_service = sreq_name request, ic_type = itype, ic_requester = requester,
                ic_promise = p, ic_deadline = env_now env + call_timeout request\<rparr>"
    let ?s = "s'\<lparr>inflight_calls := AList.update k ?c (inflight_calls s')\<rparr>"
    have m: "mset (AList.update k ?c (inflight_calls s')) = add_mset (k, ?c) (mset (inflight_calls s))"
      using mset_update_new [OF k(2)] fr(1) by simp
    have "count (add_mset requester (requesters (inflight_calls s))) x \<le> 4" for x
      using inv ok(2) by (auto simp: caller_inv_def)
    then have i: "caller_inv ?s" "known_promises ?s = add_mset p (known_promises s)"
      using inv fr ok m
      by (auto simp: caller_inv_def requesters_def known_promises_def pending_promises_def settled_promises_def
          promises_def al_simps)
    have "t = snd (syncWaitableLocked env True ?s)" "r = None \<or> (\<exists>e. r = Some (e, True))"
      using c False res st k by (auto simp: call_locked_def Let_def split: prod.splits sum.splits)
    with i fr show ?thesis by (auto simp: sync_frame)
  next
    case fails: False
    then have "t = ?rel" "\<exists>e. r = Some (e, False)"
      using c False res st by (cases key; auto simp: call_locked_def Let_def)+
    with rel fr show ?thesis by auto
  qed
qed

lemma set_promise_inv:
  "caller_inv (set_promise p r s) = caller_inv s"
  "known_promises (set_promise p r s) = add_mset p (known_promises s)"
  "call_promises (set_promise p r s) = call_promises s"
  by (simp_all add: set_promise_def caller_inv_def known_promises_def pending_promises_def settled_promises_def)

lemma promise_frame:
  "caller_inv (s\<lparr>call_promises := ps\<rparr>) = caller_inv s"
  "known_promises (s\<lparr>call_promises := ps\<rparr>) = known_promises s"
  by (simp_all add: caller_inv_def known_promises_def pending_promises_def settled_promises_def)

lemma call_inv:
  assumes "caller_inv s"
  shows "caller_inv (snd (call env c0 requester p request s))
    \<and> call_promises (snd (call env c0 requester p request s)) = p # call_promises s
    \<and> known_promises (snd (call env c0 requester p request s)) = add_mset p (known_promises s)"
proof -
  let ?s = "s\<lparr>call_promises := p # call_promises s\<rparr>"
  have inv: "caller_inv ?s" "known_promises ?s = known_promises s" using assms by (simp_all add: promise_frame)
  show ?thesis
  proof (cases "c0 \<or> requester = [] \<or> (\<exists>e. (if sreq_type request = []
        then requireSingleType (env_graph env) (sreq_name request) ''service'' else Inr (sreq_type request)) = Inl e)")
    case True
    then have "\<exists>r. snd (call env c0 requester p request s) = set_promise p r ?s"
      by (auto simp: call_def Let_def)
    with inv show ?thesis by (auto simp: set_promise_inv)
  next
    case False
    then obtain itype where ty: "(if sreq_type request = []
        then requireSingleType (env_graph env) (sreq_name request) ''service'' else Inr (sreq_type request)) = Inr itype"
      by (cases "(if sreq_type request = []
        then requireSingleType (env_graph env) (sreq_name request) ''service'' else Inr (sreq_type request))") auto
    obtain r t where cl: "call_locked env requester p request itype ?s = (r, t)" by fastforce
    have "snd (call env c0 requester p request s) =
        (case r of None \<Rightarrow> t | Some (e, moved) \<Rightarrow> if moved then t else set_promise p (CallFailed e) t)"
      using False ty cl by (auto simp: call_def Let_def split: option.split prod.split)
    with call_locked_inv [OF inv(1) cl] inv show ?thesis
      by (auto simp: set_promise_inv split: option.splits prod.splits)
  qed
qed

section \<open>Interleavings\<close>

text \<open>
  \<open>closed_at_entry\<close> may be stale in one direction only: the gate never reopens. A shutdown is
  its three stages; others may run in between.
\<close>

inductive scstep :: "service_caller \<Rightarrow> service_caller \<Rightarrow> bool" where
  Call: "p \<notin> set (call_promises s) \<Longrightarrow> (closed_at_entry \<longrightarrow> sc_closed s) \<Longrightarrow>
    scstep s (snd (call env closed_at_entry requester p request s))"
| Cancel_requester: "scstep s (cancelForRequester env requester s)"
| Execute: "scstep s (executeWaitable env responses s)"
| Close_gate: "scstep s (close_caller s)"
| Detach: "sc_closed s \<Longrightarrow> scstep s (detachWaitable s)"
| Fail_all: "sc_closed s \<Longrightarrow> scstep s (shutdown_calls s)"

inductive_cases scstepE: "scstep s s'"

lemma other_ops_inv:
  assumes "caller_inv s"
  shows "caller_inv (cancelForRequester env r s)" "caller_inv (executeWaitable env rs s)"
    "caller_inv (close_caller s)" "caller_inv (detachWaitable s)" "caller_inv (shutdown_calls s)"
    "known_promises (cancelForRequester env r s) = known_promises s"
    "known_promises (executeWaitable env rs s) = known_promises s"
    "known_promises (close_caller s) = known_promises s" "known_promises (detachWaitable s) = known_promises s"
    "known_promises (shutdown_calls s) = known_promises s"
    "call_promises (cancelForRequester env r s) = call_promises s"
    "call_promises (executeWaitable env rs s) = call_promises s"
    "call_promises (close_caller s) = call_promises s" "call_promises (detachWaitable s) = call_promises s"
    "call_promises (shutdown_calls s) = call_promises s"
proof -
  note f = failMatchingCalls_inv [OF assms] and d = drainResponses_inv [OF assms]
  note fd = failMatchingCalls_inv [OF conjunct1 [OF d]]
  show "caller_inv (cancelForRequester env r s)" "caller_inv (executeWaitable env rs s)"
    "known_promises (cancelForRequester env r s) = known_promises s"
    "known_promises (executeWaitable env rs s) = known_promises s"
    "call_promises (cancelForRequester env r s) = call_promises s"
    "call_promises (executeWaitable env rs s) = call_promises s"
    using assms f d fd by (simp_all add: cancelForRequester_def executeWaitable_def sync_frame failMatchingCalls_frame)
  have "caller_inv (t\<lparr>cached_clients := []\<rparr>) = (distinct (keys (inflight_calls t))
      \<and> counts_ok (inflight_counts t) (requesters (inflight_calls t)) \<and> (\<forall>r. count (requesters (inflight_calls t)) r \<le> 4))"
    "known_promises (t\<lparr>cached_clients := []\<rparr>) = known_promises t" for t
    by (auto simp: caller_inv_def known_promises_def pending_promises_def settled_promises_def)
  then show "caller_inv (shutdown_calls s)" "known_promises (shutdown_calls s) = known_promises s"
    "call_promises (shutdown_calls s) = call_promises s"
    using f by (auto simp: shutdown_calls_def caller_inv_def failMatchingCalls_frame)
qed (use assms in \<open>simp_all add: close_caller_def detachWaitable_def caller_inv_def known_promises_def
      pending_promises_def settled_promises_def\<close>)

lemma caller_inv_init: "caller_inv caller_init"
  by (simp add: caller_inv_def caller_init_def counts_ok_def requesters_def)

lemma caller_inv_step: "scstep s t \<Longrightarrow> caller_inv s \<Longrightarrow> caller_inv t"
  by (erule scstepE) (auto simp: call_inv other_ops_inv)

lemma caller_conserve:
  "scstep s t \<Longrightarrow> caller_inv s \<Longrightarrow> mset (call_promises s) = known_promises s \<Longrightarrow> mset (call_promises t) = known_promises t"
  by (erule scstepE) (auto simp: call_inv other_ops_inv)

lemma caller_submitted_step:
  "scstep s t \<Longrightarrow> caller_inv s \<Longrightarrow> mset (call_promises t) = mset (call_promises s)
     \<or> (\<exists>p. p \<notin># mset (call_promises s) \<and> mset (call_promises t) = add_mset p (mset (call_promises s)))"
  by (erule scstepE) (auto simp: call_inv other_ops_inv)

interpretation sc: settlement caller_init scstep caller_inv "\<lambda>s. mset (call_promises s)" pending_promises settled_promises
proof
  show "caller_inv caller_init" by (rule caller_inv_init)
  show "mset (call_promises caller_init) = {#}" "pending_promises caller_init = {#}" "settled_promises caller_init = {#}"
    by (simp_all add: caller_init_def pending_promises_def settled_promises_def promises_def)
  show "scstep s t \<Longrightarrow> caller_inv s \<Longrightarrow> mset (call_promises s) = pending_promises s + settled_promises s \<Longrightarrow>
      mset (call_promises t) = pending_promises t + settled_promises t" for s t
    using caller_conserve [of s t] by (simp add: known_promises_def)
qed (fact caller_inv_step caller_submitted_step)+

section \<open>The client cache\<close>

text \<open>A successful construction offers a client under its key.\<close>

definition offer_client :: "string \<Rightarrow> nat \<Rightarrow> (string, nat) alist \<Rightarrow> (string, nat) alist" where
  "offer_client key c cs =
     (case lookup cs key of Some old \<Rightarrow> cs
      | None \<Rightarrow> if length cs \<ge> kMaxCachedServiceClients then cs else AList.update key c cs)"

interpretation cc: bounded_cache kMaxCachedServiceClients "\<lambda>cs. cs" offer_client
  by unfold_locales
    (auto simp: offer_client_def al_simps length_update_new split: option.splits if_splits)

lemma getClient_cache:
  assumes "getClient env service itype s = (r, t)"
  shows "cached_clients t = cached_clients s
       \<or> (\<exists>c. cached_clients t = offer_client (service @ '':'' @ itype) c (cached_clients s))"
  using assms
  by (auto simp: getClient_def offer_client_def Let_def split: option.splits if_splits prod.splits sum.splits)

section \<open>Properties\<close>

abbreviation caller_reachable :: "service_caller \<Rightarrow> bool" where
  "caller_reachable s \<equiv> scstep\<^sup>*\<^sup>* caller_init s"

text \<open>
  C4: every service call is settled exactly once or still inflight, in every interleaving of
  calls, disconnects, executor turns and shutdowns, whatever rclcpp does.
\<close>

theorem call_settles_once:
  assumes "caller_reachable s" "p \<in> set (call_promises s)"
  shows "count (pending_promises s) p + count (settled_promises s) p = 1"
  using assms by (intro sc.exactly_one_place) simp_all

text \<open>
  C11: the quota is exact: at every moment the counter of a requester equals the number of its
  inflight calls, a requester without inflight calls has no counter, and no requester has more
  than four.
\<close>

theorem quota_exact:
  assumes "caller_reachable s"
  shows "(\<forall>r. lookup (inflight_counts s) r = slot (length (filter (\<lambda>(k, c). ic_requester c = r) (inflight_calls s))))
       \<and> (\<forall>r. length (filter (\<lambda>(k, c). ic_requester c = r) (inflight_calls s)) \<le> 4)"
proof -
  have "count (requesters al) r = length (filter (\<lambda>(k, c). ic_requester c = r) al)" for al r
    by (induction al) (auto simp: requesters_def)
  with sc.reachable_good [OF assms] show ?thesis by (simp add: caller_inv_def counts_ok_def)
qed

text \<open>
  after the last stage of a shutdown no call is inflight and no client is cached: all
  promises handed out so far are settled and every quota slot is free.
\<close>

theorem caller_shutdown_settles_all:
  assumes "caller_reachable s"
  shows "settled_promises (shutdown_calls s) = mset (call_promises (shutdown_calls s))
       \<and> inflight_calls (shutdown_calls s) = [] \<and> inflight_counts (shutdown_calls s) = []
       \<and> cached_clients (shutdown_calls s) = []"
proof -
  have inv: "caller_inv s" by (rule sc.reachable_good [OF assms])
  let ?t = "failMatchingCalls (\<lambda>c. True) ''Service caller shut down.'' s"
  have "lookup (inflight_calls ?t) k = None" for k
    using failMatchingCalls_inv [OF inv, of "\<lambda>c. True" "''Service caller shut down.''"]
    by (cases k; cases "lookup (inflight_calls s) k") simp_all
  then have "inflight_calls ?t = []" by (rule lookup_None_Nil)
  then have e: "inflight_calls (shutdown_calls s) = []" by (simp add: shutdown_calls_def)
  have t: "caller_inv (shutdown_calls s)" using other_ops_inv(5) [OF inv] .
  then have "lookup (inflight_counts (shutdown_calls s)) r = None" for r
    using e by (simp add: caller_inv_def counts_ok_def requesters_def)
  then have c: "inflight_counts (shutdown_calls s) = []"
    by (rule lookup_None_Nil)
  have "mset (call_promises s) = known_promises s"
    using sc.conserved [OF assms] by (simp add: known_promises_def)
  then have "mset (call_promises (shutdown_calls s)) = known_promises (shutdown_calls s)"
    by (simp add: other_ops_inv [OF inv])
  with e c show ?thesis by (simp add: known_promises_def pending_promises_def promises_def shutdown_calls_def)
qed

lemma earliest_deadline_None: "earliest_deadline kcs best = None \<longleftrightarrow> best = None \<and> kcs = []"
  by (induction kcs best rule: earliest_deadline.induct) (auto split: option.splits)

lemma earliest_deadline_least:
  "earliest_deadline kcs best = Some d \<Longrightarrow>
     (\<forall>(k, c) \<in> set kcs. d \<le> ic_deadline c) \<and> (\<forall>b. best = Some b \<longrightarrow> d \<le> b)
   \<and> (best = Some d \<or> (\<exists>(k, c) \<in> set kcs. ic_deadline c = d))"
proof (induction kcs best rule: earliest_deadline.induct)
  case (2 k c kcs best)
  then show ?case by (cases best) (auto split: if_splits)
qed simp

text \<open>
  an executor turn of an open caller times out exactly what is due. Afterwards no inflight
  call has a deadline that has passed; a call that is neither answered nor due is still
  inflight; and unless the rcl timer calls fail, the waitable's timer is armed for the earliest
  remaining deadline, or disarmed when nothing is inflight.
\<close>

theorem execute_times_out:
  assumes "caller_reachable s" "\<not> sc_closed s"
  shows "(\<forall>(k, c) \<in> set (inflight_calls (executeWaitable env rs s)). env_now env < ic_deadline c)
       \<and> (\<forall>k c. lookup (inflight_calls s) k = Some c \<and> k \<notin> fst ` set rs \<and> env_now env < ic_deadline c
             \<longrightarrow> lookup (inflight_calls (executeWaitable env rs s)) k = Some c)
       \<and> (env_sync env = Inr () \<and> sc_attached s
             \<longrightarrow> (case wait_deadline (executeWaitable env rs s) of
                    None \<Rightarrow> inflight_calls (executeWaitable env rs s) = []
                  | Some d \<Rightarrow> (\<forall>(k, c) \<in> set (inflight_calls (executeWaitable env rs s)). d \<le> ic_deadline c)
                            \<and> (\<exists>(k, c) \<in> set (inflight_calls (executeWaitable env rs s)). ic_deadline c = d)))"
proof -
  have inv: "caller_inv s" by (rule sc.reachable_good [OF assms(1)])
  define u where "u = drainResponses rs s"
  define t where "t = failMatchingCalls (\<lambda>c. env_now env \<ge> ic_deadline c) ''Service call timed out.'' u"
  have ex: "executeWaitable env rs s = snd (syncWaitableLocked env False t)"
    using assms(2) by (simp add: executeWaitable_def t_def u_def)
  have iu: "caller_inv u" using drainResponses_inv [OF inv] by (simp add: u_def)
  note f = failMatchingCalls_inv [OF iu, of "\<lambda>c. env_now env \<ge> ic_deadline c" "''Service call timed out.''", folded t_def]
  have dt: "distinct (keys (inflight_calls t))" using f by (simp add: caller_inv_def)
  have look: "lookup (inflight_calls t) k =
      (case lookup (inflight_calls u) k of None \<Rightarrow> None | Some c \<Rightarrow> if env_now env \<ge> ic_deadline c then None else Some c)" for k
    using f by (cases k) simp
  have drain: "k \<notin> fst ` set rs \<Longrightarrow> lookup (inflight_calls (drainResponses rs x)) k = lookup (inflight_calls x) k" for k x
    by (induction rs x rule: drainResponses.induct) (auto simp: settle_call_frame al_simps split: option.split)
  have att: "sc_attached (drainResponses rs x) = sc_attached x" for x
    by (induction rs x rule: drainResponses.induct) (auto simp: settle_call_frame split: option.split)
  have due: "\<forall>(k, c) \<in> set (inflight_calls t). env_now env < ic_deadline c"
    using look map_of_is_SomeI [OF dt] by (fastforce split: option.splits if_splits)
  have keep: "\<forall>k c. lookup (inflight_calls s) k = Some c \<and> k \<notin> fst ` set rs \<and> env_now env < ic_deadline c
      \<longrightarrow> lookup (inflight_calls t) k = Some c"
    using look drain by (auto simp: u_def)
  have timer: "wait_deadline (executeWaitable env rs s) = earliest_deadline (inflight_calls t) None"
    if "env_sync env = Inr ()" "sc_attached s"
    using that by (simp add: ex syncWaitableLocked_def t_def failMatchingCalls_frame u_def att)
  have "case earliest_deadline (inflight_calls t) None of
      None \<Rightarrow> inflight_calls t = []
    | Some d \<Rightarrow> (\<forall>(k, c) \<in> set (inflight_calls t). d \<le> ic_deadline c) \<and> (\<exists>(k, c) \<in> set (inflight_calls t). ic_deadline c = d)"
    using earliest_deadline_None [of "inflight_calls t" None] earliest_deadline_least [of "inflight_calls t" None]
    by (auto split: option.split)
  with due keep timer show ?thesis unfolding ex sync_frame by auto
qed

text \<open>
  a disconnect cancels exactly the calls of the participant that left: afterwards the
  inflight calls are those of the other requesters, unchanged.
\<close>

theorem cancel_exact:
  assumes "caller_reachable s" "requester \<noteq> []"
  shows "lookup (inflight_calls (cancelForRequester env requester s)) k =
    (case lookup (inflight_calls s) k of
       None \<Rightarrow> None | Some c \<Rightarrow> if ic_requester c = requester then None else Some c)"
  using failMatchingCalls_inv [OF sc.reachable_good [OF assms(1)], of "\<lambda>c. ic_requester c = requester"] assms(2)
  by (cases k) (simp add: cancelForRequester_def sync_frame)


section \<open>A run\<close>

definition sample_env :: service_env where
  "sample_env = \<lparr>env_graph = [(''/add'', [''p/srv/Add''])], env_load = (\<lambda>t. Inr 1), env_client = (\<lambda>n t h. Inr 5),
     env_build = (\<lambda>c b. Inr ()), env_send = (\<lambda>c b. Inr 9), env_now = 1000, env_sync = Inr ()\<rparr>"

definition sample_request :: service_call_request where
  "sample_request = \<lparr>sreq_name = ''/add'', sreq_type = [], sreq_payload = [1], sreq_timeout = None\<rparr>"

definition sample_caller :: service_caller where
  "sample_caller = snd (call sample_env False ''alice'' 3 sample_request caller_init)"

definition sample_call :: inflight_call where
  "sample_call = \<lparr>ic_service = ''/add'', ic_type = ''p/srv/Add'', ic_requester = ''alice'', ic_promise = 3, ic_deadline = 2000001000\<rparr>"

lemma sample_caller_reachable: "caller_reachable sample_caller"
  unfolding sample_caller_def by (intro r_into_rtranclp scstep.Call) (simp_all add: caller_init_def)

lemma sample_caller_calls: "inflight_calls sample_caller = [((5, 9), sample_call)]"
  "call_promises sample_caller = [3]" "inflight_counts sample_caller = [(''alice'', 1)]" "\<not> sc_closed sample_caller"
  by code_simp+

theorem call_settles_once_witness:
  "count (pending_promises sample_caller) 3 + count (settled_promises sample_caller) 3 = 1"
  using call_settles_once [OF sample_caller_reachable, of 3] sample_caller_calls by simp

theorem quota_exact_witness:
  "lookup (inflight_counts sample_caller) ''alice'' = slot 1 \<and> lookup (inflight_counts sample_caller) ''bob'' = slot 0"
proof -
  have q: "lookup (inflight_counts sample_caller) r = slot (length (filter (\<lambda>(k, c). ic_requester c = r) (inflight_calls sample_caller)))" for r
    using quota_exact [OF sample_caller_reachable] by blast
  show ?thesis unfolding q by (simp add: sample_caller_calls sample_call_def)
qed

theorem caller_shutdown_settles_all_witness:
  "settled_promises (shutdown_calls sample_caller) = {#3#} \<and> inflight_counts (shutdown_calls sample_caller) = []"
proof -
  have "call_promises (shutdown_calls sample_caller) = [3]"
    by (simp add: shutdown_calls_def failMatchingCalls_frame sample_caller_calls)
  with caller_shutdown_settles_all [OF sample_caller_reachable] show ?thesis by simp
qed

theorem execute_times_out_witness:
  "lookup (inflight_calls (executeWaitable sample_env [] sample_caller)) (5, 9) = Some sample_call"
proof -
  have "lookup (inflight_calls sample_caller) (5, 9) = Some sample_call" "(5, 9) \<notin> fst ` set ([] :: (inflight_key \<times> bytes res) list)"
    "env_now sample_env < ic_deadline sample_call"
    by (simp_all add: sample_caller_calls sample_env_def sample_call_def)
  with execute_times_out [OF sample_caller_reachable sample_caller_calls(4), of sample_env "[]"] show ?thesis by blast
qed

theorem cancel_exact_witness:
  "lookup (inflight_calls (cancelForRequester sample_env ''alice'' sample_caller)) (5, 9) = None"
  using cancel_exact [OF sample_caller_reachable, of "''alice''" sample_env "(5, 9)"]
  by (simp add: sample_caller_calls sample_call_def)

definition broken_timer_env :: service_env where
  "broken_timer_env = sample_env\<lparr>env_sync := Inl (Runtime_error ''timer'')\<rparr>"


end
