(* ===== verification/Pipeline_Validation.thy ===== *)
theory Pipeline_Validation
  imports Bridge_Prelude
begin

text \<open>
  Startup validation of user-supplied GStreamer fragments
  (src/src/utils/gstreamer_pipeline_validation.hpp, .cpp), the pipeline descriptions the bridge
  builds around them (src/src/video/pipeline_description.hpp, src/src/audio/pipeline_description.hpp)
  and the shared id check of the config loaders (src/src/utils/param_entries.hpp).
  \<open>gst_parse_launch\<close> is the parameter \<open>launch\<close>: the error it reports, if any, and the parsed
  pipeline, as the flattened list of its elements when it is a bin.
\<close>

record gst_element =
  factory_name :: string
  element_name :: string

datatype gst_pipeline = NotABin | Bin "gst_element list"

type_synonym gst_launch = "string \<Rightarrow> string option \<times> gst_pipeline option"

record endpoint_counts =
  n_appsrc :: nat
  n_appsink :: nat
  n_bridge_appsrc :: nat
  n_bridge_appsink :: nat

record endpoint_layout =
  want_appsrc :: nat
  want_appsink :: nat
  want_bridge_appsrc :: nat
  want_bridge_appsink :: nat
  bridge_appsrc_name :: "string option"
  bridge_appsink_name :: "string option"

definition no_endpoints :: endpoint_counts where
  "no_endpoints = \<lparr>n_appsrc = 0, n_appsink = 0, n_bridge_appsrc = 0, n_bridge_appsink = 0\<rparr>"

definition reserved_error :: "string \<Rightarrow> string \<Rightarrow> exn" where
  "reserved_error context name =
     Runtime_error (context @ '' must not reuse reserved element name '' @ [CHR 0x27] @ name @ [CHR 0x27])"

text \<open>One element of the iteration.\<close>

definition count_element :: "string \<Rightarrow> endpoint_layout \<Rightarrow> gst_element \<Rightarrow> endpoint_counts \<Rightarrow> endpoint_counts res" where
  "count_element context layout e counts =
     (let is_appsrc = (factory_name e = ''appsrc'');
          is_appsink = (factory_name e = ''appsink'');
          c1 = (if is_appsrc then counts\<lparr>n_appsrc := n_appsrc counts + 1\<rparr> else counts);
          c2 = (if is_appsink then c1\<lparr>n_appsink := n_appsink c1 + 1\<rparr> else c1)
      in res_bind
           (if bridge_appsrc_name layout = Some (element_name e) then
              (if \<not> is_appsrc then Inl (reserved_error context (element_name e))
               else Inr (c2\<lparr>n_bridge_appsrc := n_bridge_appsrc c2 + 1\<rparr>))
            else Inr c2)
           (\<lambda>c3.
            if bridge_appsink_name layout = Some (element_name e) then
              (if \<not> is_appsink then Inl (reserved_error context (element_name e))
               else Inr (c3\<lparr>n_bridge_appsink := n_bridge_appsink c3 + 1\<rparr>))
            else Inr c3))"

fun countEndpoints :: "string \<Rightarrow> endpoint_layout \<Rightarrow> gst_element list \<Rightarrow> endpoint_counts \<Rightarrow> endpoint_counts res" where
  "countEndpoints context layout [] counts = Inr counts"
| "countEndpoints context layout (e # es) counts =
     res_bind (count_element context layout e counts) (countEndpoints context layout es)"

definition layout_matches :: "endpoint_layout \<Rightarrow> endpoint_counts \<Rightarrow> bool" where
  "layout_matches l c \<longleftrightarrow> n_appsrc c = want_appsrc l \<and> n_appsink c = want_appsink l
     \<and> n_bridge_appsrc c = want_bridge_appsrc l \<and> n_bridge_appsink c = want_bridge_appsink l"

definition hasUserEndpoint :: "endpoint_layout \<Rightarrow> endpoint_counts \<Rightarrow> bool" where
  "hasUserEndpoint l c =
     (if n_appsrc c > want_appsrc l \<or> n_appsink c > want_appsink l
         \<or> n_bridge_appsrc c > want_bridge_appsrc l \<or> n_bridge_appsink c > want_bridge_appsink l then True
      else (n_appsrc c \<noteq> 0 \<and> want_bridge_appsrc l = 0) \<or> (n_appsink c \<noteq> 0 \<and> want_bridge_appsink l = 0))"

definition ownership_error :: "string \<Rightarrow> exn" where
  "ownership_error context = Runtime_error (context @ '' must not define appsrc/appsink endpoints; the bridge owns them'')"

definition validatePipeline :: "gst_launch \<Rightarrow> string \<Rightarrow> string \<Rightarrow> endpoint_layout \<Rightarrow> unit res" where
  "validatePipeline launch context description layout =
     (case launch description of
        (Some err, pipeline) \<Rightarrow>
          res_bind
            (case pipeline of
               Some (Bin es) \<Rightarrow>
                 res_bind (countEndpoints context layout es no_endpoints)
                   (\<lambda>c. if hasUserEndpoint layout c then Inl (ownership_error context) else Inr ())
             | _ \<Rightarrow> Inr ())
            (\<lambda>_. Inl (Runtime_error (context @ '' has invalid GStreamer syntax: '' @ err)))
      | (None, None) \<Rightarrow> Inl (Runtime_error (context @ '' has invalid GStreamer syntax: gst_parse_launch returned null''))
      | (None, Some NotABin) \<Rightarrow> Inl (Runtime_error (context @ '' must parse to a GstBin''))
      | (None, Some (Bin es)) \<Rightarrow>
          res_bind (countEndpoints context layout es no_endpoints)
            (\<lambda>c. if \<not> layout_matches layout c then Inl (ownership_error context) else Inr ()))"

definition makeOtherSourceLayout :: "string \<Rightarrow> endpoint_layout" where
  "makeOtherSourceLayout name = \<lparr>want_appsrc = 0, want_appsink = 1, want_bridge_appsrc = 0, want_bridge_appsink = 1,
     bridge_appsrc_name = None, bridge_appsink_name = Some name\<rparr>"

definition join_fragments :: "string \<Rightarrow> string \<Rightarrow> string" where
  "join_fragments source transform = (if transform \<noteq> [] then source @ '' ! '' @ transform else source)"

definition kVideoAppSrcName :: string where
  "kVideoAppSrcName = ''bridge_video_src''"

definition kVideoAppSinkName :: string where
  "kVideoAppSinkName = ''bridge_video_sink''"

definition kAudioAppSinkName :: string where
  "kAudioAppSinkName = ''bridge_audio_sink''"

definition video_buildPipelineDescription :: "string \<Rightarrow> string \<Rightarrow> string" where
  "video_buildPipelineDescription source transform = join_fragments source transform
     @ '' ! queue max-size-buffers=2 leaky=downstream'' @ '' ! videoconvert'' @ '' ! video/x-raw,format=I420''
     @ '' ! appsink name='' @ kVideoAppSinkName @ '' sync=false drop=true max-buffers=1''"

definition audio_buildPipelineDescription :: "string \<Rightarrow> string \<Rightarrow> string" where
  "audio_buildPipelineDescription source transform = join_fragments source transform
     @ '' ! queue max-size-time=100000000 leaky=downstream'' @ '' ! audioconvert'' @ '' ! audioresample''
     @ '' ! audio/x-raw,format=S16LE,channels=1,rate=48000''
     @ '' ! appsink name='' @ kAudioAppSinkName @ '' sync=false drop=true max-buffers=1''"

text \<open>\<open>requireUniqueEntry\<close>: the ids seen so far are threaded through.\<close>

definition requireUniqueEntry ::
  "string list \<Rightarrow> string \<Rightarrow> (string, 'e) alist \<Rightarrow> string \<Rightarrow> string \<Rightarrow> (string list \<times> 'e) res" where
  "requireUniqueEntry seen eid entries duplicate_label missing_label =
     (if eid \<in> set seen then
        Inl (Runtime_error (''duplicate '' @ duplicate_label @ '' '' @ [CHR 0x27] @ eid @ [CHR 0x27]))
      else (case lookup entries eid of
              None \<Rightarrow> Inl (Runtime_error (missing_label @ '' '' @ [CHR 0x27] @ eid @ [CHR 0x27] @ '' is missing generated parameters''))
            | Some e \<Rightarrow> Inr (eid # seen, e)))"

section \<open>What a validated pipeline contains\<close>

definition named :: "string option \<Rightarrow> gst_element \<Rightarrow> bool" where
  "named n e \<longleftrightarrow> n = Some (element_name e)"

lemma count_element_Inr:
  assumes "count_element ctx l e c = Inr d"
  shows "(named (bridge_appsrc_name l) e \<longrightarrow> factory_name e = ''appsrc'') \<and> (named (bridge_appsink_name l) e \<longrightarrow> factory_name e = ''appsink'')
    \<and> n_appsrc d = n_appsrc c + (if factory_name e = ''appsrc'' then 1 else 0)
    \<and> n_appsink d = n_appsink c + (if factory_name e = ''appsink'' then 1 else 0)
    \<and> n_bridge_appsrc d = n_bridge_appsrc c + (if named (bridge_appsrc_name l) e then 1 else 0)
    \<and> n_bridge_appsink d = n_bridge_appsink c + (if named (bridge_appsink_name l) e then 1 else 0)"
  using assms by (auto simp: count_element_def named_def Let_def res_iffs split: if_splits)

lemma countEndpoints_Inr:
  assumes "countEndpoints ctx l es c = Inr d"
  shows "(\<forall>e \<in> set es. (named (bridge_appsrc_name l) e \<longrightarrow> factory_name e = ''appsrc'')
                     \<and> (named (bridge_appsink_name l) e \<longrightarrow> factory_name e = ''appsink''))
    \<and> n_appsrc d = n_appsrc c + length (filter (\<lambda>e. factory_name e = ''appsrc'') es)
    \<and> n_appsink d = n_appsink c + length (filter (\<lambda>e. factory_name e = ''appsink'') es)
    \<and> n_bridge_appsrc d = n_bridge_appsrc c + length (filter (named (bridge_appsrc_name l)) es)
    \<and> n_bridge_appsink d = n_bridge_appsink c + length (filter (named (bridge_appsink_name l)) es)"
  using assms
proof (induction es arbitrary: c)
  case (Cons e es)
  then obtain c' where c': "count_element ctx l e c = Inr c'" "countEndpoints ctx l es c' = Inr d"
    by (auto simp: res_iffs)
  from count_element_Inr [OF c'(1)] Cons.IH [OF c'(2)] show ?case by simp
qed simp

text \<open>
  a source fragment that passes validation contributes no endpoint of its own. When the
  description of an other-source pipeline validates, the parsed pipeline has exactly one
  appsink, that appsink carries the bridge's reserved name, nothing else does, and there is no
  appsrc: the bridge recovers exactly its own endpoint by name.
\<close>

theorem validated_source_endpoints:
  assumes "validatePipeline launch ctx d (makeOtherSourceLayout name) = Inr ()"
  shows "\<exists>es e. launch d = (None, Some (Bin es)) \<and> filter (\<lambda>x. factory_name x = ''appsink'') es = [e]
       \<and> filter (\<lambda>x. element_name x = name) es = [e] \<and> filter (\<lambda>x. factory_name x = ''appsrc'') es = []"
proof -
  obtain es c where es: "launch d = (None, Some (Bin es))"
      "countEndpoints ctx (makeOtherSourceLayout name) es no_endpoints = Inr c" "layout_matches (makeOtherSourceLayout name) c"
    using assms by (auto simp: validatePipeline_def res_iffs split: prod.splits option.splits gst_pipeline.splits if_splits)
  note cnt = countEndpoints_Inr [OF es(2)]
  let ?sinks = "filter (\<lambda>x. factory_name x = ''appsink'') es"
  let ?named = "filter (\<lambda>x. element_name x = name) es"
  have nm: "named (bridge_appsink_name (makeOtherSourceLayout name)) = (\<lambda>x. element_name x = name)"
    by (auto simp: named_def makeOtherSourceLayout_def fun_eq_iff)
  have len: "length ?sinks = 1" "length ?named = 1" "filter (\<lambda>x. factory_name x = ''appsrc'') es = []"
    using cnt es(3) unfolding nm by (simp_all add: layout_matches_def makeOtherSourceLayout_def no_endpoints_def)
  have sub: "\<forall>x \<in> set es. element_name x = name \<longrightarrow> factory_name x = ''appsink''"
    using cnt unfolding nm by simp
  obtain a where a: "?sinks = [a]" using len(1) by (auto simp: length_Suc_conv)
  obtain b where b: "?named = [b]" using len(2) by (auto simp: length_Suc_conv)
  have "b \<in> set ?named" using b by simp
  then have "b \<in> set ?sinks" using sub by auto
  then have "a = b" using a by simp
  with a b es(1) len(3) show ?thesis by blast
qed

theorem validated_source_endpoints_witness:
  "\<exists>es. (\<lambda>d :: string. (None :: string option, Some (Bin [\<lparr>factory_name = ''videotestsrc'', element_name = ''v''\<rparr>,
        \<lparr>factory_name = ''appsink'', element_name = ''bridge_video_sink''\<rparr>]))) ''x'' = (None, Some (Bin es))
     \<and> filter (\<lambda>x. factory_name x = ''appsrc'') es = []"
proof -
  let ?launch = "\<lambda>d :: string. (None :: string option, Some (Bin [\<lparr>factory_name = ''videotestsrc'', element_name = ''v''\<rparr>,
        \<lparr>factory_name = ''appsink'', element_name = ''bridge_video_sink''\<rparr>]))"
  have "validatePipeline ?launch ''c'' ''x'' (makeOtherSourceLayout ''bridge_video_sink'') = Inr ()"
    by code_simp
  from validated_source_endpoints [OF this] show ?thesis by blast
qed

end
