(* ===== verification/Stream_Config.thy ===== *)
theory Stream_Config
  imports Complex_Main Pipeline_Validation Resource_Names
begin

text \<open>
  Video and audio stream configuration: publish options and the config loaders
  (src/src/video/stream_config.cpp, src/src/audio/stream_config.cpp) and the resolution of a
  subscription target to a stream spec (src/src/video/stream_spec.hpp, stream_spec.cpp,
  src/src/audio/stream_spec.hpp, stream_spec.cpp). The generated parameter structs are records;
  a frame rate is a real number and a bit rate an unsigned 64-bit value.
\<close>

section \<open>Publish options\<close>

datatype video_codec = VP8 | H264 | AV1 | VP9 | H265

record video_encoding =
  enc_max_bitrate :: "64 word"
  enc_max_framerate :: real

record publish_options =
  opt_video_codec :: "video_codec option"
  opt_video_encoding :: "video_encoding option"
  opt_simulcast :: "bool option"
  opt_audio_bitrate :: "(64 word) option"
  opt_dtx :: "bool option"
  opt_red :: "bool option"

definition default_options :: publish_options where
  "default_options = \<lparr>opt_video_codec = None, opt_video_encoding = None, opt_simulcast = None,
     opt_audio_bitrate = None, opt_dtx = None, opt_red = None\<rparr>"

record publish_params =
  prm_codec :: string
  prm_max_bitrate_bps :: int
  prm_max_framerate :: real
  prm_simulcast :: string
  prm_dtx :: string
  prm_red :: string

definition parseVideoCodec :: "string \<Rightarrow> video_codec option" where
  "parseVideoCodec v =
     (let codec = trim v in
      if codec = ''vp8'' then Some VP8 else if codec = ''h264'' then Some H264 else if codec = ''av1'' then Some AV1
      else if codec = ''vp9'' then Some VP9 else if codec = ''h265'' then Some H265 else None)"

definition parseSwitch :: "string \<Rightarrow> bool option" where
  "parseSwitch v =
     (let s = trim v in if s = ''enabled'' then Some True else if s = ''disabled'' then Some False else None)"

definition video_setEncoding :: "publish_options \<Rightarrow> 64 word \<Rightarrow> real \<Rightarrow> publish_options" where
  "video_setEncoding opts max_bitrate max_framerate =
     opts\<lparr>opt_video_encoding :=
       (if max_bitrate > 0 \<or> max_framerate > 0
        then Some \<lparr>enc_max_bitrate = max_bitrate, enc_max_framerate = max_framerate\<rparr> else None)\<rparr>"

definition video_global_options :: "publish_params \<Rightarrow> publish_options" where
  "video_global_options p =
     (video_setEncoding (default_options\<lparr>opt_video_codec := parseVideoCodec (prm_codec p)\<rparr>)
        (word_of_int (prm_max_bitrate_bps p)) (prm_max_framerate p))\<lparr>opt_simulcast := parseSwitch (prm_simulcast p)\<rparr>"

definition video_entry_options :: "publish_params \<Rightarrow> publish_options \<Rightarrow> publish_options" where
  "video_entry_options p defaults =
     (let o1 = (if trim (prm_codec p) \<noteq> [] then defaults\<lparr>opt_video_codec := parseVideoCodec (trim (prm_codec p))\<rparr> else defaults);
          b0 = (case opt_video_encoding o1 of None \<Rightarrow> 0 | Some e \<Rightarrow> enc_max_bitrate e);
          f0 = (case opt_video_encoding o1 of None \<Rightarrow> 0 | Some e \<Rightarrow> enc_max_framerate e);
          b = (if prm_max_bitrate_bps p \<ge> 0 then word_of_int (prm_max_bitrate_bps p) else b0);
          f = (if prm_max_framerate p \<ge> 0 then prm_max_framerate p else f0);
          o2 = video_setEncoding o1 b f
      in if trim (prm_simulcast p) \<noteq> [] then o2\<lparr>opt_simulcast := parseSwitch (trim (prm_simulcast p))\<rparr> else o2)"

definition audio_setEncoding :: "publish_options \<Rightarrow> 64 word \<Rightarrow> publish_options" where
  "audio_setEncoding opts max_bitrate = opts\<lparr>opt_audio_bitrate := (if max_bitrate > 0 then Some max_bitrate else None)\<rparr>"

definition audio_switches :: "publish_params \<Rightarrow> publish_options \<Rightarrow> publish_options" where
  "audio_switches p o0 =
     (let o1 = (case parseSwitch (prm_dtx p) of None \<Rightarrow> o0 | Some b \<Rightarrow> o0\<lparr>opt_dtx := Some b\<rparr>)
      in case parseSwitch (prm_red p) of None \<Rightarrow> o1 | Some b \<Rightarrow> o1\<lparr>opt_red := Some b\<rparr>)"

definition audio_global_options :: "publish_params \<Rightarrow> publish_options" where
  "audio_global_options p =
     audio_switches p (audio_setEncoding default_options (word_of_int (prm_max_bitrate_bps p)))"

definition audio_entry_options :: "publish_params \<Rightarrow> publish_options \<Rightarrow> publish_options" where
  "audio_entry_options p defaults =
     (let b0 = (case opt_audio_bitrate defaults of None \<Rightarrow> 0 | Some b \<Rightarrow> b);
          b = (if prm_max_bitrate_bps p \<ge> 0 then word_of_int (prm_max_bitrate_bps p) else b0)
      in audio_switches p (audio_setEncoding defaults b))"

section \<open>Configuration\<close>

record ros_topic_rule =
  rule_pattern :: ros_pattern
  rule_id :: string
  rule_transform :: string
  rule_options :: publish_options

record other_source =
  source_fragment :: string
  source_transform :: string
  source_options :: publish_options

record stream_config =
  ros_topic_rules :: "ros_topic_rule list"
  other_sources :: "(string, other_source) alist"
  default_publish_options :: publish_options

definition video_makeDefaultConfig :: stream_config where
  "video_makeDefaultConfig = \<lparr>ros_topic_rules = [\<lparr>rule_pattern = rootSubtree, rule_id = ''default_ros'',
       rule_transform = [], rule_options = default_options\<rparr>],
     other_sources = [], default_publish_options = default_options\<rparr>"

definition audio_makeDefaultConfig :: stream_config where
  "audio_makeDefaultConfig = \<lparr>ros_topic_rules = [], other_sources = [], default_publish_options = default_options\<rparr>"

record topic_params =
  tp_pattern :: string
  tp_transform :: string
  tp_publish :: publish_params

record source_params =
  sp_source :: string
  sp_transform :: string
  sp_publish :: publish_params

record media_params =
  mp_publish :: publish_params
  mp_topic_ids :: "string list"
  mp_topics :: "(string, topic_params) alist"
  mp_other_ids :: "string list"
  mp_others :: "(string, source_params) alist"

definition requireRosResourcePattern :: "expander \<Rightarrow> string \<Rightarrow> string \<Rightarrow> ros_pattern res" where
  "requireRosResourcePattern expand raw ctx =
     (if trim raw = [] then Inl (Runtime_error (ctx @ '' pattern must not be empty''))
      else (case pattern_parse_global expand raw of
              None \<Rightarrow> Inl (Runtime_error (ctx @ '' pattern must normalize to a valid ROS resource''))
            | Some p \<Rightarrow> Inr p))"

definition quoted :: "string \<Rightarrow> string" where
  "quoted s = [CHR 0x27] @ s @ [CHR 0x27]"

definition synthetic_appsrc :: string where
  "synthetic_appsrc = ''appsrc name='' @ kVideoAppSrcName @ '' is-live=true block=false format=time do-timestamp=true''
     @ '' caps=video/x-raw,format=RGB,width=2,height=2,framerate=0/1''"

definition kRosTopicRuleLayout :: endpoint_layout where
  "kRosTopicRuleLayout = \<lparr>want_appsrc = 1, want_appsink = 1, want_bridge_appsrc = 1, want_bridge_appsink = 1,
     bridge_appsrc_name = Some kVideoAppSrcName, bridge_appsink_name = Some kVideoAppSinkName\<rparr>"

text \<open>The loop over \<open>video_topic_ids\<close>, threading the ids already seen.\<close>

fun load_topic_rules ::
  "expander \<Rightarrow> gst_launch \<Rightarrow> publish_options \<Rightarrow> (string, topic_params) alist \<Rightarrow> string list \<Rightarrow> string list
     \<Rightarrow> ros_topic_rule list res" where
  "load_topic_rules expand launch defaults entries seen [] = Inr []"
| "load_topic_rules expand launch defaults entries seen (i # ids) =
     res_bind (requireUniqueEntry seen i entries ''video topic id'' ''video topic'') (\<lambda>(seen', entry).
     res_bind (requireRosResourcePattern expand (tp_pattern entry) ''video topic'') (\<lambda>pattern.
     (let transform = trim (tp_transform entry) in
     res_bind (validatePipeline launch (''video topic '' @ quoted i @ '' transform'')
                 (video_buildPipelineDescription synthetic_appsrc transform) kRosTopicRuleLayout) (\<lambda>_.
     res_bind (load_topic_rules expand launch defaults entries seen' ids) (\<lambda>rules.
       Inr (\<lparr>rule_pattern = pattern, rule_id = i, rule_transform = transform,
             rule_options = video_entry_options (tp_publish entry) defaults\<rparr> # rules))))))"

text \<open>
  The loop over the other-source ids, common to both media kinds: \<open>label\<close> is \<open>video\<close> or \<open>audio\<close>,
  \<open>build\<close> the pipeline description, \<open>opts\<close> the entry's publish options.
\<close>

fun load_other_sources ::
  "gst_launch \<Rightarrow> string \<Rightarrow> (string \<Rightarrow> string \<Rightarrow> string) \<Rightarrow> string \<Rightarrow> (publish_params \<Rightarrow> publish_options)
     \<Rightarrow> (string, source_params) alist \<Rightarrow> string list \<Rightarrow> (string, other_source) alist \<Rightarrow> string list
     \<Rightarrow> (string, other_source) alist res" where
  "load_other_sources launch label build sink opts entries seen acc [] = Inr acc"
| "load_other_sources launch label build sink opts entries seen acc (i # ids) =
     res_bind (requireUniqueEntry seen i entries (''other '' @ label @ '' id'') (''other '' @ label @ '' source''))
       (\<lambda>(seen', entry).
     (let ctx = ''other '' @ label @ '' source '' @ quoted i;
          fragment = trim (sp_source entry);
          transform = trim (sp_transform entry);
          name = trim i in
      if fragment = [] then Inl (Runtime_error (ctx @ '' requires a non-empty source''))
      else res_bind (validatePipeline launch ctx (build fragment transform) (makeOtherSourceLayout sink)) (\<lambda>_.
        if name = [] then Inl (Runtime_error (ctx @ '' must trim to a non-empty name''))
        else if name \<in> set (keys acc) then
          Inl (Runtime_error (''duplicate other '' @ label @ '' source name '' @ quoted name))
        else load_other_sources launch label build sink opts entries seen'
               (AList.update name \<lparr>source_fragment = fragment, source_transform = transform,
                                   source_options = opts (sp_publish entry)\<rparr> acc) ids)))"

definition video_loadConfig :: "expander \<Rightarrow> gst_launch \<Rightarrow> media_params \<Rightarrow> stream_config res" where
  "video_loadConfig expand launch params =
     (let defaults = video_global_options (mp_publish params);
          builtin = map (\<lambda>r. r\<lparr>rule_options := defaults\<rparr>) (ros_topic_rules video_makeDefaultConfig) in
      res_bind (load_topic_rules expand launch defaults (mp_topics params) [] (mp_topic_ids params)) (\<lambda>rules.
      res_bind (load_other_sources launch ''video'' video_buildPipelineDescription kVideoAppSinkName
                  (\<lambda>p. video_entry_options p defaults) (mp_others params) [] [] (mp_other_ids params)) (\<lambda>sources.
        Inr \<lparr>ros_topic_rules = rules @ builtin, other_sources = sources, default_publish_options = defaults\<rparr>)))"

definition audio_loadConfig :: "gst_launch \<Rightarrow> media_params \<Rightarrow> stream_config res" where
  "audio_loadConfig launch params =
     (let defaults = audio_global_options (mp_publish params) in
      res_bind (load_other_sources launch ''audio'' audio_buildPipelineDescription kAudioAppSinkName
                  (\<lambda>p. audio_entry_options p defaults) (mp_others params) [] [] (mp_other_ids params)) (\<lambda>sources.
        Inr (audio_makeDefaultConfig\<lparr>other_sources := sources, default_publish_options := defaults\<rparr>)))"

section \<open>Stream specs\<close>

datatype ros_ingest_mode = RawImage | CompressedImage

record ros_input =
  ri_topic :: string
  ri_interface_type :: string
  ri_ingest_mode :: ros_ingest_mode
  ri_rule_id :: string
  ri_transform :: string

record other_input =
  oi_name :: string
  oi_source :: string
  oi_transform :: string

datatype stream_input = RosInput ros_input | OtherInput other_input

record stream_spec =
  stream_key :: string
  track_name :: string
  spec_input :: stream_input
  spec_options :: publish_options

definition classifyRosIngestMode :: "string \<Rightarrow> ros_ingest_mode option" where
  "classifyRosIngestMode t =
     (if t = ''sensor_msgs/msg/Image'' then Some RawImage
      else if t = ''sensor_msgs/msg/CompressedImage'' then Some CompressedImage else None)"

text \<open>The loop that maps slashes and colons to single dots, then the removal of outer dots.\<close>

fun track_suffix_loop :: "string \<Rightarrow> string \<Rightarrow> string" where
  "track_suffix_loop suffix [] = suffix"
| "track_suffix_loop suffix (ch # chs) =
     (if ch \<noteq> CHR ''/'' \<and> ch \<noteq> CHR '':'' then track_suffix_loop (suffix @ [ch]) chs
      else if suffix \<noteq> [] \<and> last suffix \<noteq> CHR ''.'' then track_suffix_loop (suffix @ ''.'') chs
      else track_suffix_loop suffix chs)"

definition makeRosTopicTrackSuffix :: "string \<Rightarrow> string" where
  "makeRosTopicTrackSuffix topic =
     rev (dropWhile (\<lambda>c. c = CHR ''.'') (rev (dropWhile (\<lambda>c. c = CHR ''.'') (track_suffix_loop [] topic))))"

definition selectRosTopicRule :: "ros_topic_rule list \<Rightarrow> string \<Rightarrow> ros_topic_rule res" where
  "selectRosTopicRule rules topic =
     (case findBestRosResourcePatternMatch rule_pattern rules topic of
        None \<Rightarrow> Inl (Runtime_error (''no matching video rule for topic '' @ quoted topic))
      | Some r \<Rightarrow> Inr r)"

definition requireRosInput :: "stream_spec \<Rightarrow> ros_input res" where
  "requireRosInput spec = (case spec_input spec of RosInput i \<Rightarrow> Inr i
     | OtherInput _ \<Rightarrow> Inl (Logic_error ''Video stream spec does not contain a ROS video input.''))"

definition requireOtherInput :: "stream_spec \<Rightarrow> other_input res" where
  "requireOtherInput spec = (case spec_input spec of OtherInput i \<Rightarrow> Inr i
     | RosInput _ \<Rightarrow> Inl (Logic_error ''Video stream spec does not contain an other-video input.''))"

definition resolveRosTopicSpec :: "expander \<Rightarrow> stream_config \<Rightarrow> string \<Rightarrow> string \<Rightarrow> stream_spec res" where
  "resolveRosTopicSpec expand config requested itype =
     (let topic = normalizeGlobalName expand requested in
      if topic = [] then Inl (Invalid_argument ''Invalid ROS topic.'')
      else (case classifyRosIngestMode itype of
              None \<Rightarrow> Inl (Invalid_argument ''ROS topic is not a supported video type.'')
            | Some mode \<Rightarrow>
                res_bind (selectRosTopicRule (ros_topic_rules config) topic) (\<lambda>rule.
                  Inr \<lparr>stream_key = ''topic'' @ '':'' @ topic,
                       track_name = ''lkros.video.'' @ makeRosTopicTrackSuffix topic,
                       spec_input = RosInput \<lparr>ri_topic = topic, ri_interface_type = itype, ri_ingest_mode = mode,
                                              ri_rule_id = rule_id rule, ri_transform = rule_transform rule\<rparr>,
                       spec_options = rule_options rule\<rparr>)))"

definition resolve_other :: "string \<Rightarrow> string \<Rightarrow> stream_config \<Rightarrow> string \<Rightarrow> stream_spec res" where
  "resolve_other label prefix config source_name =
     (let name = trim source_name in
      if name = [] then Inl (Invalid_argument (''Invalid other '' @ label @ '' name.''))
      else (case lookup (other_sources config) name of
              None \<Rightarrow> Inl (Invalid_argument (''Unknown other '' @ label @ '' source '' @ quoted name @ ''.''))
            | Some source \<Rightarrow>
                Inr \<lparr>stream_key = ''other_'' @ label @ '':'' @ name,
                     track_name = prefix @ percentEncodeUnreserved name,
                     spec_input = OtherInput \<lparr>oi_name = name, oi_source = source_fragment source,
                                              oi_transform = source_transform source\<rparr>,
                     spec_options = source_options source\<rparr>))"

definition video_resolveOtherSourceSpec :: "stream_config \<Rightarrow> string \<Rightarrow> stream_spec res" where
  "video_resolveOtherSourceSpec = resolve_other ''video'' ''lkros.video.other.''"

definition audio_resolveOtherSourceSpec :: "stream_config \<Rightarrow> string \<Rightarrow> stream_spec res" where
  "audio_resolveOtherSourceSpec = resolve_other ''audio'' ''lkros.audio.other.''"

section \<open>Lemmas\<close>

lemma resolve_other_Inr:
  assumes "resolve_other label prefix config n = Inr s"
  shows "\<exists>src. lookup (other_sources config) (trim n) = Some src \<and> track_name s = prefix @ percentEncodeUnreserved (trim n)
    \<and> s = \<lparr>stream_key = ''other_'' @ label @ '':'' @ trim n, track_name = prefix @ percentEncodeUnreserved (trim n),
          spec_input = OtherInput \<lparr>oi_name = trim n, oi_source = source_fragment src, oi_transform = source_transform src\<rparr>,
          spec_options = source_options src\<rparr>"
  using assms by (auto simp: resolve_other_def Let_def split: if_splits option.splits)

lemma percentEncode_inj: "percentEncodeUnreserved a = percentEncodeUnreserved b \<Longrightarrow> a = b"
  by (metis option.inject percentDecode_encode)

text \<open>
  the track name of a configured source identifies it: two other-video sources, or two
  other-audio sources, resolve to the same track name only if they resolve to the same spec, and
  the source name is recovered from the track name by percent-decoding its suffix.
\<close>

theorem other_track_names_identify:
  assumes "resolve_other label prefix config n = Inr s" "resolve_other label prefix config m = Inr t"
  shows "(track_name s = track_name t \<longrightarrow> s = t)
       \<and> percentDecode (drop (length prefix) (track_name s)) = Some (trim n)"
proof -
  obtain a b where n: "lookup (other_sources config) (trim n) = Some a" "track_name s = prefix @ percentEncodeUnreserved (trim n)"
      and sn: "s = \<lparr>stream_key = ''other_'' @ label @ '':'' @ trim n, track_name = prefix @ percentEncodeUnreserved (trim n),
          spec_input = OtherInput \<lparr>oi_name = trim n, oi_source = source_fragment a, oi_transform = source_transform a\<rparr>,
          spec_options = source_options a\<rparr>"
      and m: "lookup (other_sources config) (trim m) = Some b" "track_name t = prefix @ percentEncodeUnreserved (trim m)"
      and tm: "t = \<lparr>stream_key = ''other_'' @ label @ '':'' @ trim m, track_name = prefix @ percentEncodeUnreserved (trim m),
          spec_input = OtherInput \<lparr>oi_name = trim m, oi_source = source_fragment b, oi_transform = source_transform b\<rparr>,
          spec_options = source_options b\<rparr>"
    using resolve_other_Inr [OF assms(1)] resolve_other_Inr [OF assms(2)] by metis
  have "s = t" if "track_name s = track_name t"
  proof -
    have "trim n = trim m" using that n(2) m(2) percentEncode_inj by simp
    then show ?thesis using n(1) m(1) sn tm by simp
  qed
  then show ?thesis using n(2) percentDecode_encode by simp
qed

definition sample_config :: stream_config where
  "sample_config = video_makeDefaultConfig\<lparr>other_sources :=
     [(''a/b'', \<lparr>source_fragment = ''v4l2src'', source_transform = [], source_options = default_options\<rparr>)]\<rparr>"

theorem other_track_names_identify_witness:
  "percentDecode (drop (length ''lkros.video.other.'') ''lkros.video.other.a%2Fb'') = Some ''a/b''"
proof -
  let ?s = "\<lparr>stream_key = ''other_video:a/b'', track_name = ''lkros.video.other.a%2Fb'',
      spec_input = OtherInput \<lparr>oi_name = ''a/b'', oi_source = ''v4l2src'', oi_transform = []\<rparr>, spec_options = default_options\<rparr>"
  have "trim ''a/b'' = ''a/b''" by code_simp
  moreover have "percentEncodeUnreserved ''a/b'' = ''a%2Fb''" by code_simp
  ultimately have "resolve_other ''video'' ''lkros.video.other.'' sample_config ''a/b'' = Inr ?s"
    by (simp add: resolve_other_def sample_config_def Let_def del: percentEncodeUnreserved.simps)
  from other_track_names_identify [OF this this] \<open>trim ''a/b'' = ''a/b''\<close> show ?thesis by simp
qed

lemma load_topic_rules_patterns:
  "load_topic_rules expand launch d es seen ids = Inr rules \<Longrightarrow> map rule_id rules = ids"
proof (induction ids arbitrary: seen rules)
  case (Cons i ids)
  then obtain seen' rules' r where "load_topic_rules expand launch d es seen' ids = Inr rules'" "rules = r # rules'" "rule_id r = i"
    by (auto simp: res_iffs Let_def)
  with Cons.IH show ?case by simp
qed simp

text \<open>
  with a loaded video configuration every absolute topic of an image type is served: its
  spec resolves, from the best matching rule among the configured ones followed by the built-in
  catch-all. The first configured rule of maximal specificity wins, and the catch-all is used
  only when no configured rule that matches is at least as specific.
\<close>

theorem video_topics_resolve:
  assumes "video_loadConfig expand launch params = Inr config"
    and "normalizeGlobalName expand topic = CHR ''/'' # rest"
    and "classifyRosIngestMode itype = Some mode"
  shows "\<exists>rules builtin rule spec. ros_topic_rules config = rules @ [builtin] \<and> rule_pattern builtin = rootSubtree
       \<and> map rule_id rules = mp_topic_ids params
       \<and> resolveRosTopicSpec expand config topic itype = Inr spec
       \<and> is_best_match rule_pattern (CHR ''/'' # rest) (rules @ [builtin]) rule
       \<and> spec_input spec = RosInput \<lparr>ri_topic = CHR ''/'' # rest, ri_interface_type = itype, ri_ingest_mode = mode,
                                     ri_rule_id = rule_id rule, ri_transform = rule_transform rule\<rparr>
       \<and> spec_options spec = rule_options rule"
proof -
  let ?d = "video_global_options (mp_publish params)"
  let ?b = "\<lparr>rule_pattern = rootSubtree, rule_id = ''default_ros'', rule_transform = [], rule_options = ?d\<rparr>"
  obtain rules where r: "load_topic_rules expand launch ?d (mp_topics params) [] (mp_topic_ids params) = Inr rules"
      "ros_topic_rules config = rules @ [?b]"
    using assms(1) by (auto simp: video_loadConfig_def Let_def res_iffs video_makeDefaultConfig_def)
  have "pattern_matches (rule_pattern ?b) (CHR ''/'' # rest)" by (simp add: has_prefix_def)
  then have "findBestRosResourcePatternMatch rule_pattern (rules @ [?b]) (CHR ''/'' # rest) \<noteq> None"
    unfolding findBest_None_iff by auto
  then obtain rule where rule: "findBestRosResourcePatternMatch rule_pattern (rules @ [?b]) (CHR ''/'' # rest) = Some rule" by auto
  from findBest_is_best [OF this] have best: "is_best_match rule_pattern (CHR ''/'' # rest) (rules @ [?b]) rule" .
  have "resolveRosTopicSpec expand config topic itype = Inr
      \<lparr>stream_key = ''topic:'' @ CHR ''/'' # rest, track_name = ''lkros.video.'' @ makeRosTopicTrackSuffix (CHR ''/'' # rest),
       spec_input = RosInput \<lparr>ri_topic = CHR ''/'' # rest, ri_interface_type = itype, ri_ingest_mode = mode,
                              ri_rule_id = rule_id rule, ri_transform = rule_transform rule\<rparr>,
       spec_options = rule_options rule\<rparr>"
    using assms(2,3) r(2) rule by (simp add: resolveRosTopicSpec_def selectRosTopicRule_def Let_def)
  then obtain spec where spec: "resolveRosTopicSpec expand config topic itype = Inr spec"
      "spec_input spec = RosInput \<lparr>ri_topic = CHR ''/'' # rest, ri_interface_type = itype, ri_ingest_mode = mode,
                              ri_rule_id = rule_id rule, ri_transform = rule_transform rule\<rparr>"
      "spec_options spec = rule_options rule" by simp
  from r(2) load_topic_rules_patterns [OF r(1)] best spec show ?thesis
    by (intro exI [of _ rules] exI [of _ ?b] exI [of _ rule] exI [of _ spec]) simp
qed

definition source_ok :: "gst_launch \<Rightarrow> (string \<Rightarrow> string \<Rightarrow> string) \<Rightarrow> string \<Rightarrow> string \<Rightarrow> other_source \<Rightarrow> bool" where
  "source_ok launch build sink name src \<longleftrightarrow> name \<noteq> [] \<and> trim name = name \<and> source_fragment src \<noteq> []
     \<and> (\<exists>ctx. validatePipeline launch ctx (build (source_fragment src) (source_transform src)) (makeOtherSourceLayout sink) = Inr ())"

lemma load_other_sources_ok:
  assumes "load_other_sources launch label build sink opts es seen acc ids = Inr res"
    and "distinct (keys acc)" "al_all (source_ok launch build sink) acc"
  shows "distinct (keys res) \<and> al_all (source_ok launch build sink) res \<and> set (keys res) = set (keys acc) \<union> trim ` set ids"
  using assms
proof (induction ids arbitrary: seen acc)
  case (Cons i ids)
  obtain seen' entry where e: "requireUniqueEntry seen i es (''other '' @ label @ '' id'') (''other '' @ label @ '' source'') = Inr (seen', entry)"
    using Cons.prems(1) by (auto simp: res_iffs)
  let ?src = "\<lparr>source_fragment = trim (sp_source entry), source_transform = trim (sp_transform entry), source_options = opts (sp_publish entry)\<rparr>"
  let ?acc = "AList.update (trim i) ?src acc"
  have v: "trim (sp_source entry) \<noteq> []" "trim i \<noteq> []"
      "\<exists>ctx. validatePipeline launch ctx (build (trim (sp_source entry)) (trim (sp_transform entry))) (makeOtherSourceLayout sink) = Inr ()"
      "load_other_sources launch label build sink opts es seen' ?acc ids = Inr res"
    using Cons.prems(1) e by (auto simp: Let_def res_iffs split: if_splits)
  have "source_ok launch build sink (trim i) ?src" using v by (simp add: source_ok_def)
  then have "distinct (keys ?acc)" "al_all (source_ok launch build sink) ?acc"
    using Cons.prems(2,3) by (simp_all add: al_simps al_all_update)
  from Cons.IH [OF v(4) this] show ?case by (auto simp: update_keys)
qed simp

text \<open>
  a loaded video configuration has exactly the configured sources under their trimmed names,
  all distinct and not blank, and each one's pipeline, with the bridge's tail, was validated to
  contain no endpoint but the bridge's own.
\<close>

theorem loaded_sources_validated:
  assumes "video_loadConfig expand launch params = Inr config"
  shows "distinct (keys (other_sources config)) \<and> set (keys (other_sources config)) = trim ` set (mp_other_ids params)
       \<and> al_all (source_ok launch video_buildPipelineDescription kVideoAppSinkName) (other_sources config)"
proof -
  obtain sources where "load_other_sources launch ''video'' video_buildPipelineDescription kVideoAppSinkName
        (\<lambda>p. video_entry_options p (video_global_options (mp_publish params))) (mp_others params) [] [] (mp_other_ids params) = Inr sources"
      "other_sources config = sources"
    using assms by (auto simp: video_loadConfig_def Let_def res_iffs)
  from load_other_sources_ok [OF this(1)] this(2) show ?thesis by simp
qed

section \<open>A configuration\<close>

definition sample_publish :: publish_params where
  "sample_publish = \<lparr>prm_codec = ''vp8'', prm_max_bitrate_bps = 0, prm_max_framerate = 0, prm_simulcast = [], prm_dtx = [], prm_red = []\<rparr>"

definition sample_params :: media_params where
  "sample_params = \<lparr>mp_publish = sample_publish, mp_topic_ids = [''front''],
     mp_topics = [(''front'', \<lparr>tp_pattern = ''/cam/*'', tp_transform = [], tp_publish = sample_publish\<rparr>)],
     mp_other_ids = [''desk''], mp_others = [(''desk'', \<lparr>sp_source = ''v4l2src'', sp_transform = [], sp_publish = sample_publish\<rparr>)]\<rparr>"

text \<open>A parser that yields the bridge's endpoints and accepts every description.\<close>

definition sample_launch :: gst_launch where
  "sample_launch d = (None, Some (Bin ((if take 6 d = ''appsrc'' then [\<lparr>factory_name = ''appsrc'', element_name = kVideoAppSrcName\<rparr>] else [])
     @ [\<lparr>factory_name = ''appsink'', element_name = kVideoAppSinkName\<rparr>])))"

definition sample_expand :: expander where
  "sample_expand n node ns svc = Inr n"

lemma sample_load: "\<exists>config. video_loadConfig sample_expand sample_launch sample_params = Inr config"
proof -
  have "sum.isl (video_loadConfig sample_expand sample_launch sample_params) = False"
    by code_simp
  then show ?thesis by (cases "video_loadConfig sample_expand sample_launch sample_params") auto
qed

theorem loaded_sources_validated_witness:
  "\<exists>config. video_loadConfig sample_expand sample_launch sample_params = Inr config
     \<and> distinct (keys (other_sources config)) \<and> set (keys (other_sources config)) = {trim ''desk''}"
proof -
  obtain config where c: "video_loadConfig sample_expand sample_launch sample_params = Inr config" using sample_load ..
  from loaded_sources_validated [OF c] c show ?thesis by (auto simp: sample_params_def)
qed

theorem video_topics_resolve_witness:
  "\<exists>config spec. video_loadConfig sample_expand sample_launch sample_params = Inr config
     \<and> resolveRosTopicSpec sample_expand config ''/cam/left'' ''sensor_msgs/msg/Image'' = Inr spec"
proof -
  obtain config where c: "video_loadConfig sample_expand sample_launch sample_params = Inr config" using sample_load ..
  have "normalizeGlobalName sample_expand ''/cam/left'' = ''/cam/left''" by code_simp
  moreover have "classifyRosIngestMode ''sensor_msgs/msg/Image'' = Some RawImage" by code_simp
  ultimately obtain spec where "resolveRosTopicSpec sample_expand config ''/cam/left'' ''sensor_msgs/msg/Image'' = Inr spec"
    using video_topics_resolve [OF c] by blast
  with c show ?thesis by blast
qed

end
