(* ===== verification/Data_Track.thy ===== *)
theory Data_Track
  imports Subscription_Qos
begin

text \<open>
  \<open>DataTrackPublisher\<close> (src/src/data_track_publisher.hpp, data_track_publisher.cpp): one ROS topic
  forwarded to one LiveKit data track, with interval suppression and the cached last message of
  transient-local topics. Publishing a track, creating the ROS subscription and unpublishing are
  LiveKit and rclcpp calls: their results come from the environment record. The room's open
  tracks are the list of their names.
\<close>

section \<open>State\<close>

record publication =
  pb_interval_ms :: int
  last_push_at :: "time option"
  is_transient_local :: bool
  cached_cdr :: "bytes option"

record data_publisher =
  dp_topic :: string
  dp_type :: string
  dp_track_name :: string
  dp_interval_ms :: int
  dp_publication :: "publication option"

record track_env =
  te_publish :: bool  \<comment> \<open>\<open>publishDataTrack\<close> returned a track\<close>
  te_qos :: "resolved_qos res"  \<comment> \<open>\<open>resolveSubscriptionQos\<close>\<close>
  te_subscribe :: bool  \<comment> \<open>\<open>create_generic_subscription\<close> succeeded\<close>
  te_unpublish :: bool  \<comment> \<open>\<open>unpublishDataTrack\<close> succeeded\<close>

definition makeTrackName :: "string \<Rightarrow> string" where
  "makeTrackName ros_topic = ''lkros.data'' @ map (\<lambda>ch. if ch = CHR ''/'' then CHR ''.'' else ch) ros_topic"

definition data_publisher_new :: "string \<Rightarrow> string \<Rightarrow> data_publisher" where
  "data_publisher_new topic itype =
     \<lparr>dp_topic = topic, dp_type = itype, dp_track_name = makeTrackName topic, dp_interval_ms = 0, dp_publication = None\<rparr>"

section \<open>Messages\<close>

text \<open>
  \<open>State::push\<close> at time \<open>now\<close>: the new state and whether the frame goes to the track.
\<close>

definition push :: "time \<Rightarrow> bytes \<Rightarrow> publication \<Rightarrow> publication \<times> bool" where
  "push now message p =
     (let p1 = (if is_transient_local p then p\<lparr>cached_cdr := Some message\<rparr> else p) in
      if pb_interval_ms p1 \<noteq> 0 then
        (case last_push_at p1 of
           None \<Rightarrow> (p1\<lparr>last_push_at := Some now\<rparr>, True)
         | Some t \<Rightarrow> if now - t < ms (pb_interval_ms p1) then (p1, False) else (p1\<lparr>last_push_at := Some now\<rparr>, True))
      else (p1, True))"

fun push_all :: "(time \<times> bytes) list \<Rightarrow> publication \<Rightarrow> publication \<times> (time \<times> bytes) list" where
  "push_all [] p = (p, [])"
| "push_all ((now, m) # ms') p =
     (let (p', sent) = push now m p; (p'', out) = push_all ms' p' in (p'', (if sent then [(now, m)] else []) @ out))"

section \<open>Publication\<close>

text \<open>The constructor of \<open>Publication\<close>: a failed subscription unpublishes the track again.\<close>

definition publication_open :: "track_env \<Rightarrow> string \<Rightarrow> int \<Rightarrow> string list \<Rightarrow> publication option \<times> string list" where
  "publication_open env name interval tracks =
     (if \<not> te_publish env then (None, tracks)
      else (let opened = name # tracks;
                undone = (if te_unpublish env then tracks else opened) in
            case te_qos env of
              Inl e \<Rightarrow> (None, undone)
            | Inr q \<Rightarrow>
                if \<not> te_subscribe env then (None, undone)
                else (Some \<lparr>pb_interval_ms = interval, last_push_at = None,
                            is_transient_local = (durability (rq_qos q) = TransientLocal), cached_cdr = None\<rparr>, opened)))"

definition dp_publish :: "track_env \<Rightarrow> data_publisher \<Rightarrow> string list \<Rightarrow> data_publisher \<times> string list" where
  "dp_publish env d tracks =
     (if dp_publication d \<noteq> None then (d, tracks)
      else (let (p, tracks') = publication_open env (dp_track_name d) (dp_interval_ms d) tracks
            in (d\<lparr>dp_publication := p\<rparr>, tracks')))"

definition dp_setIntervalMs :: "int \<Rightarrow> data_publisher \<Rightarrow> data_publisher" where
  "dp_setIntervalMs n d =
     d\<lparr>dp_interval_ms := n, dp_publication := map_option (\<lambda>p. p\<lparr>pb_interval_ms := n\<rparr>) (dp_publication d)\<rparr>"

definition isPublished :: "data_publisher \<Rightarrow> bool" where
  "isPublished d \<longleftrightarrow> dp_publication d \<noteq> None"

definition dp_qos :: "data_publisher \<Rightarrow> string" where
  "dp_qos d = (case dp_publication d of
     Some p \<Rightarrow> if is_transient_local p then ''transient_local'' else ''volatile'' | None \<Rightarrow> ''volatile'')"

definition cachedMessage :: "data_publisher \<Rightarrow> (string \<times> bytes) option" where
  "cachedMessage d = (case dp_publication d of None \<Rightarrow> None
     | Some p \<Rightarrow> (case cached_cdr p of None \<Rightarrow> None | Some b \<Rightarrow> Some (dp_topic d, b)))"

text \<open>The destructor of the publication.\<close>

definition publication_close :: "bool \<Rightarrow> data_publisher \<Rightarrow> string list \<Rightarrow> string list" where
  "publication_close unpublish_ok d tracks =
     (if dp_publication d = None \<or> \<not> unpublish_ok then tracks else remove1 (dp_track_name d) tracks)"

definition on_message :: "time \<Rightarrow> bytes \<Rightarrow> data_publisher \<Rightarrow> data_publisher" where
  "on_message now m d = d\<lparr>dp_publication := map_option (fst \<circ> push now m) (dp_publication d)\<rparr>"

section \<open>Properties\<close>

lemma map_slash_inj:
  assumes "CHR ''.'' \<notin> set s" "CHR ''.'' \<notin> set t"
    and "map (\<lambda>ch. if ch = CHR ''/'' then CHR ''.'' else ch) s = map (\<lambda>ch. if ch = CHR ''/'' then CHR ''.'' else ch) t"
  shows "s = t"
  using assms
proof (induction s arbitrary: t)
  case (Cons c s)
  then show ?case by (cases t) (auto split: if_splits)
qed simp

text \<open>
  data track names are unique per topic: topics without a dot, as ROS topic names are, map
  to the same track name only if they are equal.
\<close>

theorem data_track_names_inj:
  assumes "CHR ''.'' \<notin> set s" "CHR ''.'' \<notin> set t" "makeTrackName s = makeTrackName t"
  shows "s = t"
  using map_slash_inj [OF assms(1,2)] assms(3) by (simp add: makeTrackName_def)

theorem data_track_names_inj_witness: "makeTrackName ''/a/b'' \<noteq> makeTrackName ''/a_b''"
  using data_track_names_inj [of "''/a/b''" "''/a_b''"] by auto

text \<open>Consecutive elements are at least \<open>d\<close> apart.\<close>

fun spaced :: "time \<Rightarrow> time list \<Rightarrow> bool" where
  "spaced d (a # b # ts) \<longleftrightarrow> a + d \<le> b \<and> spaced d (b # ts)"
| "spaced d _ \<longleftrightarrow> True"

lemma push_all_spaced:
  assumes "pb_interval_ms p = n" "n > 0"
  shows "(case last_push_at p of None \<Rightarrow> spaced (ms n) (map fst (snd (push_all xs p)))
     | Some t \<Rightarrow> spaced (ms n) (t # map fst (snd (push_all xs p))))"
  using assms
proof (induction xs arbitrary: p)
  case (Cons x xs)
  obtain now m where x: "x = (now, m)" by (cases x)
  obtain p' sent where pu: "push now m p = (p', sent)" by fastforce
  have p': "pb_interval_ms p' = n" using pu Cons.prems by (auto simp: push_def Let_def split: if_splits option.splits)
  have last: "last_push_at p' = (if sent then Some now else last_push_at p)"
    "last_push_at p = Some t \<Longrightarrow> sent \<Longrightarrow> t + ms n \<le> now" "last_push_at p = None \<Longrightarrow> sent" for t
    using pu Cons.prems by (auto simp: push_def Let_def split: if_splits option.splits)
  show ?case
    using Cons.IH [OF p' Cons.prems(2)] last pu x
    by (cases sent; cases "last_push_at p") (auto split: prod.splits)
qed (simp split: option.split)

lemma push_cache: "is_transient_local (fst (push now m p)) = is_transient_local p"
  "cached_cdr (fst (push now m p)) = (if is_transient_local p then Some m else cached_cdr p)"
  by (auto simp: push_def Let_def split: option.split)

lemma push_all_cache:
  "is_transient_local p \<Longrightarrow> cached_cdr (fst (push_all xs p)) = (if xs = [] then cached_cdr p else Some (snd (last xs)))"
  "\<not> is_transient_local p \<Longrightarrow> cached_cdr (fst (push_all xs p)) = cached_cdr p"
proof (induction xs arbitrary: p)
  case (Cons x xs)
  obtain now m where x: "x = (now, m)" by (cases x)
  { case 1
    with Cons.IH(1) [of "fst (push now m p)"] show ?case by (simp add: x push_cache Let_def case_prod_beta) }
  { case 2
    with Cons.IH(2) [of "fst (push now m p)"] show ?case by (simp add: x push_cache Let_def case_prod_beta) }
qed simp_all

text \<open>
  throttling. Under a positive interval the frames a publication forwards are at least that
  interval apart, whatever messages arrive and when; suppression never loses the cache: for a
  transient-local topic the cached message is the last one received, forwarded or not.
\<close>

theorem push_throttles:
  assumes "pb_interval_ms p = n" "n > 0"
  shows "spaced (ms n) (map fst (snd (push_all xs p)))
       \<and> (is_transient_local p \<and> xs \<noteq> [] \<longrightarrow> cached_cdr (fst (push_all xs p)) = Some (snd (last xs)))"
proof -
  have "spaced d (t # ts) \<Longrightarrow> spaced d ts" for d t ts by (cases ts) auto
  with push_all_spaced [OF assms, of xs] push_all_cache(1) [of p xs] show ?thesis
    by (auto split: option.splits)
qed

definition sample_publication :: publication where
  "sample_publication = \<lparr>pb_interval_ms = 10, last_push_at = None, is_transient_local = True, cached_cdr = None\<rparr>"

theorem push_throttles_witness:
  "map fst (snd (push_all [(0, [1]), (4000000, [2]), (12000000, [3])] sample_publication)) = [0, 12000000]
   \<and> cached_cdr (fst (push_all [(0, [1]), (4000000, [2])] sample_publication)) = Some [2]"
proof -
  have p: "pb_interval_ms sample_publication = 10" "(0::int) < 10" "is_transient_local sample_publication"
    by (simp_all add: sample_publication_def)
  have "map fst (snd (push_all [(0, [1]), (4000000, [2]), (12000000, [3])] sample_publication)) = [0, 12000000]"
    by code_simp
  with push_throttles [OF p(1,2), of "[(0, [1]), (4000000, [2])]"] p(3) show ?thesis by simp
qed

text \<open>
  a publish attempt leaks no track: when it fails and unpublishing works, the room's open
  tracks are as before; when it succeeds, exactly the publisher's track was added; and an
  already published publisher is left alone.
\<close>

theorem publish_no_leak:
  assumes "te_unpublish env" "dp_publish env d tracks = (d', tracks')"
  shows "tracks' = (if \<not> isPublished d \<and> isPublished d' then dp_track_name d # tracks else tracks)
       \<and> (isPublished d \<longrightarrow> d' = d)"
  using assms
  by (auto simp: dp_publish_def publication_open_def isPublished_def Let_def split: if_splits sum.splits prod.splits)

theorem publish_no_leak_witness:
  "snd (dp_publish \<lparr>te_publish = True, te_qos = Inl (Runtime_error ''graph''), te_subscribe = False, te_unpublish = True\<rparr>
     (data_publisher_new ''/a'' ''p/msg/T'') [''x'']) = [''x'']"
proof -
  let ?env = "\<lparr>te_publish = True, te_qos = Inl (Runtime_error ''graph''), te_subscribe = False, te_unpublish = True\<rparr>"
  let ?d = "data_publisher_new ''/a'' ''p/msg/T''"
  obtain d' t' where r: "dp_publish ?env ?d [''x''] = (d', t')" by fastforce
  have "\<not> isPublished d'" using r by (auto simp: dp_publish_def publication_open_def data_publisher_new_def isPublished_def)
  with publish_no_leak [OF _ r] r show ?thesis by simp
qed

end
