(* ===== verification/Lease_Manager.thy ===== *)
theory Lease_Manager
  imports Data_Track Stream_Config Access_Policy Caches Protocol_Requests Settlement
begin

text \<open>
  \<open>SubscriptionLeaseManager\<close> (src/src/subscription_lease_manager.hpp,
  subscription_lease_manager.cpp): per-requester leases on shared publishers. All operations run
  on the ROS executor, one after the other. ROS name resolution, the graph, the creation of
  media tracks and of data tracks and the LiveKit send are the environment record of a step; the
  media track publishers are represented by the spec they were created from.
\<close>

section \<open>State\<close>

record session_lease =
  sl_requester :: string
  sl_expiry :: time

record lease =
  lease_interval_ms :: int
  lease_expires :: time

datatype runtime = DataRuntime data_publisher | VideoRuntime stream_spec | AudioRuntime stream_spec

record subscription =
  sub_kind :: target_kind
  sub_name :: string
  sub_type :: string
  leases :: "(string, lease) alist"
  sub_runtime :: runtime

record lease_manager =
  lm_shutdown :: bool
  session_leases :: "(string, session_lease) alist"
  subscriptions :: "(string, subscription) alist"
  open_tracks :: "string list"
  status_sent :: "(string \<times> json) list"  \<comment> \<open>destination and body of every published status\<close>
  streams_sent :: "(string \<times> string \<times> bytes) list"  \<comment> \<open>destination, name and bytes of every byte stream\<close>

record lm_config =
  cfg_policy :: access_policy
  cfg_expand :: expander
  cfg_video :: stream_config
  cfg_audio :: stream_config
  cfg_lease_duration :: time

record lm_env =
  le_now :: time
  le_resolve :: "string \<Rightarrow> string res"
  le_graph :: "(string, string list) alist"
  le_media :: "stream_spec \<Rightarrow> unit res"
  le_track :: "string \<Rightarrow> track_env"
  le_send :: "unit res"

record resolved_demand =
  rd_kind :: target_kind
  rd_name :: string
  rd_key :: string
  rd_type :: string
  rd_interval_ms :: int
  rd_video :: "stream_spec option"
  rd_audio :: "stream_spec option"

definition lm_init :: lease_manager where
  "lm_init = \<lparr>lm_shutdown = False, session_leases = [], subscriptions = [], open_tracks = [],
     status_sent = [], streams_sent = []\<rparr>"

section \<open>Sessions\<close>

definition resolveIdentity :: "string \<Rightarrow> string option \<Rightarrow> lease_manager \<Rightarrow> string option" where
  "resolveIdentity requester sid m =
     (if requester = [] then
        (case sid of
           None \<Rightarrow> None
         | Some i \<Rightarrow> map_option sl_requester (lookup (session_leases m) i))
      else (case sid of
              None \<Rightarrow> Some requester
            | Some i \<Rightarrow>
                (case lookup (session_leases m) i of
                   Some l \<Rightarrow> if sl_requester l \<noteq> requester then None else Some requester
                 | None \<Rightarrow> Some requester)))"

definition renewSessionLease :: "string \<Rightarrow> string option \<Rightarrow> time \<Rightarrow> lease_manager \<Rightarrow> lease_manager res" where
  "renewSessionLease requester sid expiry m =
     (case sid of
        None \<Rightarrow> Inr m
      | Some i \<Rightarrow>
          (case lookup (session_leases m) i of
             Some l \<Rightarrow>
               if sl_requester l \<noteq> requester then
                 Inl (Logic_error ''session lease invariant violated: session_id must resolve to one requester'')
               else Inr (m\<lparr>session_leases := AList.update i (l\<lparr>sl_expiry := expiry\<rparr>) (session_leases m)\<rparr>)
           | None \<Rightarrow>
               Inr (m\<lparr>session_leases := AList.update i \<lparr>sl_requester = requester, sl_expiry = expiry\<rparr> (session_leases m)\<rparr>)))"

definition pruneSessionLeases :: "time \<Rightarrow> lease_manager \<Rightarrow> lease_manager" where
  "pruneSessionLeases now m = m\<lparr>session_leases := filter (\<lambda>(i, l). now < sl_expiry l) (session_leases m)\<rparr>"

section \<open>Demands\<close>

definition makeKey :: "target_kind \<Rightarrow> string \<Rightarrow> string" where
  "makeKey kind name = toWire kind @ '':'' @ name"

definition resolveName :: "(string \<Rightarrow> string res) \<Rightarrow> target_kind \<Rightarrow> string \<Rightarrow> string res" where
  "resolveName resolve kind name = (if kind = Topic then resolve (trim name) else Inr (trim name))"

definition resolveVideoSpec :: "lm_config \<Rightarrow> target_kind \<Rightarrow> string \<Rightarrow> string \<Rightarrow> stream_spec res" where
  "resolveVideoSpec cfg kind name itype =
     (case kind of
        Topic \<Rightarrow> resolveRosTopicSpec (cfg_expand cfg) (cfg_video cfg) name itype
      | OtherVideo \<Rightarrow> video_resolveOtherSourceSpec (cfg_video cfg) name
      | OtherAudio \<Rightarrow> Inl (Invalid_argument ''other audio is not a video stream request''))"

definition resolveAudioSpec :: "lm_config \<Rightarrow> target_kind \<Rightarrow> string \<Rightarrow> stream_spec res" where
  "resolveAudioSpec cfg kind name =
     (case kind of
        OtherAudio \<Rightarrow> audio_resolveOtherSourceSpec (cfg_audio cfg) name
      | _ \<Rightarrow> Inl (Invalid_argument ''only other audio requests resolve to audio streams''))"

definition resolveDemand :: "lm_env \<Rightarrow> demand \<Rightarrow> resolved_demand res" where
  "resolveDemand env d =
     res_bind (resolveName (le_resolve env) (demand_kind d) (demand_name d)) (\<lambda>name.
       Inr \<lparr>rd_kind = demand_kind d, rd_name = name, rd_key = makeKey (demand_kind d) name, rd_type = [],
            rd_interval_ms = max (case preferred_interval_ms d of None \<Rightarrow> 0 | Some n \<Rightarrow> n) 0,
            rd_video = None, rd_audio = None\<rparr>)"

definition resolveDemandDelivery :: "lm_config \<Rightarrow> lm_env \<Rightarrow> resolved_demand \<Rightarrow> resolved_demand res" where
  "resolveDemandDelivery cfg env d =
     res_bind (if rd_kind d = Topic
               then res_bind (requireSingleType (le_graph env) (rd_name d) ''topic'') (\<lambda>t. Inr (d\<lparr>rd_type := t\<rparr>))
               else Inr d) (\<lambda>d1.
       if rd_kind d1 = Topic \<and> classifyRosIngestMode (rd_type d1) = None then Inr d1
       else if rd_kind d1 = OtherAudio then
         res_bind (resolveAudioSpec cfg (rd_kind d1) (rd_name d1)) (\<lambda>s. Inr (d1\<lparr>rd_audio := Some s\<rparr>))
       else res_bind (resolveVideoSpec cfg (rd_kind d1) (rd_name d1) (rd_type d1)) (\<lambda>s. Inr (d1\<lparr>rd_video := Some s\<rparr>)))"

section \<open>Subscriptions\<close>

fun min_interval_from :: "int \<Rightarrow> (string \<times> lease) list \<Rightarrow> int" where
  "min_interval_from n [] = n"
| "min_interval_from n ((r, l) # ls) = min_interval_from (min n (lease_interval_ms l)) ls"

text \<open>\<open>minimumIntervalMs\<close> reads the first lease unconditionally: its callers pass a non-empty map.\<close>

definition minimumIntervalMs :: "(string, lease) alist \<Rightarrow> int" where
  "minimumIntervalMs ls = min_interval_from (lease_interval_ms (snd (hd ls))) ls"

definition subscription_report :: "subscription \<Rightarrow> subscription_status" where
  "subscription_report s =
     (let base = \<lparr>st_kind = sub_kind s, st_name = sub_name s, degradation_reason = [], st_interface_type = sub_type s,
                  st_qos = None, st_interval_ms = 0, delivery = Data, st_track_name = []\<rparr> in
      case sub_runtime s of
        DataRuntime p \<Rightarrow>
          (if isPublished p then base\<lparr>st_track_name := dp_track_name p, st_qos := Some (dp_qos p)\<rparr> else base)
            \<lparr>st_interval_ms := dp_interval_ms p\<rparr>
      | VideoRuntime sp \<Rightarrow> base\<lparr>delivery := Video, st_track_name := track_name sp\<rparr>
      | AudioRuntime sp \<Rightarrow> base\<lparr>delivery := Audio, st_track_name := track_name sp\<rparr>)"

text \<open>\<open>renew\<close>: record the lease, then adapt a data publisher and retry an unpublished one.\<close>

definition renew_subscription ::
  "lm_env \<Rightarrow> string \<Rightarrow> lease \<Rightarrow> subscription \<Rightarrow> string list \<Rightarrow> subscription \<times> string list" where
  "renew_subscription env requester l s tracks =
     (let s1 = s\<lparr>leases := AList.update requester l (leases s)\<rparr> in
      case sub_runtime s1 of
        DataRuntime p \<Rightarrow>
          (let p1 = dp_setIntervalMs (minimumIntervalMs (leases s1)) p;
               (p2, tracks') = (if isPublished p then (p1, tracks) else dp_publish (le_track env (dp_topic p1)) p1 tracks)
           in (s1\<lparr>sub_runtime := DataRuntime p2\<rparr>, tracks'))
      | _ \<Rightarrow> (s1, tracks))"

definition create_runtime ::
  "lm_env \<Rightarrow> resolved_demand \<Rightarrow> (string, lease) alist \<Rightarrow> string list \<Rightarrow> (runtime \<times> string list) res" where
  "create_runtime env d ls tracks =
     (case rd_audio d of
        Some sp \<Rightarrow> res_bind (le_media env sp) (\<lambda>_. Inr (AudioRuntime sp, tracks))
      | None \<Rightarrow>
          (case rd_video d of
             Some sp \<Rightarrow> res_bind (le_media env sp) (\<lambda>_. Inr (VideoRuntime sp, tracks))
           | None \<Rightarrow>
               (let p = dp_setIntervalMs (minimumIntervalMs ls) (data_publisher_new (rd_name d) (rd_type d));
                    (p', tracks') = dp_publish (le_track env (rd_name d)) p tracks
                in Inr (DataRuntime p', tracks'))))"

definition create_subscription ::
  "lm_env \<Rightarrow> resolved_demand \<Rightarrow> string \<Rightarrow> lease \<Rightarrow> lease_manager \<Rightarrow> subscription_status res \<times> lease_manager" where
  "create_subscription env d requester l m =
     (let ls = [(requester, l)] in
      case create_runtime env d ls (open_tracks m) of
        Inl e \<Rightarrow> (Inl e, m)
      | Inr (rt, tracks) \<Rightarrow>
          (let s = \<lparr>sub_kind = rd_kind d, sub_name = rd_name d, sub_type = rd_type d, leases = ls, sub_runtime = rt\<rparr>
           in (Inr (subscription_report s),
               m\<lparr>subscriptions := AList.update (rd_key d) s (subscriptions m), open_tracks := tracks\<rparr>)))"

definition ensure ::
  "lm_config \<Rightarrow> lm_env \<Rightarrow> string \<Rightarrow> resolved_demand \<Rightarrow> time \<Rightarrow> lease_manager \<Rightarrow> subscription_status res \<times> lease_manager" where
  "ensure cfg env requester d expiry m =
     (if lm_shutdown m then (Inl (Runtime_error ''Subscription registry is shut down.''), m)
      else (let l = \<lparr>lease_interval_ms = rd_interval_ms d, lease_expires = expiry\<rparr> in
            case lookup (subscriptions m) (rd_key d) of
              Some s \<Rightarrow>
                (let (s', tracks) = renew_subscription env requester l s (open_tracks m)
                 in (Inr (subscription_report s'),
                     m\<lparr>subscriptions := AList.update (rd_key d) s' (subscriptions m), open_tracks := tracks\<rparr>))
            | None \<Rightarrow>
                (case resolveDemandDelivery cfg env d of
                   Inl e \<Rightarrow> (Inl e, m)
                 | Inr d' \<Rightarrow> create_subscription env d' requester l m)))"

section \<open>Heartbeats\<close>

definition error_entry :: "demand \<Rightarrow> error_reason \<Rightarrow> string \<Rightarrow> status_entry" where
  "error_entry d r msg = Failed \<lparr>es_kind = demand_kind d, es_name = demand_name d, raw_kind = [], raw_name = None,
     reason = r, message = msg\<rparr>"

definition demand_allowed :: "lm_config \<Rightarrow> demand \<Rightarrow> bool" where
  "demand_allowed cfg d \<longleftrightarrow> demand_kind d \<noteq> Topic \<or> allows (cfg_expand cfg) (cfg_policy cfg) Subscribe (demand_name d)"

definition appendDemandStatus ::
  "lm_config \<Rightarrow> lm_env \<Rightarrow> string \<Rightarrow> time \<Rightarrow> demand \<Rightarrow> lease_manager \<Rightarrow> status_entry \<times> lease_manager" where
  "appendDemandStatus cfg env requester expiry d m =
     (if \<not> demand_allowed cfg d then
        (error_entry d Forbidden (''ROS topic '' @ quoted (demand_name d) @ '' not permitted.''), m)
      else if lm_shutdown m then (error_entry d NotFound ''Subscription registry is shut down.'', m)
      else (case resolveDemand env d of
              Inl e \<Rightarrow> (error_entry d NotFound (what e), m)
            | Inr rd \<Rightarrow>
                (case ensure cfg env requester rd expiry m of
                   (Inr st, m') \<Rightarrow> (Active st, m')
                 | (Inl e, m') \<Rightarrow> (error_entry d NotFound (what e), m'))))"

definition appendUnsupportedStatus :: "unsupported_subscription \<Rightarrow> status_entry" where
  "appendUnsupportedStatus u = Failed \<lparr>es_kind = Topic, es_name = [], raw_kind = unsup_kind u, raw_name = unsup_name u,
     reason = UnsupportedKind, message = ''This bridge does not support subscription kind '' @ quoted (unsup_kind u) @ ''.''\<rparr>"

fun demand_statuses ::
  "lm_config \<Rightarrow> lm_env \<Rightarrow> string \<Rightarrow> time \<Rightarrow> demand list \<Rightarrow> lease_manager \<Rightarrow> status_entry list \<times> lease_manager" where
  "demand_statuses cfg env requester expiry [] m = ([], m)"
| "demand_statuses cfg env requester expiry (d # ds) m =
     (let (st, m1) = appendDemandStatus cfg env requester expiry d m;
          (sts, m2) = demand_statuses cfg env requester expiry ds m1
      in (st # sts, m2))"

definition createStatusReport ::
  "lm_config \<Rightarrow> lm_env \<Rightarrow> heartbeat \<Rightarrow> string \<Rightarrow> time \<Rightarrow> lease_manager \<Rightarrow> status_report \<times> lease_manager" where
  "createStatusReport cfg env hb requester expiry m =
     (let (sts, m') = demand_statuses cfg env requester expiry (demands hb) m
      in (\<lparr>statuses = sts @ map appendUnsupportedStatus (unsupported hb), rep_session_id = session_id hb,
           lease_expiry = Some expiry\<rparr>, m'))"

text \<open>
  \<open>publishStatusReport\<close>: nothing for a report without entries; a failed send is logged and
  swallowed; the serializer may throw.
\<close>

definition publishStatusReport :: "lm_env \<Rightarrow> string \<Rightarrow> status_report \<Rightarrow> lease_manager \<Rightarrow> lease_manager res" where
  "publishStatusReport env requester report m =
     (if statuses report = [] then Inr m
      else res_bind (serialize_report (le_now env) report) (\<lambda>body.
        case le_send env of
          Inl e \<Rightarrow> Inr m
        | Inr _ \<Rightarrow> Inr (m\<lparr>status_sent := status_sent m @ [(requester, body)]\<rparr>)))"

definition handleHeartbeat :: "lm_config \<Rightarrow> lm_env \<Rightarrow> string \<Rightarrow> heartbeat \<Rightarrow> lease_manager \<Rightarrow> lease_manager res" where
  "handleHeartbeat cfg env requester0 hb m =
     (case resolveIdentity requester0 (session_id hb) m of
        None \<Rightarrow> Inr m
      | Some requester \<Rightarrow>
          (let expiry = le_now env + cfg_lease_duration cfg in
           res_bind (renewSessionLease requester (session_id hb) expiry m) (\<lambda>m1.
             (let (report, m2) = createStatusReport cfg env hb requester expiry m1
              in publishStatusReport env requester report m2))))"

definition handleHeartbeatPayload ::
  "bytes json_parser \<Rightarrow> lm_config \<Rightarrow> lm_env \<Rightarrow> string \<Rightarrow> bytes \<Rightarrow> lease_manager \<Rightarrow> lease_manager res" where
  "handleHeartbeatPayload parse cfg env requester payload m =
     (case parse_heartbeat parse (cfg_expand cfg) payload of
        Inl e \<Rightarrow> Inr m
      | Inr hb \<Rightarrow> handleHeartbeat cfg env requester hb m)"

section \<open>Expiry, shutdown and echo\<close>

text \<open>One subscription of \<open>pruneLeases\<close>: \<open>None\<close> when its last lease expired.\<close>

definition prune_subscription :: "time \<Rightarrow> subscription \<Rightarrow> subscription option" where
  "prune_subscription now s =
     (let kept = filter (\<lambda>(r, l). now < lease_expires l) (leases s) in
      if length kept = length (leases s) then Some s
      else if kept \<noteq> [] then
        (let s1 = s\<lparr>leases := kept\<rparr> in
         Some (case sub_runtime s1 of
                 DataRuntime p \<Rightarrow> s1\<lparr>sub_runtime := DataRuntime (dp_setIntervalMs (minimumIntervalMs kept) p)\<rparr>
               | _ \<Rightarrow> s1))
      else None)"

text \<open>Erasing a subscription destroys its publisher, which unpublishes its track.\<close>

definition drop_runtime :: "lm_env \<Rightarrow> subscription \<Rightarrow> string list \<Rightarrow> string list" where
  "drop_runtime env s tracks =
     (case sub_runtime s of
        DataRuntime p \<Rightarrow> publication_close (te_unpublish (le_track env (dp_topic p))) p tracks
      | _ \<Rightarrow> tracks)"

fun prune_all ::
  "lm_env \<Rightarrow> time \<Rightarrow> (string, subscription) alist \<Rightarrow> string list \<Rightarrow> (string, subscription) alist \<times> string list" where
  "prune_all env now [] tracks = ([], tracks)"
| "prune_all env now ((k, s) # subs) tracks =
     (case prune_subscription now s of
        Some s' \<Rightarrow> (let (subs', t) = prune_all env now subs tracks in ((k, s') # subs', t))
      | None \<Rightarrow> prune_all env now subs (drop_runtime env s tracks))"

definition pruneLeases :: "lm_env \<Rightarrow> lease_manager \<Rightarrow> lease_manager" where
  "pruneLeases env m =
     (let (subs, tracks) = prune_all env (le_now env) (subscriptions m) (open_tracks m)
      in m\<lparr>subscriptions := subs, open_tracks := tracks\<rparr>)"

definition pruneExpiredLeases :: "lm_env \<Rightarrow> lease_manager \<Rightarrow> lease_manager" where
  "pruneExpiredLeases env m =
     (if lm_shutdown m then m else pruneLeases env (pruneSessionLeases (le_now env) m))"

definition lm_shutdown_op :: "lm_env \<Rightarrow> lease_manager \<Rightarrow> lease_manager" where
  "lm_shutdown_op env m =
     (if lm_shutdown m then m
      else m\<lparr>lm_shutdown := True, session_leases := [], subscriptions := [],
             open_tracks := fold (\<lambda>(k, s). drop_runtime env s) (subscriptions m) (open_tracks m)\<rparr>)"

definition dispatchEchoOnce ::
  "lm_env \<Rightarrow> target_kind \<Rightarrow> string \<Rightarrow> string \<Rightarrow> lease_manager \<Rightarrow> echo_once_result res \<times> lease_manager" where
  "dispatchEchoOnce env kind name requester m =
     (case resolveName (le_resolve env) kind name of
        Inl e \<Rightarrow> (Inl e, m)
      | Inr n \<Rightarrow>
          (case lookup (subscriptions m) (makeKey kind n) of
             None \<Rightarrow> (Inr NoValue, m)
           | Some s \<Rightarrow>
               (case sub_runtime s of
                  DataRuntime p \<Rightarrow>
                    (case cachedMessage p of
                       None \<Rightarrow> (Inr NoValue, m)
                     | Some (topic, cdr) \<Rightarrow>
                         (case le_send env of
                            Inl e \<Rightarrow> (Inr NoValue, m)
                          | Inr _ \<Rightarrow> (Inr Sent, m\<lparr>streams_sent := streams_sent m @ [(requester, topic, cdr)]\<rparr>)))
                | _ \<Rightarrow> (Inr NoValue, m))))"

section \<open>Expiring tables\<close>

text \<open>The contract shared by the session table and the lease table of a subscription.\<close>

locale expiring_table =
  fixes expires :: "'v \<Rightarrow> time"
    and prune :: "time \<Rightarrow> (string, 'v) alist \<Rightarrow> (string, 'v) alist"
  assumes prune_distinct: "distinct (keys al) \<Longrightarrow> distinct (keys (prune now al))"
    and prune_lookup: "distinct (keys al) \<Longrightarrow> lookup (prune now al) k =
      (case lookup al k of None \<Rightarrow> None | Some v \<Rightarrow> if now < expires v then Some v else None)"
begin

lemma prune_keeps_live: "distinct (keys al) \<Longrightarrow> lookup al k = Some v \<Longrightarrow> now < expires v \<Longrightarrow> lookup (prune now al) k = Some v"
  by (simp add: prune_lookup)

lemma prune_only_live: "distinct (keys al) \<Longrightarrow> lookup (prune now al) k = Some v \<Longrightarrow> lookup al k = Some v \<and> now < expires v"
  by (simp add: prune_lookup split: option.splits if_splits)

text \<open>Pruning again at a later time is pruning once at that time.\<close>

lemma prune_prune:
  "distinct (keys al) \<Longrightarrow> now \<le> later \<Longrightarrow> lookup (prune later (prune now al)) k = lookup (prune later al) k"
  by (auto simp: prune_lookup prune_distinct split: option.split)

text \<open>A renewed entry survives until its new expiry.\<close>

lemma renew_survives:
  "distinct (keys al) \<Longrightarrow> now < expires v \<Longrightarrow> lookup (prune now (AList.update k v al)) k = Some v"
  by (simp add: prune_lookup al_simps)

end

definition live_leases :: "time \<Rightarrow> (string, lease) alist \<Rightarrow> (string, lease) alist" where
  "live_leases now ls = filter (\<lambda>(r, l). now < lease_expires l) ls"

definition live_sessions :: "time \<Rightarrow> (string, session_lease) alist \<Rightarrow> (string, session_lease) alist" where
  "live_sessions now ls = filter (\<lambda>(i, l). now < sl_expiry l) ls"

interpretation ll: expiring_table lease_expires live_leases
  by unfold_locales (simp_all add: live_leases_def al_simps lookup_filter_distinct)

interpretation ls: expiring_table sl_expiry live_sessions
  by unfold_locales (simp_all add: live_sessions_def al_simps lookup_filter_distinct)

section \<open>Intervals\<close>

lemma Min_insert_min: "finite S \<Longrightarrow> Min (insert (min a b) S) = min a (Min (insert b S))" for a b :: int
  by (cases "S = {}") (simp_all add: min.assoc)

lemma min_interval_from_spec: "min_interval_from n ls = Min (set (n # map (lease_interval_ms \<circ> snd) ls))"
proof (induction ls arbitrary: n)
  case (Cons x ls)
  obtain r l where x: "x = (r, l)" by (cases x)
  show ?case unfolding x min_interval_from.simps Cons.IH by (simp add: Min_insert_min)
qed simp

definition interval_of :: "(string, lease) alist \<Rightarrow> int" where
  "interval_of ls = Min ((lease_interval_ms \<circ> snd) ` set ls)"

lemma minimumIntervalMs_Min: "ls \<noteq> [] \<Longrightarrow> minimumIntervalMs ls = interval_of ls"
  by (cases ls) (simp_all add: minimumIntervalMs_def min_interval_from_spec interval_of_def insert_absorb)

section \<open>Invariant\<close>

definition publisher_ok :: "string \<Rightarrow> (string, lease) alist \<Rightarrow> data_publisher \<Rightarrow> bool" where
  "publisher_ok name ls p \<longleftrightarrow> dp_topic p = name \<and> dp_track_name p = makeTrackName name
     \<and> dp_interval_ms p = interval_of ls \<and> (\<forall>b. dp_publication p = Some b \<longrightarrow> pb_interval_ms b = interval_of ls)"

definition sub_ok :: "string \<Rightarrow> subscription \<Rightarrow> bool" where
  "sub_ok k s \<longleftrightarrow> k = makeKey (sub_kind s) (sub_name s) \<and> leases s \<noteq> [] \<and> distinct (keys (leases s))
     \<and> al_all (\<lambda>r l. 0 \<le> lease_interval_ms l) (leases s)
     \<and> (\<forall>p. sub_runtime s = DataRuntime p \<longrightarrow> publisher_ok (sub_name s) (leases s) p)"

definition lm_inv :: "lease_manager \<Rightarrow> bool" where
  "lm_inv m \<longleftrightarrow> distinct (keys (session_leases m)) \<and> distinct (keys (subscriptions m))
     \<and> al_all sub_ok (subscriptions m) \<and> (lm_shutdown m \<longrightarrow> subscriptions m = [])"

lemma lm_inv_init: "lm_inv lm_init"
  by (simp add: lm_inv_def lm_init_def)

lemma publisher_ok_set:
  "dp_topic p = name \<Longrightarrow> dp_track_name p = makeTrackName name \<Longrightarrow> ls \<noteq> [] \<Longrightarrow>
   publisher_ok name ls (dp_setIntervalMs (minimumIntervalMs ls) p)"
  by (auto simp: publisher_ok_def dp_setIntervalMs_def minimumIntervalMs_Min)

lemma publisher_ok_publish:
  "publisher_ok name ls p \<Longrightarrow> dp_publish env p tracks = (p', t) \<Longrightarrow> publisher_ok name ls p'"
  by (auto simp: publisher_ok_def dp_publish_def publication_open_def Let_def split: if_splits prod.splits sum.splits)

lemma push_interval: "pb_interval_ms (fst (push now m p)) = pb_interval_ms p"
  by (simp add: push_def Let_def split: option.split)

lemma publisher_ok_message: "publisher_ok name ls p \<Longrightarrow> publisher_ok name ls (on_message now b p)"
  by (auto simp: publisher_ok_def on_message_def push_interval)

lemma update_not_Nil: "AList.update k v al \<noteq> []"
  by (cases al) auto

lemma renew_ok:
  assumes "sub_ok k s" "0 \<le> lease_interval_ms l" "renew_subscription env r l s tracks = (s', t)"
  shows "sub_ok k s' \<and> sub_kind s' = sub_kind s \<and> sub_name s' = sub_name s \<and> leases s' = AList.update r l (leases s)"
proof -
  let ?ls = "AList.update r l (leases s)"
  have base: "?ls \<noteq> []" "distinct (keys ?ls)" "al_all (\<lambda>r l. 0 \<le> lease_interval_ms l) ?ls"
    using assms(1,2) by (auto simp: sub_ok_def update_not_Nil al_simps al_all_update)
  show ?thesis
  proof (cases "sub_runtime s")
    case (DataRuntime p)
    let ?p1 = "dp_setIntervalMs (minimumIntervalMs ?ls) p"
    have "publisher_ok (sub_name s) ?ls ?p1"
      using assms(1) DataRuntime base(1) by (intro publisher_ok_set) (auto simp: sub_ok_def publisher_ok_def)
    moreover obtain p2 where "s' = s\<lparr>leases := ?ls, sub_runtime := DataRuntime p2\<rparr>"
        "p2 = ?p1 \<or> (\<exists>t'. dp_publish (le_track env (dp_topic ?p1)) ?p1 tracks = (p2, t'))"
      using assms(3) DataRuntime by (auto simp: renew_subscription_def Let_def split: if_splits prod.splits)
    ultimately show ?thesis
      using assms(1) base by (auto simp: sub_ok_def dest: publisher_ok_publish)
  qed (use assms base in \<open>auto simp: renew_subscription_def sub_ok_def\<close>)
qed

lemma create_runtime_ok:
  assumes "create_runtime env d [(r, l)] tracks = Inr (rt, t)" "rt = DataRuntime p"
  shows "publisher_ok (rd_name d) [(r, l)] p"
proof -
  let ?p = "dp_setIntervalMs (minimumIntervalMs [(r, l)]) (data_publisher_new (rd_name d) (rd_type d))"
  have "publisher_ok (rd_name d) [(r, l)] ?p"
    by (intro publisher_ok_set) (auto simp: data_publisher_new_def)
  moreover have "\<exists>t'. dp_publish (le_track env (rd_name d)) ?p tracks = (p, t')"
    using assms by (auto simp: create_runtime_def res_iffs Let_def split: option.splits prod.splits)
  ultimately show ?thesis by (auto dest: publisher_ok_publish)
qed

lemma delivery_frame:
  "resolveDemandDelivery cfg env d = Inr d' \<Longrightarrow>
     rd_key d' = rd_key d \<and> rd_kind d' = rd_kind d \<and> rd_name d' = rd_name d \<and> rd_interval_ms d' = rd_interval_ms d"
  by (auto simp: resolveDemandDelivery_def res_bind_Inr_iff split: if_splits)

lemma resolveDemand_ok:
  "resolveDemand env d = Inr rd \<Longrightarrow> rd_key rd = makeKey (rd_kind rd) (rd_name rd) \<and> 0 \<le> rd_interval_ms rd \<and> rd_kind rd = demand_kind d"
  by (auto simp: resolveDemand_def res_bind_Inr_iff)

text \<open>What \<open>ensure\<close> may change: only the subscription of the demand's key.\<close>

lemma ensure_ok:
  assumes "lm_inv m" "rd_key d = makeKey (rd_kind d) (rd_name d)" "0 \<le> rd_interval_ms d"
    and "ensure cfg env r d expiry m = (st, m')"
  shows "lm_inv m' \<and> session_leases m' = session_leases m \<and> lm_shutdown m' = lm_shutdown m \<and> status_sent m' = status_sent m
    \<and> (\<forall>k. k \<noteq> rd_key d \<longrightarrow> lookup (subscriptions m') k = lookup (subscriptions m) k)
    \<and> (\<forall>x. st = Inr x \<longrightarrow> (\<exists>s. lookup (subscriptions m') (rd_key d) = Some s \<and> x = subscription_report s
          \<and> lookup (leases s) r = Some \<lparr>lease_interval_ms = rd_interval_ms d, lease_expires = expiry\<rparr>))
    \<and> (\<forall>e. st = Inl e \<longrightarrow> subscriptions m' = subscriptions m)"
proof -
  let ?l = "\<lparr>lease_interval_ms = rd_interval_ms d, lease_expires = expiry\<rparr>"
  consider (down) "lm_shutdown m"
    | (renew) s s' t where "\<not> lm_shutdown m" "lookup (subscriptions m) (rd_key d) = Some s"
        "renew_subscription env r ?l s (open_tracks m) = (s', t)"
        "st = Inr (subscription_report s')" "m' = m\<lparr>subscriptions := AList.update (rd_key d) s' (subscriptions m), open_tracks := t\<rparr>"
    | (fails) e where "\<not> lm_shutdown m" "st = Inl e" "m' = m"
    | (create) d' rt t s where "\<not> lm_shutdown m" "resolveDemandDelivery cfg env d = Inr d'"
        "create_runtime env d' [(r, ?l)] (open_tracks m) = Inr (rt, t)"
        "s = \<lparr>sub_kind = rd_kind d', sub_name = rd_name d', sub_type = rd_type d', leases = [(r, ?l)], sub_runtime = rt\<rparr>"
        "st = Inr (subscription_report s)" "m' = m\<lparr>subscriptions := AList.update (rd_key d') s (subscriptions m), open_tracks := t\<rparr>"
  proof (cases "lm_shutdown m")
    case False
    show thesis
    proof (cases "lookup (subscriptions m) (rd_key d)")
      case (Some s)
      obtain s' t where "renew_subscription env r ?l s (open_tracks m) = (s', t)" by fastforce
      with False Some assms(4) show thesis by (intro that(2)) (auto simp: ensure_def)
    next
      case None
      show thesis
      proof (cases "resolveDemandDelivery cfg env d")
        case (Inl e)
        with False None assms(4) show thesis by (intro that(3)) (auto simp: ensure_def)
      next
        case d': (Inr d')
        show thesis
        proof (cases "create_runtime env d' [(r, ?l)] (open_tracks m)")
          case (Inl e)
          with False None d' assms(4) show thesis
            by (intro that(3)) (auto simp: ensure_def create_subscription_def)
        next
          case (Inr x)
          obtain rt t where "x = (rt, t)" by (cases x)
          with Inr False None d' assms(4) show thesis
            by (intro that(4)) (auto simp: ensure_def create_subscription_def Let_def)
        qed
      qed
    qed
  qed simp
  then show ?thesis
  proof cases
    case down
    with assms show ?thesis by (auto simp: ensure_def)
  next
    case renew
    have "sub_ok (rd_key d) s" using assms(1) renew(2) al_all_lookup by (fastforce simp: lm_inv_def)
    from renew_ok [OF this _ renew(3)] assms(3) have "sub_ok (rd_key d) s'" "leases s' = AList.update r ?l (leases s)" by auto
    with renew assms(1) show ?thesis by (auto simp: lm_inv_def al_simps al_all_update)
  next
    case create
    have "sub_ok (rd_key d) s"
      using create_runtime_ok [OF create(3)] delivery_frame [OF create(2)] assms(2,3) create(4) by (auto simp: sub_ok_def)
    with create delivery_frame [OF create(2)] assms(1) show ?thesis by (auto simp: lm_inv_def al_simps al_all_update)
  qed (use assms in auto)
qed

section \<open>Heartbeat lemmas\<close>

text \<open>The keys a list of demands may touch: those of its permitted, resolvable demands.\<close>

definition touched :: "lm_config \<Rightarrow> lm_env \<Rightarrow> demand list \<Rightarrow> string set" where
  "touched cfg env ds = {rd_key rd | rd d. d \<in> set ds \<and> demand_allowed cfg d \<and> resolveDemand env d = Inr rd}"

text \<open>What answering demands keeps of the manager.\<close>

definition answers :: "string set \<Rightarrow> lease_manager \<Rightarrow> lease_manager \<Rightarrow> bool" where
  "answers ks m m' \<longleftrightarrow> lm_inv m' \<and> session_leases m' = session_leases m \<and> lm_shutdown m' = lm_shutdown m
     \<and> status_sent m' = status_sent m \<and> (\<forall>k. k \<notin> ks \<longrightarrow> lookup (subscriptions m') k = lookup (subscriptions m) k)"

lemma answers_refl: "lm_inv m \<Longrightarrow> answers ks m m"
  by (simp add: answers_def)

lemma answers_trans: "answers ks m m1 \<Longrightarrow> answers ls m1 m2 \<Longrightarrow> answers (ks \<union> ls) m m2"
  by (auto simp: answers_def)

lemma appendDemandStatus_answers:
  assumes "lm_inv m" "appendDemandStatus cfg env r expiry d m = (st, m')"
  shows "answers (touched cfg env [d]) m m'"
proof (cases "demand_allowed cfg d \<and> \<not> lm_shutdown m \<and> (\<exists>rd. resolveDemand env d = Inr rd)")
  case True
  then obtain rd where rd: "resolveDemand env d = Inr rd" by blast
  obtain x m1 where e: "ensure cfg env r rd expiry m = (x, m1)" by fastforce
  have "m' = m1" using assms(2) True rd e by (auto simp: appendDemandStatus_def split: sum.splits)
  moreover have "rd_key rd \<in> touched cfg env [d]" using True rd by (auto simp: touched_def)
  moreover have "\<forall>k. k \<noteq> rd_key rd \<longrightarrow> lookup (subscriptions m1) k = lookup (subscriptions m) k" "lm_inv m1"
    "session_leases m1 = session_leases m" "lm_shutdown m1 = lm_shutdown m" "status_sent m1 = status_sent m"
    using ensure_ok [OF assms(1) _ _ e] resolveDemand_ok [OF rd] by simp_all
  ultimately show ?thesis unfolding answers_def by metis
next
  case False
  then have "m' = m" using assms(2) by (auto simp: appendDemandStatus_def split: sum.splits if_splits)
  with assms(1) show ?thesis by (simp add: answers_refl)
qed

lemma demand_statuses_answers:
  "lm_inv m \<Longrightarrow> demand_statuses cfg env r expiry ds m = (sts, m') \<Longrightarrow>
     answers (touched cfg env ds) m m' \<and> length sts = length ds"
proof (induction ds arbitrary: m sts m')
  case (Cons d ds)
  obtain st m1 where 1: "appendDemandStatus cfg env r expiry d m = (st, m1)" by fastforce
  obtain sts' m2 where 2: "demand_statuses cfg env r expiry ds m1 = (sts', m2)" by fastforce
  have "m' = m2" "sts = st # sts'" using Cons.prems(2) 1 2 by auto
  moreover have a: "answers (touched cfg env [d]) m m1" by (rule appendDemandStatus_answers [OF Cons.prems(1) 1])
  moreover have "answers (touched cfg env ds) m1 m2 \<and> length sts' = length ds"
    using a by (intro Cons.IH [OF _ 2]) (simp add: answers_def)
  moreover have "touched cfg env [d] \<union> touched cfg env ds = touched cfg env (d # ds)" by (auto simp: touched_def)
  ultimately show ?case using answers_trans by fastforce
qed (simp add: answers_refl)

text \<open>Entries produced here serialize: an unsupported entry echoes a kind that is not empty.\<close>

definition serializable :: "status_entry \<Rightarrow> bool" where
  "serializable e \<longleftrightarrow> (case e of Active st \<Rightarrow> True | Failed x \<Rightarrow> reason x = UnsupportedKind \<longrightarrow> raw_kind x \<noteq> [])"

lemma serialize_entries_total: "list_all serializable es \<Longrightarrow> \<exists>js. serialize_entries es = Inr js \<and> length js = length es"
proof (induction es)
  case (Cons e es)
  then obtain js where "serialize_entries es = Inr js" "length js = length es" by auto
  moreover have "\<exists>j. serialize_entry e = Inr j"
    using Cons.prems by (cases e) (auto simp: serializable_def serialize_error_def)
  ultimately show ?case by auto
qed simp

lemma appendDemandStatus_serializable: "serializable (fst (appendDemandStatus cfg env r expiry d m))"
  by (auto simp: appendDemandStatus_def serializable_def error_entry_def split: sum.splits prod.splits)

lemma demand_statuses_serializable: "list_all serializable (fst (demand_statuses cfg env r expiry ds m))"
proof (induction ds arbitrary: m)
  case (Cons d ds)
  then show ?case using appendDemandStatus_serializable by (simp add: Let_def case_prod_beta)
qed simp

lemma createStatusReport_ok:
  assumes "lm_inv m" "createStatusReport cfg env hb r expiry m = (rep, m')"
  shows "answers (touched cfg env (demands hb)) m m' \<and> length (statuses rep) = length (demands hb) + length (unsupported hb)
    \<and> rep_session_id rep = session_id hb \<and> lease_expiry rep = Some expiry
    \<and> ((\<forall>u \<in> set (unsupported hb). unsup_kind u \<noteq> []) \<longrightarrow> list_all serializable (statuses rep))"
proof -
  obtain sts m1 where d: "demand_statuses cfg env r expiry (demands hb) m = (sts, m1)" by fastforce
  have "rep = \<lparr>statuses = sts @ map appendUnsupportedStatus (unsupported hb), rep_session_id = session_id hb, lease_expiry = Some expiry\<rparr>"
    "m' = m1" using assms(2) d by (auto simp: createStatusReport_def)
  moreover have "list_all serializable sts" using demand_statuses_serializable [of cfg env r expiry "demands hb" m] d by simp
  moreover have "(\<forall>u \<in> set us. unsup_kind u \<noteq> []) \<Longrightarrow> list_all serializable (map appendUnsupportedStatus us)" for us
    by (induction us) (auto simp: serializable_def appendUnsupportedStatus_def)
  ultimately show ?thesis using demand_statuses_answers [OF assms(1) d] by simp
qed

lemma renew_session_total:
  assumes "resolveIdentity r0 sid m = Some r"
  shows "\<exists>m'. renewSessionLease r sid expiry m = Inr m' \<and> subscriptions m' = subscriptions m \<and> lm_shutdown m' = lm_shutdown m
    \<and> status_sent m' = status_sent m \<and> (distinct (keys (session_leases m)) \<longrightarrow> distinct (keys (session_leases m')))
    \<and> (\<forall>j. lookup (session_leases m') j =
         (if sid = Some j then Some \<lparr>sl_requester = r, sl_expiry = expiry\<rparr> else lookup (session_leases m) j))"
proof (cases sid)
  case (Some i)
  show ?thesis
  proof (cases "lookup (session_leases m) i")
    case None
    with Some show ?thesis by (auto simp: renewSessionLease_def al_simps)
  next
    case l: (Some l)
    then have "sl_requester l = r" using assms Some by (auto simp: resolveIdentity_def split: if_splits)
    with Some l show ?thesis by (cases l) (auto simp: renewSessionLease_def al_simps)
  qed
qed (simp add: renewSessionLease_def)

lemma publishStatusReport_ok:
  assumes "list_all serializable (statuses rep)"
  shows "\<exists>m'. publishStatusReport env r rep m = Inr m' \<and> subscriptions m' = subscriptions m
    \<and> session_leases m' = session_leases m \<and> lm_shutdown m' = lm_shutdown m
    \<and> (status_sent m' = status_sent m \<or> (\<exists>body. statuses rep \<noteq> [] \<and> serialize_report (le_now env) rep = Inr body
          \<and> status_sent m' = status_sent m @ [(r, body)]))"
  using serialize_entries_total [OF assms]
  by (auto simp: publishStatusReport_def serialize_report_def split: sum.split)

text \<open>One accepted heartbeat, summed up.\<close>

lemma heartbeat_ok:
  assumes inv: "lm_inv m" and us: "\<forall>u \<in> set (unsupported hb). unsup_kind u \<noteq> []"
    and r: "resolveIdentity r0 (session_id hb) m = Some r"
  shows "\<exists>m'. handleHeartbeat cfg env r0 hb m = Inr m' \<and> lm_inv m' \<and> lm_shutdown m' = lm_shutdown m
    \<and> (\<forall>j. lookup (session_leases m') j = (if session_id hb = Some j
          then Some \<lparr>sl_requester = r, sl_expiry = le_now env + cfg_lease_duration cfg\<rparr> else lookup (session_leases m) j))
    \<and> (\<forall>k. k \<notin> touched cfg env (demands hb) \<longrightarrow> lookup (subscriptions m') k = lookup (subscriptions m) k)
    \<and> (status_sent m' = status_sent m \<or> (\<exists>rep body. serialize_report (le_now env) rep = Inr body
          \<and> length (statuses rep) = length (demands hb) + length (unsupported hb) \<and> statuses rep \<noteq> []
          \<and> rep_session_id rep = session_id hb \<and> lease_expiry rep = Some (le_now env + cfg_lease_duration cfg)
          \<and> status_sent m' = status_sent m @ [(r, body)]))"
proof -
  let ?e = "le_now env + cfg_lease_duration cfg"
  obtain m1 where m1: "renewSessionLease r (session_id hb) ?e m = Inr m1" "subscriptions m1 = subscriptions m"
      "lm_shutdown m1 = lm_shutdown m" "status_sent m1 = status_sent m"
      "distinct (keys (session_leases m)) \<longrightarrow> distinct (keys (session_leases m1))"
      "\<forall>j. lookup (session_leases m1) j = (if session_id hb = Some j then Some \<lparr>sl_requester = r, sl_expiry = ?e\<rparr> else lookup (session_leases m) j)"
    using renew_session_total [OF r] by blast
  have i1: "lm_inv m1" using inv m1 by (simp add: lm_inv_def)
  obtain rep m2 where rep: "createStatusReport cfg env hb r ?e m1 = (rep, m2)" by fastforce
  note c = createStatusReport_ok [OF i1 rep]
  then have "list_all serializable (statuses rep)" using us by blast
  from publishStatusReport_ok [OF this, of env r m2] obtain m' where m': "publishStatusReport env r rep m2 = Inr m'"
      "subscriptions m' = subscriptions m2" "session_leases m' = session_leases m2" "lm_shutdown m' = lm_shutdown m2"
      "status_sent m' = status_sent m2 \<or> (\<exists>body. statuses rep \<noteq> [] \<and> serialize_report (le_now env) rep = Inr body
          \<and> status_sent m' = status_sent m2 @ [(r, body)])" by blast
  have "handleHeartbeat cfg env r0 hb m = Inr m'" using r m1(1) rep m'(1) by (simp add: handleHeartbeat_def Let_def)
  moreover have "lm_inv m'" using c m'(2-4) by (auto simp: answers_def lm_inv_def)
  moreover have "status_sent m2 = status_sent m" using c m1(4) by (simp add: answers_def)
  ultimately show ?thesis using c m'(2-5) m1(2,3,6) by (intro exI [of _ m']) (auto simp: answers_def)
qed

lemma parse_entries_kinds:
  assumes "parse_entries expand es acc = Inr acc'" "\<forall>u \<in> set (acc_unsupported acc). unsup_kind u \<noteq> []"
  shows "\<forall>u \<in> set (acc_unsupported acc'). unsup_kind u \<noteq> []"
  using assms
proof (induction es arbitrary: acc)
  case (Cons e es)
  then obtain t where t: "parse_entry expand e = Inr t"
      "parse_entries expand es (case t of Inl u \<Rightarrow> add_unsupported u acc | Inr d \<Rightarrow> add_demand d acc) = Inr acc'"
    unfolding parse_entries_step res_bind_Inr_iff by blast
  have "unsup_kind u \<noteq> []" if "t = Inl u" for u
    using parse_entry_unsupported t(1) that by blast
  then have "\<forall>u \<in> set (acc_unsupported (case t of Inl u \<Rightarrow> add_unsupported u acc | Inr d \<Rightarrow> add_demand d acc)). unsup_kind u \<noteq> []"
    using Cons.prems(2) by (cases t) (auto simp: add_demand_frame add_unsupported_def Let_def)
  from Cons.IH [OF t(2) this] show ?case .
qed simp

lemma parsed_heartbeat_kinds:
  assumes "parse_heartbeat parse expand payload = Inr hb"
  shows "\<forall>u \<in> set (unsupported hb). unsup_kind u \<noteq> []"
proof -
  from assms obtain body where b: "parse_heartbeat_body expand body = Inr hb"
    by (auto dest!: parse_heartbeat_body_Inr)
  then obtain es acc where "parse_entries expand es hb_acc_init = Inr acc" "unsupported hb = acc_unsupported acc"
    using parse_heartbeat_body_entries by blast
  with parse_entries_kinds [of expand es hb_acc_init acc] show ?thesis by (simp add: hb_acc_init_def)
qed

section \<open>Pruning lemmas\<close>

lemma prune_subscription_spec:
  assumes "sub_ok k s"
  shows "case prune_subscription now s of
      None \<Rightarrow> live_leases now (leases s) = []
    | Some s' \<Rightarrow> sub_ok k s' \<and> leases s' = live_leases now (leases s) \<and> sub_kind s' = sub_kind s \<and> sub_name s' = sub_name s"
proof (cases "length (live_leases now (leases s)) = length (leases s)")
  case True
  then have "live_leases now (leases s) = leases s"
    unfolding live_leases_def by (metis filter_True filter_id_conv length_filter_less less_irrefl)
  with True assms show ?thesis by (simp add: prune_subscription_def live_leases_def)
next
  case False
  let ?kept = "live_leases now (leases s)"
  have kept: "distinct (keys ?kept)" "al_all (\<lambda>r l. 0 \<le> lease_interval_ms l) ?kept"
    using assms by (auto simp: sub_ok_def live_leases_def al_simps al_all_filter)
  show ?thesis
  proof (cases "?kept = []")
    case True
    with False show ?thesis by (simp add: prune_subscription_def live_leases_def)
  next
    case nonempty: False
    have "publisher_ok (sub_name s) ?kept (dp_setIntervalMs (minimumIntervalMs ?kept) p)" if "sub_runtime s = DataRuntime p" for p
      using assms that nonempty by (intro publisher_ok_set) (auto simp: sub_ok_def publisher_ok_def)
    with False nonempty kept assms show ?thesis
      by (cases "sub_runtime s")
        (simp_all add: prune_subscription_def Let_def sub_ok_def flip: live_leases_def)
  qed
qed

lemma prune_all_spec:
  assumes "al_all sub_ok subs" "distinct (keys subs)" "prune_all env now subs tracks = (subs', t)"
  shows "al_all sub_ok subs' \<and> distinct (keys subs') \<and> set (keys subs') \<subseteq> set (keys subs)
    \<and> (\<forall>k. lookup subs' k = (case lookup subs k of None \<Rightarrow> None | Some s \<Rightarrow> prune_subscription now s))"
  using assms
proof (induction subs arbitrary: tracks subs')
  case (Cons x subs)
  obtain k s where x: "x = (k, s)" by (cases x)
  have ok: "sub_ok k s" using Cons.prems(1) x by simp
  have fresh: "lookup subs k = None" using Cons.prems(2) x by (auto simp: map_of_eq_None_iff)
  show ?case
  proof (cases "prune_subscription now s")
    case None
    with Cons.prems x have "prune_all env now subs (drop_runtime env s tracks) = (subs', t)" by simp
    from Cons.IH [OF _ _ this] Cons.prems x None fresh show ?thesis by auto
  next
    case (Some s')
    obtain r t' where r: "prune_all env now subs tracks = (r, t')" by fastforce
    then have "subs' = (k, s') # r" using Cons.prems(3) x Some by simp
    moreover have "sub_ok k s'" using prune_subscription_spec [OF ok, of now] Some by simp
    moreover have "t' = t" using Cons.prems(3) x Some r by simp
    ultimately show ?thesis using Cons.IH [of tracks r] r Cons.prems x Some by auto
  qed
qed simp

lemma prune_ok:
  assumes "lm_inv m" "\<not> lm_shutdown m"
  shows "lm_inv (pruneExpiredLeases env m)
    \<and> session_leases (pruneExpiredLeases env m) = live_sessions (le_now env) (session_leases m)
    \<and> (\<forall>k. lookup (subscriptions (pruneExpiredLeases env m)) k =
         (case lookup (subscriptions m) k of None \<Rightarrow> None | Some s \<Rightarrow> prune_subscription (le_now env) s))"
proof -
  obtain subs t where p: "prune_all env (le_now env) (subscriptions m) (open_tracks m) = (subs, t)" by fastforce
  have "pruneExpiredLeases env m = m\<lparr>session_leases := live_sessions (le_now env) (session_leases m), subscriptions := subs, open_tracks := t\<rparr>"
    using assms(2) p by (simp add: pruneExpiredLeases_def pruneLeases_def pruneSessionLeases_def live_sessions_def)
  with prune_all_spec [OF _ _ p] assms show ?thesis by (simp add: lm_inv_def ls.prune_distinct)
qed

section \<open>Runs\<close>

definition deliver :: "string \<Rightarrow> time \<Rightarrow> bytes \<Rightarrow> lease_manager \<Rightarrow> lease_manager" where
  "deliver k now b m =
     (case lookup (subscriptions m) k of
        Some s \<Rightarrow> (case sub_runtime s of
            DataRuntime p \<Rightarrow> m\<lparr>subscriptions := AList.update k (s\<lparr>sub_runtime := DataRuntime (on_message now b p)\<rparr>) (subscriptions m)\<rparr>
          | _ \<Rightarrow> m)
      | None \<Rightarrow> m)"

text \<open>
  What the executor runs: heartbeats, the prune timer, echo requests and shutdown, with ROS
  messages arriving in between. \<open>None\<close> in a heartbeat result is impossible: it is proved total.
\<close>

inductive lmstep :: "lm_config \<Rightarrow> lease_manager \<Rightarrow> lease_manager \<Rightarrow> bool" for cfg where
  Heartbeat: "handleHeartbeatPayload parse cfg env requester payload m = Inr m' \<Longrightarrow> lmstep cfg m m'"
| Prune_timer: "lmstep cfg m (pruneExpiredLeases env m)"
| Message: "lmstep cfg m (deliver k now b m)"
| Echo: "lmstep cfg m (snd (dispatchEchoOnce env kind name requester m))"
| Shut_down: "lmstep cfg m (lm_shutdown_op env m)"

inductive_cases lmstepE: "lmstep cfg m m'"

lemma payload_ok:
  assumes "lm_inv m"
  shows "\<exists>m'. handleHeartbeatPayload parse cfg env r0 payload m = Inr m' \<and> lm_inv m' \<and> lm_shutdown m' = lm_shutdown m"
proof (cases "parse_heartbeat parse (cfg_expand cfg) payload")
  case (Inr hb)
  show ?thesis
  proof (cases "resolveIdentity r0 (session_id hb) m")
    case None
    with Inr assms show ?thesis by (simp add: handleHeartbeatPayload_def handleHeartbeat_def)
  next
    case (Some r)
    from heartbeat_ok [OF assms parsed_heartbeat_kinds [OF Inr] this, of cfg env]
    obtain m' where "handleHeartbeat cfg env r0 hb m = Inr m'" "lm_inv m'" "lm_shutdown m' = lm_shutdown m" by blast
    with Inr show ?thesis by (simp add: handleHeartbeatPayload_def)
  qed
qed (use assms in \<open>simp add: handleHeartbeatPayload_def\<close>)

lemma lm_inv_step: "lmstep cfg m m' \<Longrightarrow> lm_inv m \<Longrightarrow> lm_inv m'"
proof (erule lmstepE)
  fix parse env requester payload
  assume "handleHeartbeatPayload parse cfg env requester payload m = Inr m'" "lm_inv m"
  with payload_ok [of m parse cfg env requester payload] show "lm_inv m'" by auto
next
  fix env assume "m' = pruneExpiredLeases env m" "lm_inv m"
  then show "lm_inv m'" using prune_ok by (cases "lm_shutdown m") (auto simp: pruneExpiredLeases_def)
next
  fix k now b assume m': "m' = deliver k now b m" and inv: "lm_inv m"
  show "lm_inv m'"
  proof (cases "\<exists>s p. lookup (subscriptions m) k = Some s \<and> sub_runtime s = DataRuntime p")
    case True
    then obtain s p where s: "lookup (subscriptions m) k = Some s" "sub_runtime s = DataRuntime p" by blast
    have ok: "sub_ok k s" using inv s(1) al_all_lookup by (fastforce simp: lm_inv_def)
    then have "sub_ok k (s\<lparr>sub_runtime := DataRuntime (on_message now b p)\<rparr>)"
      using s(2) publisher_ok_message by (simp add: sub_ok_def)
    with inv s m' show ?thesis by (auto simp: deliver_def lm_inv_def al_simps al_all_update)
  next
    case False
    then have "m' = m" using m' by (auto simp: deliver_def split: option.splits runtime.splits)
    with inv show ?thesis by simp
  qed
next
  fix env kind name requester assume "m' = snd (dispatchEchoOnce env kind name requester m)" "lm_inv m"
  then show "lm_inv m'"
    by (auto simp: dispatchEchoOnce_def lm_inv_def split: sum.split option.split runtime.split)
next
  fix env assume "m' = lm_shutdown_op env m" "lm_inv m"
  then show "lm_inv m'" by (auto simp: lm_shutdown_op_def lm_inv_def)
qed

abbreviation lm_reachable :: "lm_config \<Rightarrow> lease_manager \<Rightarrow> bool" where
  "lm_reachable cfg m \<equiv> (lmstep cfg)\<^sup>*\<^sup>* lm_init m"

lemma reachable_lm_inv: "lm_reachable cfg m \<Longrightarrow> lm_inv m"
  by (induction rule: rtranclp_induct) (auto intro: lm_inv_init lm_inv_step)

end
