(* ===== verification/Lease_Properties.thy ===== *)
theory Lease_Properties
  imports Lease_Manager
begin

text \<open>
  What \<open>SubscriptionLeaseManager\<close> promises its clients, over every state it can reach: heartbeats
  are total, sessions stay bound to one identity, only permitted demands touch a subscription,
  leases expire exactly, renewed subscriptions survive, the effective interval is the minimum of
  the leases, status reports and echoes go to the requester alone, and shutdown is final.
\<close>

section \<open>Shutdown\<close>

definition lm_down :: "lease_manager \<Rightarrow> bool" where
  "lm_down m \<longleftrightarrow> lm_inv m \<and> lm_shutdown m"

interpretation ld: terminal_shutdown "lmstep cfg" lm_down for cfg
proof
  fix m m' assume step: "lmstep cfg m m'" and down: "lm_down m"
  then have inv: "lm_inv m'" using lm_inv_step by (simp add: lm_down_def)
  from step have "lm_shutdown m'"
  proof (cases rule: lmstep.cases)
    case (Heartbeat parse env requester payload)
    with payload_ok [of m parse cfg env requester payload] down show ?thesis by (auto simp: lm_down_def)
  qed (use down in \<open>auto simp: lm_down_def pruneExpiredLeases_def deliver_def dispatchEchoOnce_def lm_shutdown_op_def
         split: option.splits runtime.splits sum.splits\<close>)
  with inv show "lm_down m'" by (simp add: lm_down_def)
qed

lemma lm_shutdown_op_down: "lm_inv m \<Longrightarrow> lm_down (lm_shutdown_op env m)"
  by (auto simp: lm_down_def lm_inv_def lm_shutdown_op_def)

section \<open>Renewal\<close>

text \<open>The requester holds a lease on the keyed subscription that runs until \<open>e\<close>.\<close>

definition holds_until :: "string \<Rightarrow> string \<Rightarrow> time \<Rightarrow> lease_manager \<Rightarrow> bool" where
  "holds_until k r e m \<longleftrightarrow> (\<exists>s l. lookup (subscriptions m) k = Some s \<and> lookup (leases s) r = Some l \<and> lease_expires l = e)"

lemma ensure_holds:
  assumes "lm_inv m" "resolveDemand env d = Inr rd" "ensure cfg env r rd e m = (st, m')"
  shows "holds_until k r e m \<Longrightarrow> holds_until k r e m'"
    and "\<not> lm_shutdown m \<Longrightarrow> lookup (subscriptions m) (rd_key rd) \<noteq> None \<Longrightarrow> holds_until (rd_key rd) r e m'"
    and "lookup (subscriptions m) k \<noteq> None \<Longrightarrow> lookup (subscriptions m') k \<noteq> None"
proof -
  note ok = ensure_ok [OF assms(1) _ _ assms(3)] resolveDemand_ok [OF assms(2)]
  show "holds_until k r e m \<Longrightarrow> holds_until k r e m'" using ok by (cases st; cases "k = rd_key rd") (auto simp: holds_until_def)
  show "lookup (subscriptions m) k \<noteq> None \<Longrightarrow> lookup (subscriptions m') k \<noteq> None"
    using ok by (cases st; cases "k = rd_key rd") auto
  assume "\<not> lm_shutdown m" "lookup (subscriptions m) (rd_key rd) \<noteq> None"
  then have "\<exists>x. st = Inr x" using assms(3) by (auto simp: ensure_def split: prod.splits)
  with ok show "holds_until (rd_key rd) r e m'" by (auto simp: holds_until_def)
qed

lemma append_holds:
  assumes "lm_inv m" "appendDemandStatus cfg env r e d m = (st, m')"
  shows "holds_until k r e m \<Longrightarrow> holds_until k r e m'"
    and "lookup (subscriptions m) k \<noteq> None \<Longrightarrow> lookup (subscriptions m') k \<noteq> None"
    and "demand_allowed cfg d \<Longrightarrow> resolveDemand env d = Inr rd \<Longrightarrow> \<not> lm_shutdown m \<Longrightarrow>
      lookup (subscriptions m) (rd_key rd) \<noteq> None \<Longrightarrow> holds_until (rd_key rd) r e m'"
proof -
  have "m' = m \<or> (\<exists>rd x. resolveDemand env d = Inr rd \<and> ensure cfg env r rd e m = (x, m'))"
    using assms(2) by (auto simp: appendDemandStatus_def split: if_splits sum.splits prod.splits)
  then show "holds_until k r e m \<Longrightarrow> holds_until k r e m'"
    "lookup (subscriptions m) k \<noteq> None \<Longrightarrow> lookup (subscriptions m') k \<noteq> None"
    using ensure_holds(1,3) [OF assms(1)] by blast+
  assume *: "demand_allowed cfg d" "resolveDemand env d = Inr rd" "\<not> lm_shutdown m" "lookup (subscriptions m) (rd_key rd) \<noteq> None"
  then have "\<exists>x. ensure cfg env r rd e m = (x, m')"
    using assms(2) by (auto simp: appendDemandStatus_def split: sum.splits prod.splits)
  with ensure_holds(2) [OF assms(1) *(2)] * show "holds_until (rd_key rd) r e m'" by blast
qed

lemma statuses_keep_holds:
  "lm_inv m \<Longrightarrow> demand_statuses cfg env r e ds m = (sts, m') \<Longrightarrow> holds_until k r e m \<Longrightarrow> holds_until k r e m'"
proof (induction ds arbitrary: m sts)
  case (Cons c ds)
  obtain st m1 where 1: "appendDemandStatus cfg env r e c m = (st, m1)" by fastforce
  moreover have "lm_inv m1" using appendDemandStatus_answers [OF Cons.prems(1) 1] by (simp add: answers_def)
  moreover obtain sts' where "demand_statuses cfg env r e ds m1 = (sts', m')"
    using Cons.prems(2) 1 by (auto simp: Let_def split: prod.splits)
  ultimately show ?case using Cons.IH append_holds(1) [OF Cons.prems(1) 1] Cons.prems(3) by blast
qed simp

lemma statuses_renew:
  "lm_inv m \<Longrightarrow> demand_statuses cfg env r e ds m = (sts, m') \<Longrightarrow> \<not> lm_shutdown m \<Longrightarrow> d \<in> set ds \<Longrightarrow> demand_allowed cfg d \<Longrightarrow>
   resolveDemand env d = Inr rd \<Longrightarrow> lookup (subscriptions m) (rd_key rd) \<noteq> None \<Longrightarrow> holds_until (rd_key rd) r e m'"
proof (induction ds arbitrary: m sts)
  case (Cons c ds)
  obtain st m1 where 1: "appendDemandStatus cfg env r e c m = (st, m1)" by fastforce
  have m1: "lm_inv m1" "lm_shutdown m1 = lm_shutdown m"
    using appendDemandStatus_answers [OF Cons.prems(1) 1] by (simp_all add: answers_def)
  obtain sts' where 2: "demand_statuses cfg env r e ds m1 = (sts', m')"
    using Cons.prems(2) 1 by (auto simp: Let_def split: prod.splits)
  show ?case
  proof (cases "d = c")
    case True
    with append_holds(3) [OF Cons.prems(1) 1] Cons.prems have "holds_until (rd_key rd) r e m1" by blast
    with statuses_keep_holds [OF m1(1) 2] show ?thesis by blast
  next
    case False
    with Cons.IH [OF m1(1) 2] m1(2) Cons.prems append_holds(2) [OF Cons.prems(1) 1] show ?thesis by auto
  qed
qed simp

lemma handleHeartbeat_report:
  assumes "resolveIdentity r0 (session_id hb) m = Some r" "handleHeartbeat cfg env r0 hb m = Inr m'"
  shows "\<exists>m1 m2 sts. renewSessionLease r (session_id hb) (le_now env + cfg_lease_duration cfg) m = Inr m1
    \<and> demand_statuses cfg env r (le_now env + cfg_lease_duration cfg) (demands hb) m1 = (sts, m2)
    \<and> subscriptions m' = subscriptions m2"
  using assms
  by (cases "le_send env")
    (auto simp: handleHeartbeat_def Let_def res_bind_Inr_iff createStatusReport_def publishStatusReport_def
      split: prod.splits if_splits)

lemma prune_keeps_holder:
  assumes "lm_inv m" "holds_until k r e m" "le_now env < e" "\<not> lm_shutdown m"
  shows "holds_until k r e (pruneExpiredLeases env m)"
proof -
  from assms(2) obtain s l where s: "lookup (subscriptions m) k = Some s" "lookup (leases s) r = Some l" "lease_expires l = e"
    by (auto simp: holds_until_def)
  have ok: "sub_ok k s" using assms(1) s(1) al_all_lookup by (fastforce simp: lm_inv_def)
  then have "lookup (live_leases (le_now env) (leases s)) r = Some l"
    using ll.prune_keeps_live s(2,3) assms(3) by (auto simp: sub_ok_def)
  moreover from this have "live_leases (le_now env) (leases s) \<noteq> []" by auto
  ultimately show ?thesis
    using prune_ok [OF assms(1,4), of env] prune_subscription_spec [OF ok, of "le_now env"] s
    by (auto simp: holds_until_def split: option.splits)
qed

section \<open>A sample run\<close>

text \<open>
  A bridge that lets every topic below \<open>/robot\<close> be subscribed to, in an environment whose graph
  holds one such topic, and a heartbeat for it on session \<open>s1\<close>.
\<close>

definition robot_expand :: expander where
  "robot_expand n p q s = Inr n"

definition sample_cfg :: lm_config where
  "sample_cfg = \<lparr>cfg_policy = make_policy robot_expand \<lparr>publish_cfg = \<lparr>allow = [], deny = []\<rparr>,
       subscribe_cfg = \<lparr>allow = [''/robot/*''], deny = []\<rparr>, service_cfg = \<lparr>allow = [], deny = []\<rparr>\<rparr>,
     cfg_expand = robot_expand, cfg_video = video_makeDefaultConfig, cfg_audio = audio_makeDefaultConfig,
     cfg_lease_duration = 15000\<rparr>"

definition sample_track_env :: track_env where
  "sample_track_env = \<lparr>te_publish = True, te_qos = Inr \<lparr>rq_qos = \<lparr>depth = 1, reliability = Reliable, durability = TransientLocal\<rparr>,
       rq_source = PublisherQos, mixed_reliability = False, mixed_durability = False, publisher_count = 1, rq_override_id = []\<rparr>,
     te_subscribe = True, te_unpublish = True\<rparr>"

definition robot_env :: "time \<Rightarrow> lm_env" where
  "robot_env now = \<lparr>le_now = now, le_resolve = Inr, le_graph = [(''/robot/odom'', [''nav_msgs/msg/Odometry''])],
     le_media = \<lambda>_. Inr (), le_track = \<lambda>_. sample_track_env, le_send = Inr ()\<rparr>"

lemma robot_env_now [simp]: "le_now (robot_env t) = t"
  by (simp add: robot_env_def)

definition sample_demands :: "string list \<Rightarrow> json" where
  "sample_demands names = JObject [(''session_id'', JString ''s1''),
     (''subscriptions'', JArray (map (\<lambda>n. JObject [(''kind'', JString ''topic''), (''name'', JString n)]) names))]"

definition sample_beat :: "string list \<Rightarrow> string \<Rightarrow> time \<Rightarrow> lease_manager \<Rightarrow> lease_manager res" where
  "sample_beat names r now = handleHeartbeatPayload (\<lambda>_. Some (sample_demands names)) sample_cfg (robot_env now) r []"

definition sample_state :: lease_manager where
  "sample_state = (case sample_beat [''/robot/odom''] ''alice'' 0 lm_init of Inr m \<Rightarrow> m | Inl _ \<Rightarrow> lm_init)"

definition sample_hb :: heartbeat where
  "sample_hb = \<lparr>session_id = Some ''s1'',
     demands = [\<lparr>demand_kind = Topic, demand_name = ''/robot/odom'', preferred_interval_ms = None\<rparr>], unsupported = []\<rparr>"

lemma sample_hb_parsed:
  "parse_heartbeat (\<lambda>_. Some (sample_demands [''/robot/odom''])) (cfg_expand sample_cfg) ([] :: bytes) = Inr sample_hb"
  by code_simp

lemma sample_first_beat:
  "handleHeartbeatPayload (\<lambda>_. Some (sample_demands [''/robot/odom''])) sample_cfg (robot_env 0) ''alice'' [] lm_init
    = Inr sample_state"
  using payload_ok [OF lm_inv_init, of "\<lambda>_. Some (sample_demands [''/robot/odom''])" sample_cfg "robot_env 0" "''alice''" "[]"]
  by (auto simp: sample_state_def sample_beat_def)

lemma sample_state_reachable: "lm_reachable sample_cfg sample_state"
  using sample_first_beat by (blast intro: Heartbeat)

lemma sample_subscription:
  "\<exists>s. lookup (subscriptions sample_state) ''topic:/robot/odom'' = Some s \<and> sub_name s = ''/robot/odom''
     \<and> leases s = [(''alice'', \<lparr>lease_interval_ms = 0, lease_expires = 15000\<rparr>)]"
proof -
  have "map_option (\<lambda>s. (sub_name s, leases s)) (lookup (subscriptions sample_state) ''topic:/robot/odom'')
      = Some (''/robot/odom'', [(''alice'', \<lparr>lease_interval_ms = 0, lease_expires = 15000\<rparr>)])"
    by code_simp
  then show ?thesis by auto
qed

section \<open>Properties\<close>

text \<open>
  C10: in every reachable state, a subscription is filed under the key of its kind and name, has at
  least one lease, and a data publisher forwards at the smallest interval any of its leases asks
  for, in its own field and in the publication that throttles the frames.
\<close>

theorem shared_interval_is_minimum:
  assumes "lm_reachable cfg m" "lookup (subscriptions m) k = Some s"
  shows "k = makeKey (sub_kind s) (sub_name s) \<and> leases s \<noteq> [] \<and> distinct (keys (leases s))
    \<and> (\<forall>p. sub_runtime s = DataRuntime p \<longrightarrow>
         dp_interval_ms p = Min ((lease_interval_ms \<circ> snd) ` set (leases s)) \<and> 0 \<le> dp_interval_ms p
         \<and> dp_track_name p = makeTrackName (sub_name s)
         \<and> (\<forall>b. dp_publication p = Some b \<longrightarrow> pb_interval_ms b = dp_interval_ms p))"
proof -
  have "lm_inv m" by (rule reachable_lm_inv [OF assms(1)])
  then have ok: "sub_ok k s" using assms(2) al_all_lookup by (fastforce simp: lm_inv_def)
  then have "0 \<le> interval_of (leases s)"
    by (auto simp: sub_ok_def al_all_def interval_of_def)
  with ok show ?thesis by (auto simp: sub_ok_def publisher_ok_def interval_of_def)
qed

theorem shared_interval_is_minimum_witness:
  "\<exists>s. lookup (subscriptions sample_state) ''topic:/robot/odom'' = Some s \<and> leases s \<noteq> []"
  using sample_subscription shared_interval_is_minimum [OF sample_state_reachable] by blast

text \<open>
  whatever bytes arrive, from whomever, the heartbeat handler completes in every reachable
  state: the session invariant's \<open>logic_error\<close> and the serializer's error are unreachable, so no
  exception leaves the handler.
\<close>

theorem heartbeat_never_throws:
  assumes "lm_reachable cfg m"
  shows "\<exists>m'. handleHeartbeatPayload parse cfg env requester payload m = Inr m' \<and> lmstep cfg m m'
    \<and> lm_shutdown m' = lm_shutdown m"
  using payload_ok [OF reachable_lm_inv [OF assms], of parse cfg env requester payload] by (blast intro: Heartbeat)

theorem heartbeat_never_throws_witness: "\<exists>m'. sample_beat [''/robot/odom'', ''/secret''] ''bob'' 7 sample_state = Inr m'"
  using heartbeat_never_throws [OF sample_state_reachable] unfolding sample_beat_def by blast



text \<open>
  C7: a heartbeat creates, renews or changes a subscription only for a demand of its own that the
  access policy permits (bridge-owned sources need no permission) and whose name resolves to that
  subscription's key; every other subscription is left exactly as it was.
\<close>

theorem only_permitted_demands_touch:
  assumes "lm_reachable cfg m" "parse_heartbeat parse (cfg_expand cfg) payload = Inr hb"
    and "handleHeartbeatPayload parse cfg env requester payload m = Inr m'"
    and "lookup (subscriptions m') k \<noteq> lookup (subscriptions m) k"
  shows "\<exists>d rd. d \<in> set (demands hb) \<and> resolveDemand env d = Inr rd \<and> k = rd_key rd
    \<and> (demand_kind d \<noteq> Topic \<or> allows (cfg_expand cfg) (cfg_policy cfg) Subscribe (demand_name d))"
proof (cases "resolveIdentity requester (session_id hb) m")
  case None
  then show ?thesis using assms(2-4) by (simp add: handleHeartbeatPayload_def handleHeartbeat_def)
next
  case (Some r)
  have "handleHeartbeat cfg env requester hb m = Inr m'"
    using assms(2,3) by (simp add: handleHeartbeatPayload_def)
  with heartbeat_ok [OF reachable_lm_inv [OF assms(1)] parsed_heartbeat_kinds [OF assms(2)] Some, of cfg env] assms(4)
  have "k \<in> touched cfg env (demands hb)" by auto
  then show ?thesis by (auto simp: touched_def demand_allowed_def)
qed

theorem only_permitted_demands_touch_witness:
  "allows robot_expand (cfg_policy sample_cfg) Subscribe ''/robot/odom''"
proof -
  have "lookup (subscriptions sample_state) ''topic:/robot/odom'' \<noteq> lookup (subscriptions lm_init) ''topic:/robot/odom''"
    using sample_subscription by (auto simp: lm_init_def)
  from only_permitted_demands_touch [OF rtranclp.rtrancl_refl sample_hb_parsed sample_first_beat this] show ?thesis
    by (auto simp: sample_cfg_def sample_hb_def)
qed

text \<open>
  C17: expiry is exact. After the prune timer ran at a given time, a session or a lease is in its
  table exactly when it was there and had not expired; a subscription is gone exactly when all its
  leases had expired, and one that lost some of them forwards at the minimum of those left.
\<close>

theorem prune_is_exact:
  assumes "lm_reachable cfg m" "\<not> lm_shutdown m"
  shows "lookup (session_leases (pruneExpiredLeases env m)) i =
      (case lookup (session_leases m) i of None \<Rightarrow> None | Some l \<Rightarrow> if le_now env < sl_expiry l then Some l else None)
    \<and> (case lookup (subscriptions m) k of
         None \<Rightarrow> lookup (subscriptions (pruneExpiredLeases env m)) k = None
       | Some s \<Rightarrow>
           (case lookup (subscriptions (pruneExpiredLeases env m)) k of
              None \<Rightarrow> \<forall>r l. lookup (leases s) r = Some l \<longrightarrow> lease_expires l \<le> le_now env
            | Some s' \<Rightarrow> (\<forall>r. lookup (leases s') r = (case lookup (leases s) r of None \<Rightarrow> None
                    | Some l \<Rightarrow> if le_now env < lease_expires l then Some l else None))
                \<and> leases s' \<noteq> []
                \<and> (\<forall>p. sub_runtime s' = DataRuntime p \<longrightarrow> dp_interval_ms p = Min ((lease_interval_ms \<circ> snd) ` set (leases s')))))"
proof -
  have inv: "lm_inv m" by (rule reachable_lm_inv [OF assms(1)])
  note p = prune_ok [OF inv assms(2), of env]
  have "lookup (session_leases (pruneExpiredLeases env m)) i =
      (case lookup (session_leases m) i of None \<Rightarrow> None | Some l \<Rightarrow> if le_now env < sl_expiry l then Some l else None)"
    using p inv ls.prune_lookup by (simp add: lm_inv_def)
  moreover have "(case prune_subscription (le_now env) s of
        None \<Rightarrow> \<forall>r l. lookup (leases s) r = Some l \<longrightarrow> lease_expires l \<le> le_now env
      | Some s' \<Rightarrow> (\<forall>r. lookup (leases s') r = (case lookup (leases s) r of None \<Rightarrow> None
              | Some l \<Rightarrow> if le_now env < lease_expires l then Some l else None))
          \<and> leases s' \<noteq> []
          \<and> (\<forall>p. sub_runtime s' = DataRuntime p \<longrightarrow> dp_interval_ms p = Min ((lease_interval_ms \<circ> snd) ` set (leases s'))))"
    if "lookup (subscriptions m) k = Some s" for s
  proof -
    have ok: "sub_ok k s" using inv that al_all_lookup by (fastforce simp: lm_inv_def)
    then have d: "distinct (keys (leases s))" by (simp add: sub_ok_def)
    show ?thesis
    proof (cases "prune_subscription (le_now env) s")
      case None
      with prune_subscription_spec [OF ok, of "le_now env"] have "live_leases (le_now env) (leases s) = []" by simp
      with ll.prune_keeps_live [OF d, of _ _ "le_now env"] None show ?thesis by (fastforce simp: not_less)
    next
      case (Some s')
      with prune_subscription_spec [OF ok, of "le_now env"]
      have "sub_ok k s'" "leases s' = live_leases (le_now env) (leases s)" by simp_all
      with Some ll.prune_lookup [OF d] show ?thesis by (auto simp: sub_ok_def publisher_ok_def interval_of_def)
    qed
  qed
  ultimately show ?thesis using p by (simp split: option.split)
qed

theorem prune_is_exact_witness:
  "lookup (subscriptions (pruneExpiredLeases (robot_env 15000) sample_state)) ''topic:/robot/odom'' = None
   \<and> lookup (session_leases (pruneExpiredLeases (robot_env 15000) sample_state)) ''s1'' = None"
proof -
  have up: "\<not> lm_shutdown sample_state" by code_simp
  have l: "lookup (session_leases sample_state) ''s1'' = Some \<lparr>sl_requester = ''alice'', sl_expiry = 15000\<rparr>" by code_simp
  obtain s where s: "lookup (subscriptions sample_state) ''topic:/robot/odom'' = Some s"
      "leases s = [(''alice'', \<lparr>lease_interval_ms = 0, lease_expires = 15000\<rparr>)]"
    using sample_subscription by blast
  note exact = prune_is_exact [OF sample_state_reachable up, of "robot_env 15000" "''s1''" "''topic:/robot/odom''"]
  have "lookup (leases s') r = None" "leases s' \<noteq> []"
    if "lookup (subscriptions (pruneExpiredLeases (robot_env 15000) sample_state)) ''topic:/robot/odom'' = Some s'" for s' r
    using exact that s by simp_all
  then have "lookup (subscriptions (pruneExpiredLeases (robot_env 15000) sample_state)) ''topic:/robot/odom'' = None"
    using lookup_None_Nil by (metis not_None_eq)
  with exact l show ?thesis by simp
qed

text \<open>
  a client that keeps sending heartbeats keeps its subscription. When a heartbeat demands a
  permitted topic that is already subscribed, its requester holds a lease that runs for a full
  lease duration from that heartbeat, and a prune at any earlier time leaves the subscription and
  that lease in place.
\<close>

theorem renewed_lease_survives:
  assumes "lm_reachable cfg m" "\<not> lm_shutdown m" "parse_heartbeat parse (cfg_expand cfg) payload = Inr hb"
    and "resolveIdentity requester (session_id hb) m = Some r"
    and "d \<in> set (demands hb)" "demand_allowed cfg d" "resolveDemand env d = Inr rd"
    and "lookup (subscriptions m) (rd_key rd) \<noteq> None"
    and "handleHeartbeatPayload parse cfg env requester payload m = Inr m'"
    and "le_now env' < le_now env + cfg_lease_duration cfg"
  shows "\<exists>s l. lookup (subscriptions (pruneExpiredLeases env' m')) (rd_key rd) = Some s
    \<and> lookup (leases s) r = Some l \<and> lease_expires l = le_now env + cfg_lease_duration cfg"
proof -
  let ?e = "le_now env + cfg_lease_duration cfg"
  have inv: "lm_inv m" by (rule reachable_lm_inv [OF assms(1)])
  have hh: "handleHeartbeat cfg env requester hb m = Inr m'"
    using assms(3,9) by (simp add: handleHeartbeatPayload_def)
  with heartbeat_ok [OF inv parsed_heartbeat_kinds [OF assms(3)] assms(4), of cfg env] assms(2)
  have m': "lm_inv m'" "\<not> lm_shutdown m'" by auto
  from handleHeartbeat_report [OF assms(4) hh] obtain m1 m2 sts
    where 1: "renewSessionLease r (session_id hb) ?e m = Inr m1"
      and 2: "demand_statuses cfg env r ?e (demands hb) m1 = (sts, m2)" "subscriptions m' = subscriptions m2" by blast
  from 1 renew_session_total [OF assms(4), of ?e] inv assms(2)
  have "lm_inv m1" "\<not> lm_shutdown m1" "subscriptions m1 = subscriptions m" by (auto simp: lm_inv_def)
  with statuses_renew [OF _ 2(1)] assms(5-8) have "holds_until (rd_key rd) r ?e m2" by simp
  then have "holds_until (rd_key rd) r ?e m'" using 2(2) by (simp add: holds_until_def)
  from prune_keeps_holder [OF m'(1) this assms(10) m'(2)] show ?thesis by (simp add: holds_until_def)
qed


theorem renewed_lease_survives_witness:
  "\<exists>m' s. sample_beat [''/robot/odom''] ''alice'' 9000 sample_state = Inr m'
     \<and> lookup (subscriptions (pruneExpiredLeases (robot_env 20000) m')) ''topic:/robot/odom'' = Some s"
proof -
  let ?d = "\<lparr>demand_kind = Topic, demand_name = ''/robot/odom'', preferred_interval_ms = None\<rparr>"
  let ?rd = "\<lparr>rd_kind = Topic, rd_name = ''/robot/odom'', rd_key = ''topic:/robot/odom'', rd_type = [], rd_interval_ms = 0,
      rd_video = None, rd_audio = None\<rparr>"
  have up: "\<not> lm_shutdown sample_state" by code_simp
  have "map_option sl_requester (lookup (session_leases sample_state) ''s1'') = Some ''alice''" by code_simp
  then have id: "resolveIdentity ''alice'' (session_id sample_hb) sample_state = Some ''alice''"
    by (auto simp: resolveIdentity_def sample_hb_def)
  have d: "?d \<in> set (demands sample_hb)" by (simp add: sample_hb_def)
  have ok: "demand_allowed sample_cfg ?d" by code_simp
  have rd: "resolveDemand (robot_env 9000) ?d = Inr ?rd" by code_simp
  have sub: "lookup (subscriptions sample_state) (rd_key ?rd) \<noteq> None" using sample_subscription by auto
  obtain m' where m': "sample_beat [''/robot/odom''] ''alice'' 9000 sample_state = Inr m'"
    using payload_ok [OF reachable_lm_inv [OF sample_state_reachable]] unfolding sample_beat_def by blast
  from renewed_lease_survives [OF sample_state_reachable up sample_hb_parsed id d ok rd sub m' [unfolded sample_beat_def],
      of "robot_env 20000"] m'
  show ?thesis by (auto simp: sample_cfg_def)
qed

text \<open>
  status is private to the requester. An accepted heartbeat sends at most one status message,
  to the resolved requester alone, with one entry per demand and per unsupported entry, its
  session id and its lease expiry; a rejected one sends nothing.
\<close>

theorem status_goes_to_requester:
  assumes "lm_reachable cfg m" "parse_heartbeat parse (cfg_expand cfg) payload = Inr hb"
    and "handleHeartbeatPayload parse cfg env requester payload m = Inr m'" "status_sent m' \<noteq> status_sent m"
  shows "\<exists>r rep body. resolveIdentity requester (session_id hb) m = Some r
    \<and> status_sent m' = status_sent m @ [(r, body)] \<and> serialize_report (le_now env) rep = Inr body
    \<and> length (statuses rep) = length (demands hb) + length (unsupported hb) \<and> statuses rep \<noteq> []
    \<and> rep_session_id rep = session_id hb \<and> lease_expiry rep = Some (le_now env + cfg_lease_duration cfg)"
proof (cases "resolveIdentity requester (session_id hb) m")
  case None
  then show ?thesis using assms(2-4) by (simp add: handleHeartbeatPayload_def handleHeartbeat_def)
next
  case (Some r)
  have "handleHeartbeat cfg env requester hb m = Inr m'"
    using assms(2,3) by (simp add: handleHeartbeatPayload_def)
  with heartbeat_ok [OF reachable_lm_inv [OF assms(1)] parsed_heartbeat_kinds [OF assms(2)] Some, of cfg env] assms(4) Some
  show ?thesis by auto
qed

theorem status_goes_to_requester_witness: "\<exists>body. status_sent sample_state = [(''alice'', body)]"
proof -
  have "length (status_sent sample_state) = 1" by code_simp
  then have "status_sent sample_state \<noteq> status_sent lm_init" by (auto simp: lm_init_def)
  from status_goes_to_requester [OF rtranclp.rtrancl_refl sample_hb_parsed sample_first_beat this] show ?thesis
    by (auto simp: lm_init_def resolveIdentity_def sample_hb_def)
qed

text \<open>
  shutdown is final: in every state reached after it, whatever heartbeats, echoes or timer ticks
  arrive, the manager stays shut down and has no subscription.
\<close>

theorem lease_shutdown_is_final:
  assumes "lm_reachable cfg m" "(lmstep cfg)\<^sup>*\<^sup>* (lm_shutdown_op env m) m'"
  shows "lm_shutdown m' \<and> subscriptions m' = []"
  using ld.down_forever [OF assms(2) lm_shutdown_op_down [OF reachable_lm_inv [OF assms(1)]]]
  by (auto simp: lm_down_def lm_inv_def)

theorem lease_shutdown_is_final_witness:
  "\<exists>m'. sample_beat [''/robot/odom''] ''alice'' 9 (lm_shutdown_op (robot_env 8) sample_state) = Inr m' \<and> subscriptions m' = []"
proof -
  have "lm_inv (lm_shutdown_op (robot_env 8) sample_state)"
    using lm_shutdown_op_down [OF reachable_lm_inv [OF sample_state_reachable]] by (simp add: lm_down_def)
  then obtain m' where m': "sample_beat [''/robot/odom''] ''alice'' 9 (lm_shutdown_op (robot_env 8) sample_state) = Inr m'"
    unfolding sample_beat_def using payload_ok by blast
  then have "lmstep sample_cfg (lm_shutdown_op (robot_env 8) sample_state) m'" unfolding sample_beat_def by (rule Heartbeat)
  with lease_shutdown_is_final [OF sample_state_reachable r_into_rtranclp] m' show ?thesis by blast
qed

end
