(* ===== verification/Definition_Lookup.thy ===== *)
theory Definition_Lookup
  imports Caches Text_Utils Protocol_Requests
begin

text \<open>
  Interface definitions for \<open>ros2.interface.show\<close> (src/src/ros_interfaces/definition_lookup.cpp):
  type names are parsed, their files located through the ament index and read, and the message
  types their fields mention are collected recursively, each once. The ament index and the file
  system are the two fields of a world record; the failure cache is explicit state. \<open>collect\<close>
  recurses over data it reads, so it has fuel, the depth of the recursion, and a fuel bound is
  proved to be enough.
\<close>

section \<open>Type names\<close>

record parsed_type =
  pt_package :: string
  pt_kind :: string
  pt_name :: string

definition throwInvalidType :: "string \<Rightarrow> string \<Rightarrow> exn" where
  "throwInvalidType type why =
     Invalid_argument (''Invalid ROS interface type '' @ [CHR 0x27] @ type @ [CHR 0x27] @ '': '' @ why)"

text \<open>\<open>substr(0, find(c))\<close> and the text behind the first \<open>c\<close>.\<close>

definition up_to :: "char \<Rightarrow> string \<Rightarrow> string" where
  "up_to c s = takeWhile (\<lambda>x. x \<noteq> c) s"

definition beyond :: "char \<Rightarrow> string \<Rightarrow> string" where
  "beyond c s = drop (Suc (length (up_to c s))) s"

definition parsed_type_parse :: "string \<Rightarrow> parsed_type res" where
  "parsed_type_parse type =
     (if CHR ''/'' \<notin> set type then Inl (throwInvalidType type ''expected package/kind/Name'')
      else (let package = up_to (CHR ''/'') type; rest = beyond (CHR ''/'') type in
        if CHR ''/'' \<notin> set rest then Inl (throwInvalidType type ''expected package/kind/Name'')
        else (let kind = up_to (CHR ''/'') rest; name = beyond (CHR ''/'') rest in
          if package = [] \<or> kind = [] \<or> name = [] then Inl (throwInvalidType type ''empty component'')
          else if CHR ''/'' \<in> set name then Inl (throwInvalidType type ''expected package/kind/Name'')
          else if kind \<noteq> ''msg'' \<and> kind \<noteq> ''srv'' \<and> kind \<noteq> ''action''
          then Inl (throwInvalidType type ''kind must be msg, srv, or action'')
          else Inr \<lparr>pt_package = package, pt_kind = kind, pt_name = name\<rparr>)))"

section \<open>Files\<close>

record definition_world =
  ament_resource :: "string \<Rightarrow> (string \<times> string) option"  \<comment> \<open>index contents and prefix of a package\<close>
  read_file :: "string \<Rightarrow> string option"  \<comment> \<open>\<open>None\<close>: the file does not open\<close>

text \<open>\<open>std::getline\<close> until the stream is exhausted: no empty line after a final newline.\<close>

function getlines :: "string \<Rightarrow> string list" where
  "getlines s = (if s = [] then [] else up_to (CHR 0x0A) s # getlines (beyond (CHR 0x0A) s))"
  by auto
termination
  by (relation "measure length") (auto simp: beyond_def)

declare getlines.simps [simp del]

text \<open>\<open>std::filesystem::path::operator/\<close>.\<close>

definition path_join :: "string \<Rightarrow> string \<Rightarrow> string" where
  "path_join a b =
     (if b \<noteq> [] \<and> hd b = CHR ''/'' then b
      else if a = [] \<or> last a = CHR ''/'' then a @ b
      else a @ ''/'' @ b)"

fun find_registered :: "string \<Rightarrow> string list \<Rightarrow> string option" where
  "find_registered requested [] = None"
| "find_registered requested (l # ls) = (if l = requested then Some l else find_registered requested ls)"

definition resolveDefinitionPath :: "definition_world \<Rightarrow> parsed_type \<Rightarrow> string res" where
  "resolveDefinitionPath w p =
     (case ament_resource w (pt_package p) of
        None \<Rightarrow> Inl (Runtime_error (''Package '' @ [CHR 0x27] @ pt_package p @ [CHR 0x27] @ '' not found in ament index''))
      | Some (index, prefix) \<Rightarrow>
          (let requested = pt_kind p @ ''/'' @ pt_name p @ ''.'' @ pt_kind p;
               base = path_join (path_join prefix ''share'') (pt_package p)
           in Inr (path_join base (case find_registered requested (getlines index) of Some r \<Rightarrow> r | None \<Rightarrow> requested))))"

text \<open>The body of the \<open>try\<close> block of \<open>load\<close>.\<close>

definition read_definition :: "definition_world \<Rightarrow> string \<Rightarrow> string res" where
  "read_definition w type =
     res_bind (parsed_type_parse type) (\<lambda>p.
       res_bind (resolveDefinitionPath w p) (\<lambda>path.
         case read_file w path of
           None \<Rightarrow> Inl (Runtime_error (''Cannot open interface definition file: '' @ path))
         | Some body \<Rightarrow> Inr body))"

definition kFailureCapacity :: nat where
  "kFailureCapacity = 256"

definition load :: "definition_world \<Rightarrow> string \<Rightarrow> failures \<Rightarrow> string res \<times> failures" where
  "load w type fs =
     (case failure_find type fs of
        Some e \<Rightarrow> (Inl e, fs)
      | None \<Rightarrow>
          (case read_definition w type of
             Inr body \<Rightarrow> (Inr body, fs)
           | Inl e \<Rightarrow>
               if is_invalid_argument e \<or> is_runtime_error e then (Inl e, remember kFailureCapacity type e fs)
               else (Inl e, fs)))"

section \<open>Dependencies\<close>

text \<open>\<open>operator>>\<close> into a string: skip white space, take the token.\<close>

definition next_token :: "string \<Rightarrow> string \<times> string" where
  "next_token s =
     (let t = dropWhile is_space s in (takeWhile (\<lambda>c. \<not> is_space c) t, dropWhile (\<lambda>c. \<not> is_space c) t))"

text \<open>The message type one line of a definition refers to, if any.\<close>

definition line_dependency :: "string \<Rightarrow> string \<Rightarrow> string option" where
  "line_dependency package raw =
     (let content = dropWhile (\<lambda>c. c = CHR '' '' \<or> c = CHR 0x09) (up_to (CHR ''#'') raw) in
      if content = [] \<or> has_prefix ''---'' content then None
      else (let (type, r) = next_token content; (name, _) = next_token r in
        if type = [] \<or> name = [] then None
        else if CHR ''='' \<in> set name then None
        else (let base = up_to (CHR ''['') type in
          if CHR ''/'' \<notin> set base then
            (if base = [] \<or> of_char (hd base) < (65 :: nat) \<or> of_char (hd base) > (90 :: nat) then None
             else Some (package @ ''/msg/'' @ base))
          else if CHR ''/'' \<notin> set (beyond (CHR ''/'') base)
          then Some (up_to (CHR ''/'') base @ ''/msg/'' @ beyond (CHR ''/'') base)
          else Some base)))"

definition parseDependencies :: "string \<Rightarrow> string \<Rightarrow> string list" where
  "parseDependencies body package = List.map_filter (line_dependency package) (getlines body)"

record collect_state =
  cs_seen :: "string list"
  cs_definitions :: "interface_definition list"
  cs_failures :: failures

fun collect :: "nat \<Rightarrow> definition_world \<Rightarrow> string \<Rightarrow> collect_state \<Rightarrow> (unit res \<times> collect_state) option"
  and collect_each :: "nat \<Rightarrow> definition_world \<Rightarrow> string list \<Rightarrow> collect_state \<Rightarrow> (unit res \<times> collect_state) option"
where
  "collect 0 w type s = None"
| "collect (Suc n) w type s =
     (if type \<in> set (cs_seen s) then Some (Inr (), s)
      else (let s1 = s\<lparr>cs_seen := type # cs_seen s\<rparr> in
        case load w type (cs_failures s1) of
          (Inl e, fs) \<Rightarrow> Some (Inl e, s1\<lparr>cs_failures := fs\<rparr>)
        | (Inr body, fs) \<Rightarrow>
            (let s2 = s1\<lparr>cs_failures := fs, cs_definitions := cs_definitions s1 @ [\<lparr>def_type = type, def_body = body\<rparr>]\<rparr> in
             case parsed_type_parse type of
               Inl e \<Rightarrow> Some (Inl e, s2)
             | Inr p \<Rightarrow> collect_each n w (parseDependencies body (pt_package p)) s2)))"
| "collect_each n w [] s = Some (Inr (), s)"
| "collect_each n w (d # ds) s =
     (case collect n w d s of
        None \<Rightarrow> None
      | Some (Inl e, s') \<Rightarrow> Some (Inl e, s')
      | Some (Inr _, s') \<Rightarrow> collect_each n w ds s')"

definition lookupDefinitions ::
  "nat \<Rightarrow> definition_world \<Rightarrow> string \<Rightarrow> failures \<Rightarrow> (interface_definition list res \<times> failures) option" where
  "lookupDefinitions n w type fs =
     (case collect n w type \<lparr>cs_seen = [], cs_definitions = [], cs_failures = fs\<rparr> of
        None \<Rightarrow> None
      | Some (Inl e, s) \<Rightarrow> Some (Inl e, cs_failures s)
      | Some (Inr _, s) \<Rightarrow> Some (Inr (cs_definitions s), cs_failures s))"

section \<open>The dependency graph\<close>

text \<open>What the files say, without any cache: the types that load, and the edges between them.\<close>

definition loadable :: "definition_world \<Rightarrow> string \<Rightarrow> bool" where
  "loadable w t \<longleftrightarrow> (\<exists>body. read_definition w t = Inr body)"

definition depends :: "definition_world \<Rightarrow> string \<Rightarrow> string \<Rightarrow> bool" where
  "depends w t u \<longleftrightarrow> (\<exists>body p. read_definition w t = Inr body \<and> parsed_type_parse t = Inr p
     \<and> u \<in> set (parseDependencies body (pt_package p)))"

abbreviation reaches :: "definition_world \<Rightarrow> string \<Rightarrow> string \<Rightarrow> bool" where
  "reaches w \<equiv> (depends w)\<^sup>*\<^sup>*"

text \<open>A cache that remembers only failures the files still have.\<close>

definition cache_true :: "definition_world \<Rightarrow> failures \<Rightarrow> bool" where
  "cache_true w fs \<longleftrightarrow> (\<forall>t e. lookup fs t = Some e \<longrightarrow> read_definition w t = Inl e)"

lemma load_true:
  assumes "cache_true w fs"
  shows "fst (load w t fs) = read_definition w t \<and> cache_true w (snd (load w t fs))"
proof (cases "lookup fs t")
  case (Some e)
  with assms show ?thesis by (simp add: load_def failure_find_def cache_true_def)
next
  case None
  have "cache_true w (remember c t e fs)" if "read_definition w t = Inl e" for c e
    using assms that by (auto simp: cache_true_def remember_def al_simps Let_def split: option.splits if_splits)
  with None assms show ?thesis by (auto simp: load_def failure_find_def split: sum.split)
qed

lemma read_parses: "read_definition w t = Inr body \<Longrightarrow> \<exists>p. parsed_type_parse t = Inr p"
  by (auto simp: read_definition_def res_bind_Inr_iff)

section \<open>What collect does\<close>

text \<open>What a run of \<open>collect\<close> keeps: the definitions are the bodies of the seen types, in order.\<close>

definition collected_ok :: "definition_world \<Rightarrow> collect_state \<Rightarrow> bool" where
  "collected_ok w s \<longleftrightarrow> cache_true w (cs_failures s) \<and> distinct (cs_seen s)
     \<and> map def_type (cs_definitions s) = rev (cs_seen s)
     \<and> (\<forall>d \<in> set (cs_definitions s). read_definition w (def_type d) = Inr (def_body d))"

text \<open>A successful run from \<open>s\<close> to \<open>s'\<close> that was asked for the types \<open>ts\<close>.\<close>

definition explored :: "definition_world \<Rightarrow> string list \<Rightarrow> collect_state \<Rightarrow> collect_state \<Rightarrow> bool" where
  "explored w ts s s' \<longleftrightarrow> collected_ok w s' \<and> set (cs_seen s) \<subseteq> set (cs_seen s') \<and> set ts \<subseteq> set (cs_seen s')
     \<and> (\<exists>more. cs_definitions s' = cs_definitions s @ more
          \<and> (\<forall>t us. ts = t # us \<and> t \<notin> set (cs_seen s) \<longrightarrow> more \<noteq> [] \<and> def_type (hd more) = t))
     \<and> (\<forall>u \<in> set (cs_seen s') - set (cs_seen s). (\<exists>t \<in> set ts. reaches w t u) \<and> (\<forall>v. depends w u v \<longrightarrow> v \<in> set (cs_seen s')))"

lemma explored_refl: "collected_ok w s \<Longrightarrow> set ts \<subseteq> set (cs_seen s) \<Longrightarrow> explored w ts s s"
  by (auto simp: explored_def)

lemma explored_Cons:
  assumes 1: "explored w [d] s s1" and 2: "explored w ds s1 s'"
  shows "explored w (d # ds) s s'"
proof -
  have sub: "set (cs_seen s) \<subseteq> set (cs_seen s1)" "set (cs_seen s1) \<subseteq> set (cs_seen s')" "d \<in> set (cs_seen s1)"
    using 1 2 by (simp_all add: explored_def)
  have "(\<exists>t \<in> set (d # ds). reaches w t u) \<and> (\<forall>v. depends w u v \<longrightarrow> v \<in> set (cs_seen s'))"
    if u: "u \<in> set (cs_seen s') - set (cs_seen s)" for u
  proof (cases "u \<in> set (cs_seen s1)")
    case True
    with u 1 have "reaches w d u" "\<forall>v. depends w u v \<longrightarrow> v \<in> set (cs_seen s1)" by (auto simp: explored_def)
    with sub(2) show ?thesis by auto
  next
    case False
    with u 2 have "\<exists>t \<in> set ds. reaches w t u" "\<forall>v. depends w u v \<longrightarrow> v \<in> set (cs_seen s')" by (auto simp: explored_def)
    then show ?thesis by auto
  qed
  moreover obtain m1 where m1: "cs_definitions s1 = cs_definitions s @ m1" "d \<notin> set (cs_seen s) \<longrightarrow> m1 \<noteq> [] \<and> def_type (hd m1) = d"
    using 1 unfolding explored_def by blast
  moreover obtain m2 where "cs_definitions s' = cs_definitions s1 @ m2" using 2 unfolding explored_def by blast
  moreover from this m1 have "cs_definitions s' = cs_definitions s @ m1 @ m2
      \<and> (\<forall>t us. d # ds = t # us \<and> t \<notin> set (cs_seen s) \<longrightarrow> m1 @ m2 \<noteq> [] \<and> def_type (hd (m1 @ m2)) = t)" by auto
  moreover have "collected_ok w s'" "set ds \<subseteq> set (cs_seen s')" using 2 by (simp_all add: explored_def)
  ultimately show ?thesis using sub unfolding explored_def by auto
qed

lemma explored_visit:
  assumes "read_definition w t = Inr body" "parsed_type_parse t = Inr p" "t \<notin> set (cs_seen s)"
    and "cs_seen s2 = t # cs_seen s" "cs_definitions s2 = cs_definitions s @ [\<lparr>def_type = t, def_body = body\<rparr>]"
    and run: "explored w (parseDependencies body (pt_package p)) s2 s'"
  shows "explored w [t] s s'"
proof -
  let ?ds = "parseDependencies body (pt_package p)"
  have dep: "depends w t v \<longleftrightarrow> v \<in> set ?ds" for v using assms(1,2) by (auto simp: depends_def)
  have "reaches w t u" if "reaches w d u" "d \<in> set ?ds" for d u
    using that dep by (blast intro: converse_rtranclp_into_rtranclp)
  then have "(\<exists>x \<in> set [t]. reaches w x u) \<and> (\<forall>v. depends w u v \<longrightarrow> v \<in> set (cs_seen s'))"
    if u: "u \<in> set (cs_seen s') - set (cs_seen s)" for u
  proof (cases "u = t")
    case True
    have "set ?ds \<subseteq> set (cs_seen s')" using run by (simp add: explored_def)
    with True dep show ?thesis by auto
  next
    case False
    with u run assms(4) have "\<exists>d \<in> set ?ds. reaches w d u" "\<forall>v. depends w u v \<longrightarrow> v \<in> set (cs_seen s')"
      by (auto simp: explored_def)
    with \<open>\<And>u d. reaches w d u \<Longrightarrow> d \<in> set ?ds \<Longrightarrow> reaches w t u\<close> show ?thesis by auto
  qed
  moreover have "collected_ok w s'" "set (cs_seen s2) \<subseteq> set (cs_seen s')" "\<exists>more. cs_definitions s' = cs_definitions s2 @ more"
    using run by (auto simp: explored_def)
  moreover from this(3) have "\<exists>more. cs_definitions s' = cs_definitions s @ more
      \<and> (\<forall>x us. [t] = x # us \<and> x \<notin> set (cs_seen s) \<longrightarrow> more \<noteq> [] \<and> def_type (hd more) = x)"
    using assms(5) by auto
  ultimately show ?thesis using assms(4) unfolding explored_def by auto
qed

text \<open>The postcondition of one run, for the types it was asked for.\<close>

definition run_ok :: "definition_world \<Rightarrow> string list \<Rightarrow> collect_state \<Rightarrow> unit res \<times> collect_state \<Rightarrow> bool" where
  "run_ok w ts s out \<longleftrightarrow> (case out of
      (Inl e, s') \<Rightarrow> cache_true w (cs_failures s') \<and> (\<exists>t \<in> set ts. \<exists>u. reaches w t u \<and> read_definition w u = Inl e)
    | (Inr _, s') \<Rightarrow> explored w ts s s')"

lemma collect_each_runs:
  assumes "\<And>t s out. collect n w t s = Some out \<Longrightarrow> collected_ok w s \<Longrightarrow> run_ok w [t] s out"
  shows "collect_each n w ds s = Some out \<Longrightarrow> collected_ok w s \<Longrightarrow> run_ok w ds s out"
proof (induction ds arbitrary: s)
  case (Cons d ds)
  then obtain r s1 where 1: "collect n w d s = Some (r, s1)" by (auto split: option.splits)
  have d: "run_ok w [d] s (r, s1)" by (rule assms [OF 1 Cons.prems(2)])
  show ?case
  proof (cases r)
    case (Inl e)
    with 1 d Cons.prems(1) show ?thesis by (auto simp: run_ok_def)
  next
    case (Inr u)
    with 1 Cons.prems(1) have "collect_each n w ds s1 = Some out" by simp
    moreover have e: "explored w [d] s s1" using d Inr by (simp add: run_ok_def)
    ultimately have "run_ok w ds s1 out" by (intro Cons.IH) (auto simp: explored_def)
    with explored_Cons [OF e] show ?thesis by (auto simp: run_ok_def split: prod.splits sum.splits)
  qed
qed (auto simp: run_ok_def explored_refl)

lemma collect_runs: "collect n w t s = Some out \<Longrightarrow> collected_ok w s \<Longrightarrow> run_ok w [t] s out"
proof (induction n arbitrary: t s out)
  case (Suc n)
  have cache: "cache_true w (cs_failures s)" using Suc.prems(2) by (simp add: collected_ok_def)
  obtain x fs where x: "load w t (cs_failures s) = (x, fs)" by fastforce
  with load_true [OF cache, of t] have fs: "read_definition w t = x" "cache_true w fs" by simp_all
  show ?case
  proof (cases "t \<in> set (cs_seen s)")
    case True
    with Suc.prems show ?thesis by (auto simp: run_ok_def explored_refl)
  next
    case new: False
    show ?thesis
    proof (cases x)
      case (Inl e)
      with new x Suc.prems(1) have "out = (Inl e, s\<lparr>cs_seen := t # cs_seen s, cs_failures := fs\<rparr>)" by simp
      with Inl fs show ?thesis by (auto simp: run_ok_def)
    next
      case (Inr body)
      then obtain p where p: "parsed_type_parse t = Inr p" using read_parses fs(1) by metis
      let ?ds = "parseDependencies body (pt_package p)"
      define s2 where "s2 = s\<lparr>cs_seen := t # cs_seen s, cs_failures := fs,
          cs_definitions := cs_definitions s @ [\<lparr>def_type = t, def_body = body\<rparr>]\<rparr>"
      have "collect_each n w ?ds s2 = Some out" using Suc.prems(1) new x Inr p by (simp add: Let_def s2_def)
      moreover have "collected_ok w s2"
        using Suc.prems(2) new fs Inr by (auto simp: collected_ok_def s2_def)
      ultimately have run: "run_ok w ?ds s2 out" using collect_each_runs Suc.IH by blast
      show ?thesis
      proof (cases "fst out")
        case (Inl e)
        then obtain d u where "d \<in> set ?ds" "reaches w d u" "read_definition w u = Inl e" "cache_true w (cs_failures (snd out))"
          using run by (auto simp: run_ok_def split: prod.splits)
        moreover from this have "reaches w t u"
          using \<open>x = Inr body\<close> fs(1) p by (intro converse_rtranclp_into_rtranclp [of _ t d]) (auto simp: depends_def)
        ultimately show ?thesis using Inl by (auto simp: run_ok_def split: prod.splits)
      next
        case r: (Inr u)
        with run have "explored w ?ds s2 (snd out)" by (auto simp: run_ok_def split: prod.splits)
        with explored_visit [of w t body p s s2] Inr fs(1) p new have "explored w [t] s (snd out)" by (simp add: s2_def)
        with r show ?thesis by (auto simp: run_ok_def split: prod.splits)
      qed
    qed
  qed
qed simp

section \<open>Termination\<close>

text \<open>Enough fuel: one more than the number of loadable types that were not seen yet.\<close>

lemma collect_returns:
  assumes "finite {t. loadable w t}"
  shows "collected_ok w s \<Longrightarrow> card ({t. loadable w t} - set (cs_seen s)) < n \<Longrightarrow> \<exists>out. collect n w t s = Some out"
proof (induction n arbitrary: t s)
  case (Suc n)
  let ?U = "{t. loadable w t}"
  have each: "collected_ok w s \<Longrightarrow> card (?U - set (cs_seen s)) < n \<Longrightarrow> \<exists>out. collect_each n w ds s = Some out" for ds s
  proof (induction ds arbitrary: s)
    case (Cons d ds)
    then obtain r s1 where 1: "collect n w d s = Some (r, s1)" using Suc.IH by fastforce
    show ?case
    proof (cases r)
      case (Inr u)
      have "explored w [d] s s1" using collect_runs [OF 1 Cons.prems(1)] Inr by (simp add: run_ok_def)
      then have "collected_ok w s1" "set (cs_seen s) \<subseteq> set (cs_seen s1)" by (auto simp: explored_def)
      moreover from this have "card (?U - set (cs_seen s1)) \<le> card (?U - set (cs_seen s))"
        using assms by (intro card_mono) auto
      ultimately show ?thesis using Cons 1 Inr by (metis (no_types, lifting) collect_each.simps(2) le_less_trans option.case(2) prod.case(1) sum.case(2))
    qed (use 1 in simp)
  qed auto
  have cache: "cache_true w (cs_failures s)" using Suc.prems(1) by (simp add: collected_ok_def)
  obtain x fs where x: "load w t (cs_failures s) = (x, fs)" by fastforce
  with load_true [OF cache, of t] have fs: "read_definition w t = x" "cache_true w fs" by simp_all
  show ?case
  proof (cases "t \<in> set (cs_seen s) \<or> (\<exists>e. x = Inl e)")
    case False
    then obtain body p where b: "x = Inr body" "parsed_type_parse t = Inr p" "t \<notin> set (cs_seen s)"
      using read_parses [of w t] fs(1) by (cases x) auto
    let ?s2 = "s\<lparr>cs_seen := t # cs_seen s, cs_failures := fs,
        cs_definitions := cs_definitions s @ [\<lparr>def_type = t, def_body = body\<rparr>]\<rparr>"
    have "t \<in> ?U - set (cs_seen s)" using b fs(1) by (simp add: loadable_def)
    moreover have "?U - set (cs_seen ?s2) = (?U - set (cs_seen s)) - {t}" by auto
    ultimately have "card (?U - set (cs_seen ?s2)) < card (?U - set (cs_seen s))"
      using assms by (metis card_Diff1_less finite_Diff)
    moreover have "collected_ok w ?s2" using Suc.prems(1) b fs by (auto simp: collected_ok_def)
    ultimately have "\<exists>out. collect_each n w (parseDependencies body (pt_package p)) ?s2 = Some out"
      using Suc.prems(2) by (intro each) auto
    with b x show ?thesis by (simp add: Let_def)
  qed (use x in \<open>auto simp: Let_def\<close>)
qed simp

section \<open>Finitely many files\<close>

lemma up_to_beyond: "c \<in> set s \<Longrightarrow> up_to c s @ c # beyond c s = s"
  unfolding up_to_def beyond_def by (induction s) auto

lemma up_to_free: "c \<notin> set (up_to c s)"
  by (auto simp: up_to_def dest: set_takeWhileD)

lemma parsed_type_parts:
  assumes "parsed_type_parse t = Inr p"
  shows "t = pt_package p @ ''/'' @ pt_kind p @ ''/'' @ pt_name p \<and> CHR ''/'' \<notin> set (pt_package p) \<and> CHR ''/'' \<notin> set (pt_kind p)
    \<and> CHR ''/'' \<notin> set (pt_name p) \<and> pt_package p \<noteq> [] \<and> pt_kind p \<in> {''msg'', ''srv'', ''action''} \<and> pt_name p \<noteq> []"
  using assms up_to_beyond [of "CHR ''/''" t] up_to_beyond [of "CHR ''/''" "beyond (CHR ''/'') t"]
  by (auto simp: parsed_type_parse_def Let_def up_to_free split: if_splits)

lemma path_join_length: "b = [] \<or> hd b \<noteq> CHR ''/'' \<Longrightarrow> length a + length b \<le> length (path_join a b)"
  by (auto simp: path_join_def)

lemma find_registered_eq: "(case find_registered r ls of Some x \<Rightarrow> x | None \<Rightarrow> r) = r"
  by (induction ls) auto

lemma definition_path_length:
  assumes p: "parsed_type_parse t = Inr p" and path: "resolveDefinitionPath w p = Inr path"
  shows "length t \<le> length path"
proof -
  let ?r = "pt_kind p @ ''/'' @ pt_name p @ ''.'' @ pt_kind p"
  note parts = parsed_type_parts [OF p]
  obtain prefix where pre: "path = path_join (path_join (path_join prefix ''share'') (pt_package p)) ?r"
    using path by (auto simp: resolveDefinitionPath_def Let_def find_registered_eq split: option.split_asm prod.splits)
  have "hd ?r \<noteq> CHR ''/''" "hd (pt_package p) \<noteq> CHR ''/''" using parts by (auto dest: hd_in_set)
  then have "length (path_join (path_join prefix ''share'') (pt_package p)) + length ?r \<le> length path"
    "length (pt_package p) \<le> length (path_join (path_join prefix ''share'') (pt_package p))"
    using path_join_length [of ?r "path_join (path_join prefix ''share'') (pt_package p)"]
      path_join_length [of "pt_package p" "path_join prefix ''share''"] pre by simp_all
  moreover have "length t = length (pt_package p @ ''/'' @ pt_kind p @ ''/'' @ pt_name p)" using parts by simp
  ultimately show ?thesis by simp
qed

lemma finite_loadable:
  assumes "finite {path. read_file w path \<noteq> None}"
  shows "finite {t. loadable w t}"
proof (rule finite_subset)
  let ?n = "Max (length ` {path. read_file w path \<noteq> None})"
  show "{t. loadable w t} \<subseteq> {t. length t \<le> ?n}"
  proof
    fix t assume "t \<in> {t. loadable w t}"
    then obtain p path where p: "parsed_type_parse t = Inr p" "resolveDefinitionPath w p = Inr path" "read_file w path \<noteq> None"
      by (auto simp: loadable_def read_definition_def res_bind_Inr_iff split: option.splits)
    have "length path \<le> ?n" using assms p(3) by (intro Max_ge) auto
    with definition_path_length [OF p(1,2)] show "t \<in> {t. length t \<le> ?n}" by simp
  qed
  show "finite {t :: string. length t \<le> ?n}" using finite_lists_length_le [of "UNIV :: char set" ?n] by simp
qed

section \<open>Properties\<close>

lemma lookup_returns:
  assumes "finite {path. read_file w path \<noteq> None}" "cache_true w fs" "card {t. loadable w t} < n"
  shows "\<exists>r fs'. lookupDefinitions n w type fs = Some (r, fs') \<and> cache_true w fs'"
proof -
  let ?s = "\<lparr>cs_seen = [], cs_definitions = [], cs_failures = fs\<rparr>"
  have ok: "collected_ok w ?s" using assms(2) by (simp add: collected_ok_def)
  with collect_returns [OF finite_loadable [OF assms(1)]] assms(3)
  obtain r s' where run: "collect n w type ?s = Some (r, s')" by fastforce
  have "cache_true w (cs_failures s')"
    using collect_runs [OF run ok] by (cases r) (auto simp: run_ok_def explored_def collected_ok_def)
  with run show ?thesis by (cases r) (simp_all add: lookupDefinitions_def)
qed

text \<open>
  C28: the recursive lookup terminates on every world with finitely many files, whatever cycles
  the definitions have: a recursion depth of the number of loadable types suffices.
\<close>

theorem lookup_terminates:
  assumes "finite {path. read_file w path \<noteq> None}" "cache_true w fs" "card {t. loadable w t} < n"
  shows "\<exists>r fs'. lookupDefinitions n w type fs = Some (r, fs') \<and> cache_true w fs'"
  by (rule lookup_returns [OF assms])

text \<open>
  A lookup returns exactly the definitions the requested type depends on, directly or through
  other definitions, each once, the requested one first, with the contents of their files; it
  fails exactly when one of them cannot be loaded, with that type's error.
\<close>

theorem lookup_is_closure:
  assumes "cache_true w fs" "lookupDefinitions n w type fs = Some (r, fs')"
  shows "(case r of
      Inr ds \<Rightarrow> set (map def_type ds) = {u. reaches w type u} \<and> distinct (map def_type ds)
        \<and> ds \<noteq> [] \<and> def_type (hd ds) = type \<and> (\<forall>d \<in> set ds. read_definition w (def_type d) = Inr (def_body d))
    | Inl e \<Rightarrow> \<exists>u. reaches w type u \<and> read_definition w u = Inl e)
    \<and> ((\<exists>ds. r = Inr ds) \<longleftrightarrow> (\<forall>u. reaches w type u \<longrightarrow> loadable w u))"
proof -
  let ?s = "\<lparr>cs_seen = [], cs_definitions = [], cs_failures = fs\<rparr>"
  have ok: "collected_ok w ?s" using assms(1) by (simp add: collected_ok_def)
  obtain x s' where run: "collect n w type ?s = Some (x, s')"
    using assms(2) by (auto simp: lookupDefinitions_def split: option.splits)
  note post = collect_runs [OF run ok]
  show ?thesis
  proof (cases x)
    case (Inl e)
    with post obtain u where u: "reaches w type u" "read_definition w u = Inl e" by (auto simp: run_ok_def)
    moreover have "r = Inl e" using assms(2) run Inl by (simp add: lookupDefinitions_def)
    ultimately show ?thesis by (auto simp: loadable_def)
  next
    case (Inr u)
    then have r: "r = Inr (cs_definitions s')" using assms(2) run by (simp add: lookupDefinitions_def)
    have ex: "explored w [type] ?s s'" using post Inr by (simp add: run_ok_def)
    then have s': "collected_ok w s'" by (simp add: explored_def)
    have seen: "set (cs_seen s') = {u. reaches w type u}"
    proof (intro equalityI subsetI CollectI; (elim CollectE)?)
      fix u assume "u \<in> set (cs_seen s')"
      with ex show "reaches w type u" by (auto simp: explored_def)
    next
      fix u assume "reaches w type u"
      then show "u \<in> set (cs_seen s')"
        by (induction rule: rtranclp_induct) (use ex in \<open>auto simp: explored_def\<close>)
    qed
    have types: "map def_type (cs_definitions s') = rev (cs_seen s')" "distinct (cs_seen s')"
      and bodies: "\<forall>d \<in> set (cs_definitions s'). read_definition w (def_type d) = Inr (def_body d)"
      using s' by (simp_all add: collected_ok_def)
    have set_types: "set (map def_type (cs_definitions s')) = {u. reaches w type u}" using types(1) seen by simp
    have "loadable w u" if "reaches w type u" for u
    proof -
      have "u \<in> set (map def_type (cs_definitions s'))" using that set_types by simp
      with bodies show ?thesis by (auto simp: loadable_def)
    qed
    moreover have "cs_definitions s' \<noteq> [] \<and> def_type (hd (cs_definitions s')) = type" using ex by (auto simp: explored_def)
    ultimately show ?thesis using r set_types types bodies by simp
  qed
qed

text \<open>Two packages whose messages mention each other.\<close>

definition sample_world :: definition_world where
  "sample_world = \<lparr>ament_resource = (\<lambda>p. if p = ''a'' \<or> p = ''b'' then Some (''msg/A.msg'', ''/opt'') else None),
     read_file = map_of [(''/opt/share/a/msg/A.msg'', ''b/B[] items # list'' @ [CHR 0x0A] @ ''int32 N=3''),
                         (''/opt/share/b/msg/B.msg'', ''a/msg/A parent'')]\<rparr>"

lemma sample_world_finite: "finite {path. read_file sample_world path \<noteq> None}"
  by (rule finite_subset [of _ "{''/opt/share/a/msg/A.msg'', ''/opt/share/b/msg/B.msg''}"])
    (auto simp: sample_world_def split: if_splits)

lemma sample_lookup:
  "lookupDefinitions 3 sample_world ''a/msg/A'' [] = Some (Inr
     [\<lparr>def_type = ''a/msg/A'', def_body = ''b/B[] items # list'' @ [CHR 0x0A] @ ''int32 N=3''\<rparr>,
      \<lparr>def_type = ''b/msg/B'', def_body = ''a/msg/A parent''\<rparr>], [])"
  by code_simp

theorem lookup_terminates_witness:
  "\<exists>r fs'. lookupDefinitions (Suc (card {t. loadable sample_world t})) sample_world ''a/msg/A'' [] = Some (r, fs')"
  using lookup_terminates [OF sample_world_finite, of "[]" "Suc (card {t. loadable sample_world t})" "''a/msg/A''"] by (auto simp: cache_true_def)

theorem lookup_is_closure_witness: "{u. reaches sample_world ''a/msg/A'' u} = {''a/msg/A'', ''b/msg/B''}"
  using lookup_is_closure [OF _ sample_lookup] by (simp add: cache_true_def)

end
