(* ===== verification/Room_Connection.thy ===== *)
theory Room_Connection
  imports Bridge_Prelude
begin

text \<open>
  \<open>SdkRoomConnection\<close> (src/src/room_connection.cpp): the connection task, the current room with its
  generation, the saved RPC handlers, the published tracks and the SDK callbacks. Every critical
  section under \<open>mutex_\<close> is one operation; SDK calls made between two sections are the steps in
  between. What the LiveKit SDK answers comes from the environment record of a step; what it is
  told is recorded: registered methods, published and unpublished tracks, notifications. A number
  names a room, a track or a handler. \<open>generations\<close> lists the room of each generation.
\<close>

section \<open>State\<close>

datatype connection_state = Disconnected | Connected | Reconnecting

datatype media = VideoMedia | AudioMedia

record livekit_config =
  lk_url :: string
  lk_token :: string

text \<open>Where the connection task stands; \<open>NoTask\<close>: the thread is not joinable.\<close>

datatype connect_task = NoTask | Initializing | Connecting | RoomReady nat | Activated | ActivationFailed | TaskDone

record room_connection =
  rc_config :: livekit_config
  rc_callbacks :: bool
  rc_state :: connection_state
  rc_room :: "nat option"
  rc_generation :: "64 word"
  rc_task :: connect_task
  stop_requested :: bool
  stopping :: bool  \<comment> \<open>a \<open>stop()\<close> between its two critical sections\<close>
  sdk_initialized :: bool
  rpc_handlers :: "(string, nat) alist"
  video_generations :: "(nat, 64 word) alist"
  audio_generations :: "(nat, 64 word) alist"
  publishing :: "(media \<times> nat \<times> 64 word) list"  \<comment> \<open>published by the SDK, not yet recorded\<close>
  unpublishing :: "(nat \<times> 64 word) list"  \<comment> \<open>erased from a map, not yet unpublished\<close>
  generations :: "nat option list"
  sdk_methods :: "(nat \<times> string, nat) alist"
  sdk_published :: "(nat, nat) alist"  \<comment> \<open>track to the room it was published in\<close>
  sdk_unpublished :: "(nat \<times> nat) list"  \<comment> \<open>room told, track\<close>
  notified :: "connection_state list"

record sdk_env =
  sdk_alive :: bool  \<comment> \<open>the local participant can be locked\<close>
  sdk_unregister :: bool
  sdk_register :: "string \<Rightarrow> bool"

definition room_init :: room_connection where
  "room_init = \<lparr>rc_config = \<lparr>lk_url = [], lk_token = []\<rparr>, rc_callbacks = False, rc_state = Disconnected, rc_room = None,
     rc_generation = 0, rc_task = NoTask, stop_requested = False, stopping = False, sdk_initialized = False,
     rpc_handlers = [], video_generations = [], audio_generations = [], publishing = [], unpublishing = [],
     generations = [None], sdk_methods = [], sdk_published = [], sdk_unpublished = [], notified = []\<rparr>"

section \<open>RPC methods\<close>

definition lockedLocalParticipant :: "sdk_env \<Rightarrow> nat option \<Rightarrow> nat option" where
  "lockedLocalParticipant env room = (case room of None \<Rightarrow> None | Some r \<Rightarrow> if sdk_alive env then Some r else None)"

definition registerRpcLocked :: "sdk_env \<Rightarrow> string \<Rightarrow> room_connection \<Rightarrow> bool \<times> room_connection" where
  "registerRpcLocked env method c =
     (case (lockedLocalParticipant env (rc_room c), lookup (rpc_handlers c) method) of
        (Some r, Some h) \<Rightarrow>
          (let c1 = (if sdk_unregister env then c\<lparr>sdk_methods := AList.delete (r, method) (sdk_methods c)\<rparr> else c) in
           if sdk_register env method then (True, c1\<lparr>sdk_methods := AList.update (r, method) h (sdk_methods c1)\<rparr>)
           else (False, c1))
      | _ \<Rightarrow> (True, c))"

definition registerRpc :: "sdk_env \<Rightarrow> string \<Rightarrow> nat \<Rightarrow> room_connection \<Rightarrow> bool \<times> room_connection" where
  "registerRpc env method h c = registerRpcLocked env method (c\<lparr>rpc_handlers := AList.update method h (rpc_handlers c)\<rparr>)"

definition unregisterRpc :: "sdk_env \<Rightarrow> string \<Rightarrow> room_connection \<Rightarrow> bool \<times> room_connection" where
  "unregisterRpc env method c =
     (let c1 = c\<lparr>rpc_handlers := AList.delete method (rpc_handlers c)\<rparr> in
      case lockedLocalParticipant env (rc_room c1) of
        None \<Rightarrow> (True, c1)
      | Some r \<Rightarrow>
          if sdk_unregister env then (True, c1\<lparr>sdk_methods := AList.delete (r, method) (sdk_methods c1)\<rparr>)
          else (False, c1))"

text \<open>The callback handed to the SDK: only RPC errors leave it.\<close>

definition rpc_callback :: "'a res \<Rightarrow> 'a res" where
  "rpc_callback result =
     (case result of
        Inr x \<Rightarrow> Inr x
      | Inl (Rpc_error code msg) \<Rightarrow> Inl (Rpc_error code msg)
      | Inl e \<Rightarrow> Inl (Rpc_error 2500 ''Internal error handling RPC method''))"

section \<open>The connection task\<close>

definition rc_start :: "livekit_config \<Rightarrow> room_connection \<Rightarrow> room_connection" where
  "rc_start config c =
     (if rc_task c \<noteq> NoTask then c
      else c\<lparr>rc_config := config, rc_callbacks := True, stop_requested := False, rc_state := Disconnected, rc_task := Initializing\<rparr>)"

text \<open>\<open>run\<close> up to the decision to connect.\<close>

definition run_initialize :: "bool \<Rightarrow> room_connection \<Rightarrow> room_connection" where
  "run_initialize ok c =
     (if \<not> ok then c\<lparr>rc_task := TaskDone\<rparr>
      else c\<lparr>sdk_initialized := True, rc_task := (if stop_requested c then TaskDone else Connecting)\<rparr>)"

text \<open>What \<open>connectRoom\<close> returns: \<open>connect\<close> must succeed and the local participant exist.\<close>

definition connectRoom :: "bool res \<Rightarrow> bool \<Rightarrow> nat \<Rightarrow> nat option" where
  "connectRoom connected participant room =
     (case connected of Inr True \<Rightarrow> if participant then Some room else None | _ \<Rightarrow> None)"

definition connect_room :: "nat option \<Rightarrow> room_connection \<Rightarrow> room_connection" where
  "connect_room room c =
     (case room of
        None \<Rightarrow> c\<lparr>rc_task := TaskDone\<rparr>
      | Some r \<Rightarrow> c\<lparr>rc_task := (if stop_requested c then TaskDone else RoomReady r)\<rparr>)"

fun register_all :: "sdk_env \<Rightarrow> string list \<Rightarrow> room_connection \<Rightarrow> bool \<times> room_connection" where
  "register_all env [] c = (True, c)"
| "register_all env (m # rest) c =
     (let (ok, c1) = registerRpcLocked env m c; (oks, c2) = register_all env rest c1 in (ok \<and> oks, c2))"

definition activateRoom :: "sdk_env \<Rightarrow> nat \<Rightarrow> room_connection \<Rightarrow> bool \<times> room_connection" where
  "activateRoom env r c =
     (let c1 = c\<lparr>rc_generation := rc_generation c + 1, generations := generations c @ [Some r], rc_room := Some r\<rparr>
      in register_all env (keys (rpc_handlers c1)) c1)"

definition detachRoom :: "room_connection \<Rightarrow> room_connection" where
  "detachRoom c =
     (let c1 = (if rc_room c = None then c
                else c\<lparr>rc_generation := rc_generation c + 1, generations := generations c @ [None], rc_room := None\<rparr>)
      in c1\<lparr>video_generations := [], rc_state := Disconnected\<rparr>)"

definition transitionState :: "connection_state \<Rightarrow> room_connection \<Rightarrow> room_connection" where
  "transitionState st c =
     (if rc_state c = st then c
      else (let c1 = c\<lparr>rc_state := st\<rparr> in
            if rc_callbacks c1 then c1\<lparr>notified := notified c1 @ [st]\<rparr> else c1))"

text \<open>The two halves of \<open>connect\<close> after the room is ready.\<close>

definition connect_activate :: "sdk_env \<Rightarrow> nat \<Rightarrow> room_connection \<Rightarrow> room_connection" where
  "connect_activate env r c =
     (let (ok, c1) = activateRoom env r c in c1\<lparr>rc_task := (if ok then Activated else ActivationFailed)\<rparr>)"

definition connect_finish :: "room_connection \<Rightarrow> room_connection" where
  "connect_finish c =
     (case rc_task c of
        Activated \<Rightarrow> (transitionState Connected c)\<lparr>rc_task := TaskDone\<rparr>
      | ActivationFailed \<Rightarrow> (detachRoom c)\<lparr>rc_task := TaskDone\<rparr>
      | _ \<Rightarrow> c)"

definition stop_request :: "room_connection \<Rightarrow> room_connection" where
  "stop_request c = (if rc_task c = NoTask then c else c\<lparr>stop_requested := True\<rparr>)"

text \<open>\<open>stop\<close> after the join, and its last critical section.\<close>

definition stop_detach :: "room_connection \<Rightarrow> room_connection" where
  "stop_detach c = (detachRoom c)\<lparr>rc_task := NoTask, stopping := True\<rparr>"

definition stop_clear :: "room_connection \<Rightarrow> bool \<times> room_connection" where
  "stop_clear c =
     (sdk_initialized c, c\<lparr>rc_callbacks := False, rc_state := Disconnected, sdk_initialized := False, stopping := False\<rparr>)"

section \<open>Tracks\<close>

record participant_ref =
  ref_room :: "nat option"
  ref_participant :: "nat option"
  ref_generation :: "64 word"

definition participantRef :: "sdk_env \<Rightarrow> room_connection \<Rightarrow> participant_ref" where
  "participantRef env c =
     \<lparr>ref_room = rc_room c,
      ref_participant = (if rc_state c \<noteq> Disconnected then lockedLocalParticipant env (rc_room c) else None),
      ref_generation = rc_generation c\<rparr>"

definition kLocalParticipantUnavailable :: string where
  "kLocalParticipantUnavailable = ''LiveKit local participant unavailable.''"

fun media_word :: "media \<Rightarrow> string" where
  "media_word VideoMedia = ''Video''"
| "media_word AudioMedia = ''Audio''"

fun media_lower :: "media \<Rightarrow> string" where
  "media_lower VideoMedia = ''video''"
| "media_lower AudioMedia = ''audio''"

text \<open>
  \<open>publishVideoTrack\<close> and \<open>publishAudioTrack\<close> up to the SDK's publication: \<open>publication\<close> is what
  creating and publishing the track gave, \<open>Inr False\<close> when no track or no publication came back.
\<close>

definition publish_track ::
  "sdk_env \<Rightarrow> media \<Rightarrow> string \<Rightarrow> bool \<Rightarrow> bool res \<Rightarrow> nat \<Rightarrow> room_connection \<Rightarrow> unit res \<times> room_connection" where
  "publish_track env kind name has_source publication track c =
     (if name = [] then (Inl (Invalid_argument (media_word kind @ '' track name is required.'')), c)
      else if \<not> has_source then (Inl (Invalid_argument (media_word kind @ '' source is required.'')), c)
      else (let ref = participantRef env c in
        case ref_participant ref of
          None \<Rightarrow> (Inl (Runtime_error kLocalParticipantUnavailable), c)
        | Some r \<Rightarrow>
            (case publication of
               Inl e \<Rightarrow> (Inl e, c)
             | Inr ok \<Rightarrow>
                 if \<not> ok then
                   (Inl (Runtime_error (''Failed to publish '' @ media_lower kind @ '' track '' @ [CHR 0x27] @ name @ [CHR 0x27, CHR ''.''])), c)
                 else (Inr (), c\<lparr>sdk_published := (track, r) # sdk_published c,
                                 publishing := (kind, track, ref_generation ref) # publishing c\<rparr>))))"

text \<open>\<open>recordTrackIfCurrent\<close> and \<open>recordAudioTrackIfCurrent\<close>.\<close>

definition record_track :: "media \<Rightarrow> nat \<Rightarrow> 64 word \<Rightarrow> room_connection \<Rightarrow> room_connection" where
  "record_track kind track gen c =
     (let c1 = c\<lparr>publishing := remove1 (kind, track, gen) (publishing c)\<rparr> in
      if gen \<noteq> rc_generation c1 then c1
      else (case kind of
              VideoMedia \<Rightarrow> c1\<lparr>video_generations := AList.update track gen (video_generations c1)\<rparr>
            | AudioMedia \<Rightarrow> c1\<lparr>audio_generations := AList.update track gen (audio_generations c1)\<rparr>))"

text \<open>\<open>unpublishVideoTrackIfCurrent\<close> and its audio twin: the erase, then the guarded SDK call.\<close>

definition unpublish_take :: "media \<Rightarrow> nat \<Rightarrow> room_connection \<Rightarrow> room_connection" where
  "unpublish_take kind track c =
     (case kind of
        VideoMedia \<Rightarrow>
          (case lookup (video_generations c) track of
             None \<Rightarrow> c
           | Some g \<Rightarrow> c\<lparr>video_generations := AList.delete track (video_generations c), unpublishing := (track, g) # unpublishing c\<rparr>)
      | AudioMedia \<Rightarrow>
          (case lookup (audio_generations c) track of
             None \<Rightarrow> c
           | Some g \<Rightarrow> c\<lparr>audio_generations := AList.delete track (audio_generations c), unpublishing := (track, g) # unpublishing c\<rparr>))"

definition unpublish_send :: "sdk_env \<Rightarrow> bool \<Rightarrow> nat \<Rightarrow> 64 word \<Rightarrow> room_connection \<Rightarrow> room_connection" where
  "unpublish_send env has_publication track gen c =
     (let c1 = c\<lparr>unpublishing := remove1 (track, gen) (unpublishing c)\<rparr>; ref = participantRef env c1 in
      if \<not> has_publication then c1
      else (case ref_participant ref of
              None \<Rightarrow> c1
            | Some r \<Rightarrow> if ref_generation ref \<noteq> gen then c1
                        else c1\<lparr>sdk_unpublished := (r, track) # sdk_unpublished c1\<rparr>))"

text \<open>The calls as the bridge makes them, when no other call comes between their parts.\<close>

definition publishVideoTrack ::
  "sdk_env \<Rightarrow> string \<Rightarrow> bool \<Rightarrow> bool res \<Rightarrow> nat \<Rightarrow> room_connection \<Rightarrow> unit res \<times> room_connection" where
  "publishVideoTrack env name has_source publication track c =
     (case publish_track env VideoMedia name has_source publication track c of
        (Inl e, c') \<Rightarrow> (Inl e, c')
      | (Inr u, c') \<Rightarrow> (Inr u, record_track VideoMedia track (rc_generation c) c'))"

definition publishAudioTrack ::
  "sdk_env \<Rightarrow> string \<Rightarrow> bool \<Rightarrow> bool res \<Rightarrow> nat \<Rightarrow> room_connection \<Rightarrow> unit res \<times> room_connection" where
  "publishAudioTrack env name has_source publication track c =
     (case publish_track env AudioMedia name has_source publication track c of
        (Inl e, c') \<Rightarrow> (Inl e, c')
      | (Inr u, c') \<Rightarrow> (Inr u, record_track AudioMedia track (rc_generation c) c'))"

definition unpublishVideoTrackIfCurrent :: "sdk_env \<Rightarrow> bool \<Rightarrow> nat \<Rightarrow> room_connection \<Rightarrow> room_connection" where
  "unpublishVideoTrackIfCurrent env has_publication track c =
     (case lookup (video_generations c) track of
        None \<Rightarrow> c
      | Some g \<Rightarrow> unpublish_send env has_publication track g (unpublish_take VideoMedia track c))"

definition unpublishAudioTrackIfCurrent :: "sdk_env \<Rightarrow> bool \<Rightarrow> nat \<Rightarrow> room_connection \<Rightarrow> room_connection" where
  "unpublishAudioTrackIfCurrent env has_publication track c =
     (case lookup (audio_generations c) track of
        None \<Rightarrow> c
      | Some g \<Rightarrow> unpublish_send env has_publication track g (unpublish_take AudioMedia track c))"

text \<open>
  The calls the media publishers make: a null track is ignored, and what the SDK's unpublication throws
  (\<open>told = Inl e\<close>) is swallowed. The track is off the map by then.
\<close>

definition unpublishVideoTrack :: "sdk_env \<Rightarrow> bool \<Rightarrow> unit res \<Rightarrow> nat option \<Rightarrow> room_connection \<Rightarrow> room_connection" where
  "unpublishVideoTrack env has_publication told track c =
     (case track of
        None \<Rightarrow> c
      | Some t \<Rightarrow>
          (case told of
             Inr _ \<Rightarrow> unpublishVideoTrackIfCurrent env has_publication t c
           | Inl e \<Rightarrow> (unpublishVideoTrackIfCurrent env has_publication t c)\<lparr>sdk_unpublished := sdk_unpublished c\<rparr>))"

definition unpublishAudioTrack :: "sdk_env \<Rightarrow> bool \<Rightarrow> unit res \<Rightarrow> nat option \<Rightarrow> room_connection \<Rightarrow> room_connection" where
  "unpublishAudioTrack env has_publication told track c =
     (case track of
        None \<Rightarrow> c
      | Some t \<Rightarrow>
          (case told of
             Inr _ \<Rightarrow> unpublishAudioTrackIfCurrent env has_publication t c
           | Inl e \<Rightarrow> (unpublishAudioTrackIfCurrent env has_publication t c)\<lparr>sdk_unpublished := sdk_unpublished c\<rparr>))"

section \<open>Data\<close>

definition publishData :: "sdk_env \<Rightarrow> (nat \<Rightarrow> unit res) \<Rightarrow> room_connection \<Rightarrow> unit res" where
  "publishData env send c =
     (case ref_participant (participantRef env c) of
        None \<Rightarrow> Inl (Runtime_error kLocalParticipantUnavailable)
      | Some r \<Rightarrow> send r)"

text \<open>The SDK's answer: an error message, no track, or a track.\<close>

definition publishDataTrack :: "sdk_env \<Rightarrow> (nat \<Rightarrow> string + nat option) \<Rightarrow> string \<Rightarrow> room_connection \<Rightarrow> nat res" where
  "publishDataTrack env sdk name c =
     (case ref_participant (participantRef env c) of
        None \<Rightarrow> Inl (Runtime_error kLocalParticipantUnavailable)
      | Some r \<Rightarrow>
          (case sdk r of
             Inl message \<Rightarrow> Inl (Runtime_error (''Failed to publish data track '' @ [CHR 0x27] @ name @ [CHR 0x27] @ '': '' @ message))
           | Inr None \<Rightarrow> Inl (Runtime_error ''LiveKit returned a null data track.'')
           | Inr (Some t) \<Rightarrow> Inr t))"

definition unpublishDataTrack :: "sdk_env \<Rightarrow> (nat \<Rightarrow> unit res) \<Rightarrow> nat option \<Rightarrow> room_connection \<Rightarrow> unit res" where
  "unpublishDataTrack env sdk track c =
     (case track of
        None \<Rightarrow> Inr ()
      | Some t \<Rightarrow>
          if rc_state c = Disconnected then Inr ()
          else (case lockedLocalParticipant env (rc_room c) of None \<Rightarrow> Inr () | Some r \<Rightarrow> sdk r))"

text \<open>
  \<open>sendByteStream\<close>: refused, or handed to a detached sender for the given room. The sender's
  calls on the stream writer, in order; whatever throws, nothing leaves the thread.
\<close>

datatype writer_call = Construct | WriteAll | CloseStream | CloseFailed

definition sendByteStream :: "sdk_env \<Rightarrow> bool \<Rightarrow> room_connection \<Rightarrow> nat option res" where
  "sendByteStream env has_payload c =
     (if \<not> has_payload then Inl (Invalid_argument ''Byte-stream payload is required.'')
      else (let ref = participantRef env c in
        case ref_participant ref of
          None \<Rightarrow> Inl (Runtime_error kLocalParticipantUnavailable)
        | Some r \<Rightarrow> Inr (ref_room ref)))"

definition byte_stream_sender :: "bool \<Rightarrow> (writer_call \<Rightarrow> bool) \<Rightarrow> writer_call list" where
  "byte_stream_sender alive ok =
     (if \<not> alive then []
      else if \<not> ok Construct then [Construct]
      else if ok WriteAll \<and> ok CloseStream then [Construct, WriteAll, CloseStream]
      else if ok WriteAll then [Construct, WriteAll, CloseStream, CloseFailed]
      else [Construct, WriteAll, CloseFailed])"

section \<open>Events\<close>

definition onParticipantDisconnected :: "string option \<Rightarrow> room_connection \<Rightarrow> string option" where
  "onParticipantDisconnected participant c =
     (case participant of
        None \<Rightarrow> None
      | Some identity \<Rightarrow> if rc_state c = Connected \<and> rc_callbacks c \<and> identity \<noteq> [] then Some identity else None)"

definition onUserPacketReceived :: "'p \<Rightarrow> room_connection \<Rightarrow> 'p option" where
  "onUserPacketReceived packet c = (if rc_state c \<noteq> Disconnected \<and> rc_callbacks c then Some packet else None)"

text \<open>Whether a change of the room's sid is reported.\<close>

definition onRoomSidChanged :: "nat \<Rightarrow> room_connection \<Rightarrow> bool" where
  "onRoomSidChanged room c \<longleftrightarrow> \<not> (rc_room c \<noteq> Some room \<or> rc_state c = Disconnected)"

text \<open>The SDK's connection events and the state each of them reports.\<close>

datatype sdk_event = StateChanged connection_state | DisconnectedEvent | ReconnectingEvent | ReconnectedEvent | RoomEos

fun reported_state :: "sdk_event \<Rightarrow> connection_state" where
  "reported_state (StateChanged st) = st"
| "reported_state DisconnectedEvent = Disconnected"
| "reported_state ReconnectingEvent = Reconnecting"
| "reported_state ReconnectedEvent = Connected"
| "reported_state RoomEos = Disconnected"

definition on_event :: "sdk_event \<Rightarrow> room_connection \<Rightarrow> room_connection" where
  "on_event e c = transitionState (reported_state e) c"

section \<open>Interleavings\<close>

text \<open>
  Calls of the bridge and of the SDK in any order. A published track is a new object, and a
  connection attempt makes a new room.
\<close>

inductive rcstep :: "room_connection \<Rightarrow> room_connection \<Rightarrow> bool" where
  Start: "rcstep c (rc_start config c)"
| Run_initialize: "rc_task c = Initializing \<Longrightarrow> rcstep c (run_initialize ok c)"
| Connect_room: "rc_task c = Connecting \<Longrightarrow> rcstep c (connect_room (connectRoom connected participant room) c)"
| Activate: "rc_task c = RoomReady r \<Longrightarrow> rcstep c (connect_activate env r c)"
| Finish: "rc_task c = Activated \<or> rc_task c = ActivationFailed \<Longrightarrow> rcstep c (connect_finish c)"
| Stop_request: "rcstep c (stop_request c)"
| Stop_detach: "rc_task c = TaskDone \<Longrightarrow> stop_requested c \<Longrightarrow> rcstep c (stop_detach c)"
| Stop_clear: "stopping c \<Longrightarrow> rcstep c (snd (stop_clear c))"
| Register: "rcstep c (snd (registerRpc env method h c))"
| Unregister: "rcstep c (snd (unregisterRpc env method c))"
| Publish: "track \<notin> set (keys (sdk_published c)) \<Longrightarrow>
    rcstep c (snd (publish_track env kind name has_source publication track c))"
| Record: "(kind, track, gen) \<in> set (publishing c) \<Longrightarrow> rcstep c (record_track kind track gen c)"
| Unpublish_take: "rcstep c (unpublish_take kind track c)"
| Unpublish_send: "(track, gen) \<in> set (unpublishing c) \<Longrightarrow> rcstep c (unpublish_send env has_publication track gen c)"
| Event: "rcstep c (on_event e c)"

inductive_cases rcstepE: "rcstep c c'"

abbreviation room_reachable :: "room_connection \<Rightarrow> bool" where
  "room_reachable c \<equiv> rcstep\<^sup>*\<^sup>* room_init c"

section \<open>Invariant\<close>

text \<open>A track is on file under the generation of the room it was published in.\<close>

definition on_file :: "nat option list \<Rightarrow> (nat, nat) alist \<Rightarrow> nat \<Rightarrow> 64 word \<Rightarrow> bool" where
  "on_file rooms published track gen \<longleftrightarrow>
     (\<exists>k r. k < length rooms \<and> gen = of_nat k \<and> rooms ! k = Some r \<and> lookup published track = Some r)"

definition current_generation :: "room_connection \<Rightarrow> bool" where
  "current_generation c \<longleftrightarrow>
     generations c \<noteq> [] \<and> rc_generation c = of_nat (length (generations c) - 1) \<and> last (generations c) = rc_room c"

definition tracks_inv :: "room_connection \<Rightarrow> bool" where
  "tracks_inv c \<longleftrightarrow> al_all (on_file (generations c) (sdk_published c)) (video_generations c)
     \<and> al_all (on_file (generations c) (sdk_published c)) (audio_generations c)
     \<and> al_all (on_file (generations c) (sdk_published c)) (map snd (publishing c))
     \<and> al_all (on_file (generations c) (sdk_published c)) (unpublishing c)
     \<and> al_all (\<lambda>r t. lookup (sdk_published c) t = Some r) (sdk_unpublished c)"

definition room_inv :: "room_connection \<Rightarrow> bool" where
  "room_inv c \<longleftrightarrow> current_generation c \<and> tracks_inv c"

lemma room_inv_init: "room_inv room_init"
  by (simp add: room_inv_def current_generation_def tracks_inv_def room_init_def)

lemma al_all_subset: "al_all P xs \<Longrightarrow> set ys \<subseteq> set xs \<Longrightarrow> al_all P ys"
  by (auto simp: al_all_def)

lemma on_file_grow:
  assumes "on_file rooms pub t g" and "\<And>r. lookup pub t = Some r \<Longrightarrow> lookup pub' t = Some r"
  shows "on_file (rooms @ gs) pub' t g"
proof -
  obtain k r where "k < length rooms" "g = of_nat k" "rooms ! k = Some r" "lookup pub t = Some r"
    using assms(1) by (auto simp: on_file_def)
  then show ?thesis
    unfolding on_file_def by (intro exI [of _ k] exI [of _ r]) (simp add: nth_append assms(2))
qed

lemma al_all_on_file_grow:
  "al_all (on_file rooms pub) al \<Longrightarrow> (\<And>t r. lookup pub t = Some r \<Longrightarrow> lookup pub' t = Some r) \<Longrightarrow>
   al_all (on_file (rooms @ gs) pub') al"
  by (erule al_all_mono) (rule on_file_grow)

text \<open>What an operation that moves no track may change.\<close>

definition tracks_kept :: "room_connection \<Rightarrow> room_connection \<Rightarrow> bool" where
  "tracks_kept c c' \<longleftrightarrow> set (video_generations c') \<subseteq> set (video_generations c) \<and> set (audio_generations c') \<subseteq> set (audio_generations c)
     \<and> publishing c' = publishing c \<and> unpublishing c' = unpublishing c
     \<and> sdk_published c' = sdk_published c \<and> sdk_unpublished c' = sdk_unpublished c"

lemma tracks_kept_refl: "tracks_kept c c"
  by (simp add: tracks_kept_def)

lemma tracks_kept_trans: "tracks_kept c c1 \<Longrightarrow> tracks_kept c1 c2 \<Longrightarrow> tracks_kept c c2"
  by (auto simp: tracks_kept_def)

lemma tracks_inv_kept:
  assumes inv: "tracks_inv c" and kept: "tracks_kept c c'" and gs: "generations c' = generations c @ gs"
  shows "tracks_inv c'"
proof -
  have grow: "al_all (on_file (generations c) (sdk_published c)) al \<Longrightarrow>
      al_all (on_file (generations c') (sdk_published c')) al" for al
    unfolding gs by (erule al_all_on_file_grow) (use kept in \<open>simp add: tracks_kept_def\<close>)
  have "al_all (on_file (generations c') (sdk_published c')) (video_generations c')"
    "al_all (on_file (generations c') (sdk_published c')) (audio_generations c')"
    using inv kept grow al_all_subset unfolding tracks_inv_def tracks_kept_def by blast+
  then show ?thesis
    using inv kept grow [of "map snd (publishing c)"] grow [of "unpublishing c"] by (simp add: tracks_inv_def tracks_kept_def)
qed

text \<open>The same room, generation and history.\<close>

definition same_room :: "room_connection \<Rightarrow> room_connection \<Rightarrow> bool" where
  "same_room c c' \<longleftrightarrow> generations c' = generations c \<and> rc_generation c' = rc_generation c \<and> rc_room c' = rc_room c"

lemma room_inv_same: "room_inv c \<Longrightarrow> tracks_kept c c' \<Longrightarrow> same_room c c' \<Longrightarrow> room_inv c'"
  using tracks_inv_kept [of c c' "[]"] by (simp add: same_room_def room_inv_def current_generation_def)

lemma registerRpcLocked_frame:
  "registerRpcLocked env m c = (ok, c') \<Longrightarrow> tracks_kept c c' \<and> same_room c c' \<and> rpc_handlers c' = rpc_handlers c \<and> rc_task c' = rc_task c"
  by (auto simp: registerRpcLocked_def tracks_kept_def same_room_def Let_def split: option.splits if_splits)

lemma register_all_frame:
  "register_all env methods c = (ok, c') \<Longrightarrow> tracks_kept c c' \<and> same_room c c' \<and> rpc_handlers c' = rpc_handlers c"
proof (induction methods arbitrary: c ok)
  case (Cons m methods)
  obtain ok1 c1 where 1: "registerRpcLocked env m c = (ok1, c1)" by fastforce
  obtain ok2 where 2: "register_all env methods c1 = (ok2, c')"
    using Cons.prems 1 by (auto split: prod.splits)
  show ?case
    using registerRpcLocked_frame [OF 1] Cons.IH [OF 2] tracks_kept_trans by (auto simp: same_room_def)
qed (simp add: tracks_kept_refl same_room_def)

text \<open>Entering the next generation, in a room or in none.\<close>

lemma room_inv_next:
  assumes "room_inv c" "tracks_kept c c'" "generations c' = generations c @ [x]" "rc_room c' = x"
    and "rc_generation c' = rc_generation c + 1"
  shows "room_inv c'"
proof -
  have "generations c \<noteq> []" "rc_generation c = of_nat (length (generations c) - 1)"
    using assms(1) by (simp_all add: room_inv_def current_generation_def)
  then have "rc_generation c' = of_nat (length (generations c') - 1)"
    using assms(3,5) by (cases "generations c") simp_all
  moreover have "tracks_inv c'" using assms(1,2,3) tracks_inv_kept by (auto simp: room_inv_def)
  ultimately show ?thesis using assms(3,4) by (simp add: room_inv_def current_generation_def)
qed

lemma activateRoom_inv:
  assumes "room_inv c" "activateRoom env r c = (ok, c')"
  shows "room_inv c'"
proof -
  let ?c1 = "c\<lparr>rc_generation := rc_generation c + 1, generations := generations c @ [Some r], rc_room := Some r\<rparr>"
  have "room_inv ?c1" by (rule room_inv_next [OF assms(1)]) (simp_all add: tracks_kept_def)
  moreover have "register_all env (keys (rpc_handlers c)) ?c1 = (ok, c')" using assms(2) by (simp add: activateRoom_def)
  ultimately show ?thesis using register_all_frame room_inv_same by blast
qed

lemma detachRoom_inv:
  assumes "room_inv c"
  shows "room_inv (detachRoom c)"
proof (cases "rc_room c")
  case None
  then show ?thesis
    by (intro room_inv_same [OF assms]) (simp_all add: detachRoom_def tracks_kept_def same_room_def Let_def)
next
  case (Some r)
  then show ?thesis
    by (intro room_inv_next [OF assms, of _ None]) (simp_all add: detachRoom_def tracks_kept_def Let_def)
qed

lemma current_room: "current_generation c \<Longrightarrow> generations c ! (length (generations c) - 1) = rc_room c"
  unfolding current_generation_def by (metis last_conv_nth)

lemma published_inv:
  assumes inv: "room_inv c" and fresh: "track \<notin> set (keys (sdk_published c))" and r: "rc_room c = Some r"
  shows "room_inv (c\<lparr>sdk_published := (track, r) # sdk_published c, publishing := (kind, track, rc_generation c) # publishing c\<rparr>)"
proof -
  let ?pub = "(track, r) # sdk_published c"
  have none: "lookup (sdk_published c) track = None" using fresh by (simp add: map_of_eq_None_iff)
  have old: "lookup ?pub t = Some x" if "lookup (sdk_published c) t = Some x" for t x
    using that none by (cases "t = track") simp_all
  have grow: "al_all (on_file (generations c) (sdk_published c)) al \<Longrightarrow> al_all (on_file (generations c) ?pub) al" for al
    using al_all_on_file_grow [of "generations c" "sdk_published c" al ?pub "[]"] old by simp
  have "on_file (generations c) ?pub track (rc_generation c)"
    using inv r current_room [of c] unfolding on_file_def
    by (rule_tac x = "length (generations c) - 1" in exI) (simp add: room_inv_def current_generation_def)
  moreover have "al_all (\<lambda>r t. lookup ?pub t = Some r) (sdk_unpublished c)"
    by (rule al_all_mono [where P = "\<lambda>r t. lookup (sdk_published c) t = Some r"])
      (use inv old in \<open>simp_all add: room_inv_def tracks_inv_def del: map_of.simps\<close>)
  moreover have "al_all (on_file (generations c) ?pub) (video_generations c)" "al_all (on_file (generations c) ?pub) (audio_generations c)"
    "al_all (on_file (generations c) ?pub) (map snd (publishing c))" "al_all (on_file (generations c) ?pub) (unpublishing c)"
    by (rule grow, use inv in \<open>simp add: room_inv_def tracks_inv_def\<close>)+
  ultimately show ?thesis
    using inv by (simp add: room_inv_def tracks_inv_def current_generation_def del: map_of.simps)
qed

lemma publish_track_cases:
  "snd (publish_track env kind name has_source publication track c) = c
   \<or> (\<exists>r. rc_room c = Some r \<and> snd (publish_track env kind name has_source publication track c) =
        c\<lparr>sdk_published := (track, r) # sdk_published c, publishing := (kind, track, rc_generation c) # publishing c\<rparr>)"
  by (simp add: publish_track_def Let_def participantRef_def lockedLocalParticipant_def split: option.split sum.split)

lemma remove1_map_snd: "al_all P (map snd xs) \<Longrightarrow> al_all P (map snd (remove1 x xs))"
  by (erule al_all_subset) (use set_remove1_subset in fastforce)

lemma remove1_all: "al_all P xs \<Longrightarrow> al_all P (remove1 x xs)"
  by (erule al_all_subset) (rule set_remove1_subset)

lemma record_track_inv:
  assumes inv: "room_inv c" and "(kind, track, gen) \<in> set (publishing c)"
  shows "room_inv (record_track kind track gen c)"
proof -
  have "on_file (generations c) (sdk_published c) track gen"
    using assms by (force simp: room_inv_def tracks_inv_def al_all_def)
  with inv have "tracks_inv (record_track kind track gen c)"
    by (cases "gen = rc_generation c") (simp_all add: record_track_def Let_def room_inv_def tracks_inv_def al_all_update remove1_map_snd split: media.split)
  moreover have "current_generation (record_track kind track gen c)"
    using inv by (simp add: record_track_def Let_def room_inv_def current_generation_def split: media.split)
  ultimately show ?thesis by (simp add: room_inv_def)
qed

lemma unpublish_take_inv:
  assumes "room_inv c"
  shows "room_inv (unpublish_take kind track c)"
proof -
  have "on_file (generations c) (sdk_published c) track g" if "lookup (video_generations c) track = Some g" for g
    using assms that al_all_lookup by (fastforce simp: room_inv_def tracks_inv_def)
  moreover have "on_file (generations c) (sdk_published c) track g" if "lookup (audio_generations c) track = Some g" for g
    using assms that al_all_lookup by (fastforce simp: room_inv_def tracks_inv_def)
  ultimately show ?thesis
    using assms
    by (simp add: unpublish_take_def room_inv_def current_generation_def tracks_inv_def al_all_delete split: option.split media.split)
qed

text \<open>
  The guard at work: while fewer than \<open>2 ^ 64\<close> generations have passed, equal generation numbers
  are the same generation, hence the same room.
\<close>

lemma of_nat_word_inj: "(of_nat i :: 64 word) = of_nat j \<Longrightarrow> i < 2 ^ 64 \<Longrightarrow> j < 2 ^ 64 \<Longrightarrow> i = j"
  by (drule arg_cong [of _ _ unat]) (simp add: unat_of_nat take_bit_nat_eq_self)

lemma generation_room:
  assumes "current_generation c" "on_file (generations c) (sdk_published c) track (rc_generation c)"
    and small: "length (generations c) \<le> 2 ^ 64"
  shows "lookup (sdk_published c) track = rc_room c"
proof -
  define n where "n = length (generations c) - 1"
  have n: "rc_generation c = of_nat n" "n < length (generations c)" "generations c ! n = rc_room c"
    using assms(1) current_room [OF assms(1)] by (simp_all add: current_generation_def n_def)
  obtain k r where k: "k < length (generations c)" "rc_generation c = of_nat k" "generations c ! k = Some r"
      "lookup (sdk_published c) track = Some r"
    using assms(2) by (auto simp: on_file_def)
  have "n = k" by (rule of_nat_word_inj) (use n k small in simp_all)
  with n k show ?thesis by simp
qed

lemma unpublish_send_inv:
  assumes inv: "room_inv c" and "(track, gen) \<in> set (unpublishing c)" and small: "length (generations c) \<le> 2 ^ 64"
  shows "room_inv (unpublish_send env has_publication track gen c)"
proof -
  have "on_file (generations c) (sdk_published c) track gen"
    using assms(1,2) by (auto simp: room_inv_def tracks_inv_def al_all_def)
  then have "lookup (sdk_published c) track = rc_room c" if "rc_generation c = gen"
    using inv that generation_room [OF _ _ small] by (auto simp: room_inv_def)
  with inv show ?thesis
    by (simp add: unpublish_send_def Let_def room_inv_def tracks_inv_def current_generation_def remove1_all
        participantRef_def lockedLocalParticipant_def split: option.split)
qed

text \<open>The operations that leave room and tracks alone.\<close>

lemma frameI:
  "set (video_generations c') \<subseteq> set (video_generations c) \<Longrightarrow> set (audio_generations c') \<subseteq> set (audio_generations c) \<Longrightarrow>
   publishing c' = publishing c \<Longrightarrow> unpublishing c' = unpublishing c \<Longrightarrow> sdk_published c' = sdk_published c \<Longrightarrow>
   sdk_unpublished c' = sdk_unpublished c \<Longrightarrow> generations c' = generations c \<Longrightarrow> rc_generation c' = rc_generation c \<Longrightarrow>
   rc_room c' = rc_room c \<Longrightarrow> tracks_kept c c' \<and> same_room c c'"
  by (simp add: tracks_kept_def same_room_def)

lemma rc_start_frame: "tracks_kept c (rc_start config c) \<and> same_room c (rc_start config c)"
  by (rule frameI; simp add: rc_start_def Let_def split: option.split)

lemma run_initialize_frame: "tracks_kept c (run_initialize ok c) \<and> same_room c (run_initialize ok c)"
  by (rule frameI; simp add: run_initialize_def Let_def split: option.split)

lemma connect_room_frame: "tracks_kept c (connect_room room c) \<and> same_room c (connect_room room c)"
  by (rule frameI; simp add: connect_room_def Let_def split: option.split)

lemma stop_request_frame: "tracks_kept c (stop_request c) \<and> same_room c (stop_request c)"
  by (rule frameI; simp add: stop_request_def Let_def split: option.split)

lemma stop_clear_frame: "tracks_kept c (snd (stop_clear c)) \<and> same_room c (snd (stop_clear c))"
  by (rule frameI; simp add: stop_clear_def Let_def split: option.split)

lemma unregisterRpc_frame: "tracks_kept c (snd (unregisterRpc env method c)) \<and> same_room c (snd (unregisterRpc env method c))"
  by (rule frameI; simp add: unregisterRpc_def Let_def split: option.split)

lemma transitionState_frame: "tracks_kept c (transitionState st c) \<and> same_room c (transitionState st c)"
  by (rule frameI; simp add: transitionState_def Let_def split: option.split)

lemma on_event_frame: "tracks_kept c (on_event e c) \<and> same_room c (on_event e c)"
  unfolding on_event_def by (rule transitionState_frame)

lemmas room_frames = rc_start_frame run_initialize_frame connect_room_frame stop_request_frame stop_clear_frame
  unregisterRpc_frame transitionState_frame on_event_frame

lemma room_inv_step:
  assumes step: "rcstep c c'" and inv: "room_inv c" and small: "length (generations c) \<le> 2 ^ 64"
  shows "room_inv c'"
  using step
proof cases
  case (Activate r env)
  obtain ok c1 where 1: "activateRoom env r c = (ok, c1)" by fastforce
  have "room_inv (c1\<lparr>rc_task := t\<rparr>)" for t
    by (rule room_inv_same [OF activateRoom_inv [OF inv 1]]) (simp_all add: tracks_kept_def same_room_def)
  with Activate 1 show ?thesis by (simp add: connect_activate_def)
next
  case Finish
  have "room_inv (detachRoom c)" by (rule detachRoom_inv [OF inv])
  then have "room_inv ((detachRoom c)\<lparr>rc_task := TaskDone\<rparr>)"
    by (rule room_inv_same) (simp_all add: tracks_kept_def same_room_def)
  moreover have "room_inv ((transitionState Connected c)\<lparr>rc_task := TaskDone\<rparr>)"
    by (rule room_inv_same [OF inv]) (simp_all add: transitionState_def tracks_kept_def same_room_def Let_def)
  ultimately show ?thesis using Finish inv by (auto simp: connect_finish_def)
next
  case Stop_detach
  have "room_inv (stop_detach c)"
    by (rule room_inv_same [OF detachRoom_inv [OF inv]]) (simp_all add: stop_detach_def tracks_kept_def same_room_def)
  with Stop_detach show ?thesis by simp
next
  case (Register env mtd h)
  let ?c0 = "c\<lparr>rpc_handlers := AList.update mtd h (rpc_handlers c)\<rparr>"
  obtain ok c1 where 1: "registerRpcLocked env mtd ?c0 = (ok, c1)" by fastforce
  have "room_inv ?c0" by (rule room_inv_same [OF inv]) (simp_all add: tracks_kept_def same_room_def)
  with registerRpcLocked_frame [OF 1] have "room_inv c1" using room_inv_same by blast
  with Register 1 show ?thesis by (simp add: registerRpc_def)
next
  case (Publish track env kind name has_source publication)
  with publish_track_cases [of env kind name has_source publication track c] published_inv [OF inv] inv
  show ?thesis by auto
next
  case (Unpublish_send track gen env has_publication)
  with unpublish_send_inv [OF inv _ small] show ?thesis by simp
next
  case (Record kind track gen)
  with record_track_inv [OF inv] show ?thesis by simp
next
  case (Unpublish_take kind track)
  with unpublish_take_inv [OF inv] show ?thesis by simp
qed (simp_all add: room_inv_same [OF inv] room_frames)

lemma generations_grow: "rcstep c c' \<Longrightarrow> length (generations c) \<le> length (generations c')"
proof (erule rcstepE)
  fix r env assume "c' = connect_activate env r c"
  moreover obtain ok c1 where 1: "register_all env (keys (rpc_handlers c))
      (c\<lparr>rc_generation := rc_generation c + 1, generations := generations c @ [Some r], rc_room := Some r\<rparr>) = (ok, c1)" by fastforce
  moreover from register_all_frame [OF 1] have "generations c1 = generations c @ [Some r]" by (simp add: same_room_def)
  ultimately show "length (generations c) \<le> length (generations c')"
    by (simp add: connect_activate_def activateRoom_def)
next
  fix env mtd h assume "c' = snd (registerRpc env mtd h c)"
  moreover obtain ok c1 where 1: "registerRpcLocked env mtd (c\<lparr>rpc_handlers := AList.update mtd h (rpc_handlers c)\<rparr>) = (ok, c1)"
    by fastforce
  ultimately show "length (generations c) \<le> length (generations c')"
    using registerRpcLocked_frame [OF 1] by (simp add: registerRpc_def same_room_def)
next
  fix track env kind name has_source publication
  assume "c' = snd (publish_track env kind name has_source publication track c)"
  with publish_track_cases [of env kind name has_source publication track c]
  show "length (generations c) \<le> length (generations c')" by auto
qed (auto simp: rc_start_def run_initialize_def connect_room_def connect_finish_def stop_request_def stop_detach_def stop_clear_def
    detachRoom_def unregisterRpc_def on_event_def transitionState_def record_track_def unpublish_take_def unpublish_send_def Let_def
    split: option.splits connect_task.splits media.splits)

lemma reachable_room_inv: "room_reachable c \<Longrightarrow> length (generations c) \<le> 2 ^ 64 \<Longrightarrow> room_inv c"
proof (induction rule: rtranclp_induct)
  case (step c c')
  then have "length (generations c) \<le> 2 ^ 64" using generations_grow le_trans by blast
  with step show ?case using room_inv_step by blast
qed (simp add: room_inv_init)

section \<open>Registered methods\<close>

definition registered :: "room_connection \<Rightarrow> nat \<Rightarrow> string \<Rightarrow> bool" where
  "registered c r m \<longleftrightarrow> lookup (rpc_handlers c) m \<noteq> None \<and> lookup (sdk_methods c) (r, m) = lookup (rpc_handlers c) m"

lemma registerRpcLocked_registers:
  assumes "registerRpcLocked env m c = (True, c')" "rc_room c = Some r" "sdk_alive env"
  shows "lookup (rpc_handlers c) m \<noteq> None \<Longrightarrow> registered c' r m" "registered c r m' \<Longrightarrow> registered c' r m'"
  using assms
  by (auto simp: registerRpcLocked_def registered_def lockedLocalParticipant_def Let_def update_conv' delete_conv'
      split: option.splits if_splits)

lemma register_all_registers:
  "register_all env methods c = (True, c') \<Longrightarrow> rc_room c = Some r \<Longrightarrow> sdk_alive env \<Longrightarrow>
   (m \<in> set methods \<and> lookup (rpc_handlers c) m \<noteq> None \<or> registered c r m) \<Longrightarrow> registered c' r m"
proof (induction methods arbitrary: c)
  case (Cons k methods)
  obtain c1 where 1: "registerRpcLocked env k c = (True, c1)" and 2: "register_all env methods c1 = (True, c')"
    using Cons.prems(1) by (auto split: prod.splits)
  have "rc_room c1 = Some r" "rpc_handlers c1 = rpc_handlers c"
    using registerRpcLocked_frame [OF 1] Cons.prems(2) by (simp_all add: same_room_def)
  with Cons.IH [OF 2 _ Cons.prems(3)] registerRpcLocked_registers [OF 1 Cons.prems(2,3)] Cons.prems(4)
  show ?case by auto
qed simp

section \<open>Properties\<close>

text \<open>
  C9: A track is unpublished only in the room it was published in: in every state the bridge and the
  SDK can reach together, in whatever order calls of publish, unpublish, connection, loss, stop and
  restart interleave, each unpublish request was sent to the room that published that track, as
  long as the 64-bit room generation has not wrapped around.
\<close>

theorem unpublish_same_room:
  "room_reachable c \<Longrightarrow> length (generations c) \<le> 2 ^ 64 \<Longrightarrow> (r, t) \<in> set (sdk_unpublished c) \<Longrightarrow>
   lookup (sdk_published c) t = Some r"
  using reachable_room_inv [of c] by (auto simp: room_inv_def tracks_inv_def al_all_def)

text \<open>A run: connect to room 7, publish track 3, record it, unpublish it.\<close>

definition room_sdk :: sdk_env where
  "room_sdk = \<lparr>sdk_alive = True, sdk_unregister = True, sdk_register = (\<lambda>m. True)\<rparr>"

definition sample_started :: room_connection where
  "sample_started = rc_start \<lparr>lk_url = ''ws://sfu'', lk_token = ''t''\<rparr> (snd (registerRpc room_sdk ''echo'' 5 room_init))"

definition sample_ready :: room_connection where
  "sample_ready = connect_room (connectRoom (Inr True) True 7) (run_initialize True sample_started)"

definition sample_connected :: room_connection where
  "sample_connected = connect_finish (connect_activate room_sdk 7 sample_ready)"

definition sample_published :: room_connection where
  "sample_published = record_track VideoMedia 3 1 (snd (publish_track room_sdk VideoMedia ''cam'' True (Inr True) 3 sample_connected))"

definition sample_unpublished :: room_connection where
  "sample_unpublished = unpublish_send room_sdk True 3 1 (unpublish_take VideoMedia 3 sample_published)"

lemmas sample_room_defs = sample_unpublished_def sample_published_def sample_connected_def sample_ready_def sample_started_def room_sdk_def room_init_def registerRpc_def
  registerRpcLocked_def lockedLocalParticipant_def rc_start_def run_initialize_def connectRoom_def connect_room_def connect_activate_def
  activateRoom_def connect_finish_def transitionState_def publish_track_def participantRef_def record_track_def unpublish_take_def
  unpublish_send_def

lemma room_step: "room_reachable c \<Longrightarrow> rcstep c c' \<Longrightarrow> room_reachable c'"
  by (rule rtranclp.rtrancl_into_rtrancl)

lemma sample_ready_reachable: "room_reachable sample_ready"
proof -
  have "room_reachable (snd (registerRpc room_sdk ''echo'' 5 room_init))"
    by (rule room_step [OF rtranclp.rtrancl_refl]) (rule rcstep.Register)
  then have "room_reachable sample_started"
    unfolding sample_started_def by (rule room_step) (rule rcstep.Start)
  then have "room_reachable (run_initialize True sample_started)"
    by (rule room_step) (rule rcstep.Run_initialize, simp add: sample_room_defs)
  then show ?thesis
    unfolding sample_ready_def by (rule room_step) (rule rcstep.Connect_room, simp add: sample_room_defs)
qed

lemma sample_activated_reachable: "room_reachable (connect_activate room_sdk 7 sample_ready)"
  by (rule room_step [OF sample_ready_reachable]) (rule rcstep.Activate, simp add: sample_room_defs)

lemma sample_unpublished_reachable: "room_reachable sample_unpublished"
proof -
  have "room_reachable sample_connected"
    unfolding sample_connected_def
    by (rule room_step [OF sample_activated_reachable]) (rule rcstep.Finish, simp add: sample_room_defs)
  then have "room_reachable (snd (publish_track room_sdk VideoMedia ''cam'' True (Inr True) 3 sample_connected))"
    by (rule room_step) (rule rcstep.Publish, simp add: sample_room_defs)
  then have "room_reachable sample_published"
    unfolding sample_published_def by (rule room_step) (rule rcstep.Record, simp add: sample_room_defs)
  then have "room_reachable (unpublish_take VideoMedia 3 sample_published)"
    by (rule room_step) (rule rcstep.Unpublish_take)
  then show ?thesis
    unfolding sample_unpublished_def by (rule room_step) (rule rcstep.Unpublish_send, simp add: sample_room_defs)
qed

theorem unpublish_same_room_witness:
  "room_reachable sample_unpublished \<and> (7, 3) \<in> set (sdk_unpublished sample_unpublished)
   \<and> lookup (sdk_published sample_unpublished) 3 = Some 7"
proof -
  have told: "(7, 3) \<in> set (sdk_unpublished sample_unpublished)" by (simp add: sample_room_defs)
  moreover have "length (generations sample_unpublished) \<le> 2 ^ 64" by (simp add: sample_room_defs)
  ultimately show ?thesis using unpublish_same_room [of sample_unpublished 7 3] sample_unpublished_reachable by simp
qed

lemma connect_outcome:
  assumes "sdk_alive env" and c': "c' = connect_finish (connect_activate env r c)"
  shows "rc_task c' = TaskDone \<and>
    (rc_state c' = Connected \<and> rc_room c' = Some r \<and> rc_generation c' = rc_generation c + 1
       \<and> (\<forall>m h. lookup (rpc_handlers c) m = Some h \<longrightarrow> lookup (sdk_methods c') (r, m) = Some h)
     \<or> rc_state c' = Disconnected \<and> rc_room c' = None)"
proof -
  let ?c0 = "c\<lparr>rc_generation := rc_generation c + 1, generations := generations c @ [Some r], rc_room := Some r\<rparr>"
  obtain ok c1 where 1: "register_all env (keys (rpc_handlers c)) ?c0 = (ok, c1)" by fastforce
  have eq: "connect_activate env r c = c1\<lparr>rc_task := (if ok then Activated else ActivationFailed)\<rparr>"
    using 1 by (simp add: connect_activate_def activateRoom_def)
  have frame: "rc_room c1 = Some r" "rc_generation c1 = rc_generation c + 1" "rpc_handlers c1 = rpc_handlers c"
    using register_all_frame [OF 1] by (simp_all add: same_room_def)
  show ?thesis
  proof (cases ok)
    case True
    have "lookup (sdk_methods c1) (r, m) = Some h" if "lookup (rpc_handlers c) m = Some h" for m h
    proof -
      have "m \<in> set (keys (rpc_handlers c))" using that by (force dest: map_of_SomeD)
      then have "registered c1 r m" using register_all_registers [of env _ ?c0 c1 r m] 1 True assms(1) that by simp
      then show ?thesis using frame that by (simp add: registered_def)
    qed
    then show ?thesis using True frame by (simp add: c' eq connect_finish_def transitionState_def Let_def)
  next
    case False
    then show ?thesis by (simp add: c' eq connect_finish_def detachRoom_def Let_def)
  qed
qed

lemma connected_serves:
  assumes "sdk_alive env" "c' = connect_finish (connect_activate env r c)" "rc_state c' = Connected"
  shows "\<forall>m h. lookup (rpc_handlers c) m = Some h \<longrightarrow> lookup (sdk_methods c') (r, m) = Some h"
  using connect_outcome [OF assms(1,2)] assms(3) by auto



text \<open>
  A stopped connection is silent: after \<open>stop\<close> there is no room and no task, the SDK is shut
  down exactly when it had been initialized, and whatever events the SDK still reports, nobody is
  notified and no packet is delivered.
\<close>

theorem stop_is_silent:
  assumes "stop_clear (stop_detach c) = (shutdown, c')"
  shows "rc_state c' = Disconnected \<and> rc_room c' = None \<and> rc_task c' = NoTask \<and> video_generations c' = []
     \<and> shutdown = sdk_initialized c \<and> \<not> sdk_initialized c'
     \<and> notified (fold on_event events c') = notified c \<and> onUserPacketReceived packet (fold on_event events c') = None
     \<and> onParticipantDisconnected who (fold on_event events c') = None"
proof -
  have late: "\<not> rc_callbacks d \<Longrightarrow> notified (fold on_event events d) = notified d \<and> \<not> rc_callbacks (fold on_event events d)" for d
    by (induction events arbitrary: d) (simp_all add: on_event_def transitionState_def Let_def)
  have "\<not> rc_callbacks c'" "notified c' = notified c"
    using assms by (auto simp: stop_clear_def stop_detach_def detachRoom_def Let_def)
  moreover have "rc_state c' = Disconnected \<and> rc_room c' = None \<and> rc_task c' = NoTask \<and> video_generations c' = []"
    "shutdown = sdk_initialized c \<and> \<not> sdk_initialized c'"
    using assms by (auto simp: stop_clear_def stop_detach_def detachRoom_def Let_def split: if_splits)
  ultimately show ?thesis
    using late [of c'] by (simp add: onUserPacketReceived_def onParticipantDisconnected_def split: option.split)
qed

theorem stop_is_silent_witness:
  "\<exists>shutdown c'. stop_clear (stop_detach sample_connected) = (shutdown, c') \<and> rc_room c' = None \<and> shutdown
     \<and> notified (fold on_event [ReconnectedEvent, DisconnectedEvent] c') = [Connected]"
proof -
  obtain shutdown c' where 1: "stop_clear (stop_detach sample_connected) = (shutdown, c')" by fastforce
  have "sdk_initialized sample_connected" "notified sample_connected = [Connected]" by (simp_all add: sample_room_defs)
  then show ?thesis
    using stop_is_silent [OF 1, of "[ReconnectedEvent, DisconnectedEvent]" "()" None] 1 by auto
qed


text \<open>
  Publishing and unpublishing a track of either kind cancel out: in a connected room, with a fresh
  track and a working SDK, publishing succeeds and records the track; unpublishing it afterwards
  tells that room once, and leaves no trace of the track; a second unpublish does nothing.
\<close>

theorem publish_unpublish_roundtrip:
  assumes "rc_room c = Some r" "rc_state c \<noteq> Disconnected" "sdk_alive env" "name \<noteq> []"
    and "publishVideoTrack env name True (Inr True) v c = (rv, c1)" "publishAudioTrack env name True (Inr True) a c1 = (ra, c2)"
    and "v \<notin> set (keys (video_generations c))" "a \<notin> set (keys (audio_generations c))" "publishing c = []" "unpublishing c = []"
    and "c3 = unpublishAudioTrackIfCurrent env True a (unpublishVideoTrackIfCurrent env True v c2)"
  shows "rv = Inr () \<and> ra = Inr () \<and> lookup (video_generations c2) v = Some (rc_generation c)
    \<and> lookup (audio_generations c2) a = Some (rc_generation c)
    \<and> sdk_unpublished c3 = [(r, a), (r, v)] @ sdk_unpublished c
    \<and> lookup (video_generations c3) = lookup (video_generations c) \<and> lookup (audio_generations c3) = lookup (audio_generations c)
    \<and> publishing c3 = [] \<and> unpublishing c3 = []
    \<and> unpublishVideoTrackIfCurrent env True v c3 = c3 \<and> unpublishAudioTrackIfCurrent env True a c3 = c3"
proof -
  let ?g = "rc_generation c"
  have nv: "lookup (video_generations c) v = None" and na: "lookup (audio_generations c) a = None"
    using assms(7,8) by (simp_all add: map_of_eq_None_iff)
  have v: "rv = Inr () \<and> c1 = c\<lparr>sdk_published := (v, r) # sdk_published c, video_generations := AList.update v ?g (video_generations c)\<rparr>"
    using assms(1-5,9)
    by (auto simp: publishVideoTrack_def publish_track_def participantRef_def lockedLocalParticipant_def record_track_def Let_def)
  have a: "ra = Inr () \<and> c2 = c1\<lparr>sdk_published := (a, r) # sdk_published c1, audio_generations := AList.update a ?g (audio_generations c)\<rparr>"
    using assms(1-4,6,9) v
    by (auto simp: publishAudioTrack_def publish_track_def participantRef_def lockedLocalParticipant_def record_track_def Let_def)
  have c2: "rc_room c2 = Some r" "rc_state c2 \<noteq> Disconnected" "rc_generation c2 = ?g" "unpublishing c2 = []" "publishing c2 = []"
    "sdk_unpublished c2 = sdk_unpublished c"
    "video_generations c2 = AList.update v ?g (video_generations c)" "audio_generations c2 = AList.update a ?g (audio_generations c)"
    using v a assms(1,2,9,10) by simp_all
  have unv: "unpublishVideoTrackIfCurrent env True v c2 =
      c2\<lparr>video_generations := AList.delete v (video_generations c2), unpublishing := [], sdk_unpublished := (r, v) # sdk_unpublished c2\<rparr>"
    using c2 assms(3)
    by (simp add: unpublishVideoTrackIfCurrent_def unpublish_take_def unpublish_send_def participantRef_def lockedLocalParticipant_def
        update_conv' Let_def)
  have c3: "c3 = c2\<lparr>video_generations := AList.delete v (video_generations c2), audio_generations := AList.delete a (audio_generations c2),
      unpublishing := [], sdk_unpublished := [(r, a), (r, v)] @ sdk_unpublished c2\<rparr>"
    using c2 assms(3,11) unv
    by (simp add: unpublishAudioTrackIfCurrent_def unpublish_take_def unpublish_send_def participantRef_def lockedLocalParticipant_def
        update_conv' Let_def)
  have "lookup (video_generations c3) = lookup (video_generations c)" "lookup (audio_generations c3) = lookup (audio_generations c)"
    using c3 c2 nv na by (auto simp: delete_conv' update_conv' fun_eq_iff)
  then show ?thesis
    using v a c2 c3 nv na
    by (simp add: unpublishVideoTrackIfCurrent_def unpublishAudioTrackIfCurrent_def update_conv')
qed

theorem publish_unpublish_roundtrip_witness:
  "\<exists>c2. sdk_unpublished (unpublishAudioTrackIfCurrent room_sdk True 4 (unpublishVideoTrackIfCurrent room_sdk True 3 c2)) = [(7, 4), (7, 3)]
     \<and> c2 = snd (publishAudioTrack room_sdk ''m'' True (Inr True) 4 (snd (publishVideoTrack room_sdk ''m'' True (Inr True) 3 sample_connected)))"
proof -
  obtain rv c1 where 1: "publishVideoTrack room_sdk ''m'' True (Inr True) 3 sample_connected = (rv, c1)" by fastforce
  obtain ra c2 where 2: "publishAudioTrack room_sdk ''m'' True (Inr True) 4 c1 = (ra, c2)" by fastforce
  have pre: "rc_room sample_connected = Some 7" "rc_state sample_connected \<noteq> Disconnected" "sdk_alive room_sdk" "''m'' \<noteq> []"
    "3 \<notin> set (keys (video_generations sample_connected))" "4 \<notin> set (keys (audio_generations sample_connected))"
    "publishing sample_connected = []" "unpublishing sample_connected = []" "sdk_unpublished sample_connected = []"
    by (simp_all add: sample_room_defs)
  from publish_unpublish_roundtrip [OF pre(1-4) 1 2 pre(5-8) refl] pre(9) 1 2 show ?thesis by auto
qed

text \<open>
  Unpublishing a media track takes it off the map whatever the SDK does, so that asking again tells
  the SDK nothing.
\<close>

theorem unpublish_forgets_track:
  "lookup (video_generations (unpublishVideoTrack env p told (Some t) c)) t = None
   \<and> lookup (audio_generations (unpublishAudioTrack env p told (Some t) c)) t = None
   \<and> sdk_unpublished (unpublishVideoTrack env p' told' (Some t) (unpublishVideoTrack env p told (Some t) c))
       = sdk_unpublished (unpublishVideoTrack env p told (Some t) c)
   \<and> sdk_unpublished (unpublishAudioTrack env p' told' (Some t) (unpublishAudioTrack env p told (Some t) c))
       = sdk_unpublished (unpublishAudioTrack env p told (Some t) c)"
proof -
  have v: "lookup (video_generations (unpublishVideoTrack env p told (Some t) c)) t = None"
    by (auto simp: unpublishVideoTrack_def unpublishVideoTrackIfCurrent_def unpublish_send_def unpublish_take_def Let_def delete_conv'
        split: option.split sum.split)
  have a: "lookup (audio_generations (unpublishAudioTrack env p told (Some t) c)) t = None"
    by (auto simp: unpublishAudioTrack_def unpublishAudioTrackIfCurrent_def unpublish_send_def unpublish_take_def Let_def delete_conv'
        split: option.split sum.split)
  have "sdk_unpublished (unpublishVideoTrack env p' told' (Some t) x) = sdk_unpublished x" if "lookup (video_generations x) t = None" for x
    using that by (simp add: unpublishVideoTrack_def unpublishVideoTrackIfCurrent_def split: sum.split)
  moreover have "sdk_unpublished (unpublishAudioTrack env p' told' (Some t) x) = sdk_unpublished x" if "lookup (audio_generations x) t = None" for x
    using that by (simp add: unpublishAudioTrack_def unpublishAudioTrackIfCurrent_def split: sum.split)
  ultimately show ?thesis using v a by blast
qed

end
