(* ===== verification/Rpc_Router.thy ===== *)
theory Rpc_Router
  imports Service_Caller Lease_Manager Definition_Lookup Room_Connection
begin

text \<open>
  The RPC router (src/src/rpc_router.cpp): the six methods served to the room, over the service
  caller, the lease manager, the definition lookup and the room connection. A handler that
  submits work to the executor blocks until it is done: \<open>queue_open\<close> says whether the queue still
  takes the task (otherwise its future carries the queue's error). A service call is answered in
  two parts, the submission and, once the caller has settled its promise, the reply.
\<close>

section \<open>Invocations and errors\<close>

record invocation =
  request_id :: string
  caller_identity :: string
  inv_payload :: string

definition kInvalidRequestRpcCode :: nat where "kInvalidRequestRpcCode = 2400"
definition kUnauthorizedRpcCode :: nat where "kUnauthorizedRpcCode = 2401"
definition kForbiddenRpcCode :: nat where "kForbiddenRpcCode = 2403"
definition kInternalRpcCode :: nat where "kInternalRpcCode = 2500"

lemmas rpc_codes = kInvalidRequestRpcCode_def kUnauthorizedRpcCode_def kForbiddenRpcCode_def kInternalRpcCode_def

definition throwRpcError :: "exn \<Rightarrow> exn" where
  "throwRpcError e =
     (let invalid_request = (is_invalid_argument e \<or> is_out_of_range e);
          code = (if invalid_request then kInvalidRequestRpcCode else kInternalRpcCode)
      in Rpc_error code (what e))"

text \<open>The log record \<open>throwRpcError\<close> writes, field by field, and whether it is an error.\<close>

definition rpc_error_log :: "string \<Rightarrow> invocation \<Rightarrow> exn \<Rightarrow> string option \<Rightarrow> string \<times> bool" where
  "rpc_error_log method invocation e service =
     (let internal = \<not> (is_invalid_argument e \<or> is_out_of_range e);
          e0 = log_event (if internal then ''rpc_request_failed'' else ''rpc_request_rejected'');
          e1 = log_field ''method'' method e0;
          e2 = fieldOr ''request_id'' (request_id invocation) ''<unknown>'' e1;
          e3 = fieldOr ''requester_identity'' (caller_identity invocation) ''<unknown>'' e2;
          e4 = (if internal then e3 else log_field ''reason'' ''invalid_request'' e3);
          e5 = (case e of Validation_error f m \<Rightarrow> log_field ''request_field'' f e4 | _ \<Rightarrow> e4);
          e6 = (case service of None \<Rightarrow> e5 | Some s \<Rightarrow> fieldOr ''service'' s ''<unknown>'' e5)
      in (log_field ''error'' (what e) e6, internal))"

definition withCallerIdentity :: "invocation \<Rightarrow> ('s \<Rightarrow> 'a res \<times> 's) \<Rightarrow> 's \<Rightarrow> 'a res \<times> 's" where
  "withCallerIdentity invocation handler s =
     (if caller_identity invocation = [] then
        (Inl (Rpc_error kUnauthorizedRpcCode ''caller_identity is required for this RPC''), s)
      else (case handler s of
              (Inr x, s') \<Rightarrow> (Inr x, s')
            | (Inl (Rpc_error code m), s') \<Rightarrow> (Inl (Rpc_error code m), s')
            | (Inl e, s') \<Rightarrow> (Inl (throwRpcError e), s')))"

text \<open>\<open>queue_.submit(task).get()\<close>.\<close>

definition run_queued :: "bool \<Rightarrow> ('s \<Rightarrow> 'a res \<times> 's) \<Rightarrow> 's \<Rightarrow> 'a res \<times> 's" where
  "run_queued queue_open task s =
     (if queue_open then task s else (Inl (Runtime_error ''ROS executor queue is shut down.''), s))"

record router =
  rt_parse :: "string json_parser"
  rt_dump :: "json \<Rightarrow> string"
  rt_expand :: expander
  rt_policy :: access_policy
  rt_encode :: evp_encode_block
  rt_decode :: evp_decode_block

section \<open>Listings\<close>

text \<open>\<open>std::string::find\<close> finds an occurrence.\<close>

fun has_text :: "string \<Rightarrow> string \<Rightarrow> bool" where
  "has_text q [] = (q = [])"
| "has_text q (c # s) = (has_prefix q (c # s) \<or> has_text q s)"

fun filter_resources_loop ::
  "expander \<Rightarrow> access_policy \<Rightarrow> access_operation \<Rightarrow> resource_list_request \<Rightarrow> resource_types_by_name \<Rightarrow> resource_types_by_name
   \<Rightarrow> resource_types_by_name" where
  "filter_resources_loop expand pol op request [] filtered = filtered"
| "filter_resources_loop expand pol op request ((name, types) # rest) filtered =
     (if length types \<noteq> 1 then filter_resources_loop expand pol op request rest filtered
      else if \<not> allows expand pol op name then filter_resources_loop expand pol op request rest filtered
      else if (case query request of None \<Rightarrow> False | Some q \<Rightarrow> \<not> has_text q name \<and> \<not> has_text q (hd types)) then
        filter_resources_loop expand pol op request rest filtered
      else (let filtered' = filtered @ [(name, [hd types])] in
            if (case limit request of None \<Rightarrow> False | Some n \<Rightarrow> int (length filtered') \<ge> n) then filtered'
            else filter_resources_loop expand pol op request rest filtered'))"

definition filterResources ::
  "expander \<Rightarrow> resource_types_by_name \<Rightarrow> access_policy \<Rightarrow> access_operation \<Rightarrow> resource_list_request \<Rightarrow> resource_types_by_name" where
  "filterResources expand resources pol op request = filter_resources_loop expand pol op request resources []"

definition listServices :: "router \<Rightarrow> bool \<Rightarrow> resource_types_by_name \<Rightarrow> invocation \<Rightarrow> string res" where
  "listServices rt queue_open services invocation =
     fst (withCallerIdentity invocation (\<lambda>s.
       (res_bind (resources_parse (rt_parse rt) (inv_payload invocation)) (\<lambda>request.
        res_bind (fst (run_queued queue_open
            (\<lambda>s. (Inr (filterResources (rt_expand rt) services (rt_policy rt) CallService request), s)) s)) (\<lambda>found.
        Inr (rt_dump rt (serializeServices found)))), s)) ())"

definition listTopics :: "router \<Rightarrow> bool \<Rightarrow> resource_types_by_name \<Rightarrow> invocation \<Rightarrow> string res" where
  "listTopics rt queue_open topics invocation =
     fst (withCallerIdentity invocation (\<lambda>s.
       (res_bind (resources_parse (rt_parse rt) (inv_payload invocation)) (\<lambda>request.
        res_bind (fst (run_queued queue_open
            (\<lambda>s. (Inr (filterResources (rt_expand rt) topics (rt_policy rt) Subscribe request), s)) s)) (\<lambda>found.
        Inr (rt_dump rt (serializeTopics found)))), s)) ())"

section \<open>Service calls\<close>

text \<open>
  Up to the two futures: \<open>p\<close> numbers the promise of the call, \<open>closed_at_entry\<close> is what the
  caller's \<open>isClosed\<close> answers when the task runs.
\<close>

definition callService ::
  "router \<Rightarrow> bool \<Rightarrow> service_env \<Rightarrow> bool \<Rightarrow> nat \<Rightarrow> invocation \<Rightarrow> service_caller \<Rightarrow> unit res \<times> service_caller" where
  "callService rt queue_open env closed_at_entry p invocation =
     withCallerIdentity invocation (\<lambda>s.
       case services_parse (rt_parse rt) (rt_expand rt) (rt_decode rt) (inv_payload invocation) of
         Inl e \<Rightarrow> (Inl e, s)
       | Inr request \<Rightarrow>
           if \<not> allows (rt_expand rt) (rt_policy rt) CallService (sreq_name request) then
             (Inl (Rpc_error kForbiddenRpcCode (''ROS service '' @ quoted (sreq_name request) @ '' not permitted.'')), s)
           else (case run_queued queue_open (call env closed_at_entry (caller_identity invocation) p request) s of
                   (Inr u, s') \<Rightarrow> (Inr u, s')
                 | (Inl e, s') \<Rightarrow> (Inl (throwRpcError e), s')))"

text \<open>The reply, once the promise is settled.\<close>

definition callService_reply :: "router \<Rightarrow> call_outcome \<Rightarrow> string res" where
  "callService_reply rt outcome =
     (case outcome of
        Responded name itype payload \<Rightarrow>
          Inr (rt_dump rt (services_serialize (rt_encode rt) \<lparr>sres_name = name, sres_type = itype, sres_payload = payload\<rparr>))
      | CallFailed e \<Rightarrow> Inl (throwRpcError e))"

section \<open>Interface definitions\<close>

text \<open>The inner loop over one lookup's result: the types in \<open>seen\<close> are skipped.\<close>

fun merge_definitions ::
  "interface_definition list \<Rightarrow> string list \<Rightarrow> interface_definition list \<Rightarrow> string list \<times> interface_definition list" where
  "merge_definitions [] seen definitions = (seen, definitions)"
| "merge_definitions (d # ds) seen definitions =
     (if def_type d \<in> set seen then merge_definitions ds seen definitions
      else merge_definitions ds (def_type d # seen) (definitions @ [d]))"

fun show_types ::
  "nat \<Rightarrow> definition_world \<Rightarrow> string list \<Rightarrow> string list \<Rightarrow> interface_definition list \<Rightarrow> failures
   \<Rightarrow> (interface_definition list res \<times> failures) option" where
  "show_types n w [] seen definitions fs = Some (Inr definitions, fs)"
| "show_types n w (t # ts) seen definitions fs =
     (case lookupDefinitions n w t fs of
        None \<Rightarrow> None
      | Some (Inl e, fs') \<Rightarrow> Some (Inl e, fs')
      | Some (Inr ds, fs') \<Rightarrow>
          (case merge_definitions ds seen definitions of
             (seen', definitions') \<Rightarrow> show_types n w ts seen' definitions' fs'))"

text \<open>\<open>None\<close>: the recursion depth \<open>n\<close> did not suffice.\<close>

definition showInterfaces :: "nat \<Rightarrow> router \<Rightarrow> definition_world \<Rightarrow> invocation \<Rightarrow> failures \<Rightarrow> (string res \<times> failures) option" where
  "showInterfaces n rt w invocation fs =
     (let run = (case interfaces_parse (rt_parse rt) (inv_payload invocation) of
                   Inl e \<Rightarrow> Some (Inl e, fs)
                 | Inr types \<Rightarrow> show_types n w types [] [] fs)
      in if caller_identity invocation = [] then Some (withCallerIdentity invocation (\<lambda>s. (Inr [], s)) fs)
         else case run of
           None \<Rightarrow> None
         | Some (r, fs') \<Rightarrow>
             Some (withCallerIdentity invocation
               (\<lambda>s. (res_bind r (\<lambda>ds. Inr (rt_dump rt (interfaces_serialize ds))), fs')) fs))"

section \<open>Echo once\<close>

definition requestEchoOnce :: "router \<Rightarrow> bool \<Rightarrow> lm_env \<Rightarrow> invocation \<Rightarrow> lease_manager \<Rightarrow> string res \<times> lease_manager" where
  "requestEchoOnce rt queue_open env invocation =
     withCallerIdentity invocation (\<lambda>m.
       case echo_once_parse (rt_parse rt) (rt_expand rt) (inv_payload invocation) of
         Inl e \<Rightarrow> (Inl e, m)
       | Inr request \<Rightarrow>
           if \<not> allows (rt_expand rt) (rt_policy rt) Subscribe (echo_name request) then
             (Inl (Rpc_error kForbiddenRpcCode (''ROS topic '' @ quoted (echo_name request) @ '' not permitted.'')), m)
           else (case run_queued queue_open
                        (dispatchEchoOnce env (echo_kind request) (echo_name request) (caller_identity invocation)) m of
                   (Inl e, m') \<Rightarrow> (Inl e, m')
                 | (Inr result, m') \<Rightarrow> (Inr (rt_dump rt (echo_once_serialize result)), m')))"

definition kProtocolVersion :: int where "kProtocolVersion = 2"

definition capability :: "router \<Rightarrow> invocation \<Rightarrow> string res" where
  "capability rt invocation = Inr (rt_dump rt (JObject [(''features'', JObject []), (''v'', JInt (of_int kProtocolVersion))]))"

section \<open>Registration\<close>

definition kMethods :: "string list" where
  "kMethods = [''ros2.service.call'', ''ros2.interface.show'', ''ros2.service.list'', ''ros2.topic.list'',
     ''ros2.topic.echo.once'', ''lkros.capability'']"

text \<open>The handler numbered \<open>i\<close> is the lambda registered for the \<open>i\<close>th method.\<close>

fun register_methods :: "sdk_env \<Rightarrow> (string \<times> nat) list \<Rightarrow> room_connection \<Rightarrow> bool \<times> room_connection" where
  "register_methods env [] c = (True, c)"
| "register_methods env ((m, h) # rest) c =
     (let (ok, c1) = registerRpc env m h c; (oks, c2) = register_methods env rest c1 in (ok \<and> oks, c2))"

definition registerRpcs :: "sdk_env \<Rightarrow> bool \<Rightarrow> room_connection \<Rightarrow> bool \<times> bool \<times> room_connection" where
  "registerRpcs env registered_connection c =
     (let (ok, c') = register_methods env (zip kMethods [0..<6]) c in (ok, True, c'))"

definition unregisterRpcs :: "sdk_env \<Rightarrow> bool \<Rightarrow> room_connection \<Rightarrow> bool \<times> room_connection" where
  "unregisterRpcs env registered_connection c =
     (if \<not> registered_connection then (registered_connection, c)
      else (False, fold (\<lambda>m c. snd (unregisterRpc env m c)) kMethods c))"

section \<open>Lemmas\<close>

text \<open>What a listing is: the visible resources in order, cut to the limit.\<close>

definition visible :: "expander \<Rightarrow> access_policy \<Rightarrow> access_operation \<Rightarrow> resource_list_request \<Rightarrow> string \<times> string list \<Rightarrow> bool" where
  "visible expand pol op request r \<longleftrightarrow>
     (case r of (name, types) \<Rightarrow> (\<exists>type. types = [type] \<and> allows expand pol op name
        \<and> (\<forall>q. query request = Some q \<longrightarrow> (\<exists>a b. name = a @ q @ b) \<or> (\<exists>a b. type = a @ q @ b))))"

definition cut_to :: "int option \<Rightarrow> 'a list \<Rightarrow> 'a list" where
  "cut_to n xs = (case n of None \<Rightarrow> xs | Some k \<Rightarrow> take (nat k) xs)"

lemma has_text_iff: "has_text q s \<longleftrightarrow> (\<exists>before after. s = before @ q @ after)"
proof (induction s)
  case (Cons c s)
  have "(\<exists>before after. c # s = before @ q @ after) \<longleftrightarrow>
      (\<exists>after. c # s = q @ after) \<or> (\<exists>before after. s = before @ q @ after)"
  proof (intro iffI; elim disjE exE)
    fix before after assume "c # s = before @ q @ after"
    then show "(\<exists>after. c # s = q @ after) \<or> (\<exists>before after. s = before @ q @ after)" by (cases before) auto
  qed (metis append_Nil, metis append_Cons)
  with Cons show ?case by (simp add: has_prefix_iff)
qed simp

lemma filter_resources_loop_step:
  "filter_resources_loop expand pol op request (r # rest) acc =
     (if \<not> visible expand pol op request r then filter_resources_loop expand pol op request rest acc
      else if (case limit request of None \<Rightarrow> False | Some n \<Rightarrow> int (length (acc @ [r])) \<ge> n) then acc @ [r]
      else filter_resources_loop expand pol op request rest (acc @ [r]))"
proof (cases r)
  case (Pair name types)
  show ?thesis
  proof (cases "length types = 1")
    case True
    then obtain type where "types = [type]" by (auto simp: length_Suc_conv)
    with Pair show ?thesis by (auto simp: visible_def has_text_iff Let_def split: option.split)
  next
    case False
    with Pair show ?thesis by (auto simp: visible_def)
  qed
qed

lemma filter_resources_loop_eq:
  "\<forall>n. limit request = Some n \<longrightarrow> int (length acc) < n \<Longrightarrow>
   filter_resources_loop expand pol op request rs acc = cut_to (limit request) (acc @ filter (visible expand pol op request) rs)"
proof (induction rs arbitrary: acc)
  case Nil
  then show ?case by (auto simp: cut_to_def split: option.split)
next
  case (Cons r rs)
  show ?case
  proof (cases "visible expand pol op request r \<and> (\<exists>n. limit request = Some n \<and> int (length acc) + 1 \<ge> n)")
    case True
    then obtain n where n: "limit request = Some n" "int (length acc) + 1 = n" using Cons.prems by force
    then have "nat n = Suc (length acc)" by simp
    with True n show ?thesis by (simp add: filter_resources_loop_step cut_to_def del: filter_resources_loop.simps)
  next
    case False
    have "filter_resources_loop expand pol op request (r # rs) acc =
        filter_resources_loop expand pol op request rs (if visible expand pol op request r then acc @ [r] else acc)"
      using False by (auto simp: filter_resources_loop_step simp del: filter_resources_loop.simps split: option.splits)
    also have "\<dots> = cut_to (limit request) (acc @ filter (visible expand pol op request) (r # rs))"
    proof (cases "visible expand pol op request r")
      case True
      with False have "\<forall>n. limit request = Some n \<longrightarrow> int (length (acc @ [r])) < n" by force
      from Cons.IH [OF this] True show ?thesis by simp
    next
      case False
      with Cons.IH [OF Cons.prems] show ?thesis by simp
    qed
    finally show ?thesis .
  qed
qed

lemma filterResources_eq:
  "\<forall>n. limit request = Some n \<longrightarrow> 0 < n \<Longrightarrow>
   filterResources expand resources pol op request = cut_to (limit request) (filter (visible expand pol op request) resources)"
  unfolding filterResources_def by (subst filter_resources_loop_eq) auto

section \<open>Properties\<close>

text \<open>
  C16: A listing is exact: for an identified caller and an open queue, a listing request that parses is
  answered with the services the caller may call, respectively the topics it may subscribe to,
  that have one interface type and contain the query in name or type, in the order of the graph,
  cut to the requested limit; denied resources do not consume the limit.
\<close>

theorem listings_exact:
  assumes "caller_identity ivk \<noteq> []" "resources_parse (rt_parse rt) (inv_payload ivk) = Inr request"
  shows "listServices rt True services ivk =
      Inr (rt_dump rt (serializeServices (cut_to (limit request) (filter (visible (rt_expand rt) (rt_policy rt) CallService request) services))))
    \<and> listTopics rt True topics ivk =
      Inr (rt_dump rt (serializeTopics (cut_to (limit request) (filter (visible (rt_expand rt) (rt_policy rt) Subscribe request) topics))))"
  using assms filterResources_eq [of request] list_request_bounds [OF assms(2)]
  by (simp add: listServices_def listTopics_def withCallerIdentity_def run_queued_def)

text \<open>
  C3: A service call reaches the service caller only for an identified caller, a well-formed request
  and a permitted service, under the caller's own identity; in every other case the caller's state
  is unchanged and the error code says why: 2401 anonymous, 2403 forbidden, otherwise 2400 exactly
  for an invalid argument and 2500 for the rest.
\<close>

theorem call_service_guarded:
  assumes "callService rt open_q env entry p ivk s = (r, s')"
  shows "(\<exists>request r'. caller_identity ivk \<noteq> [] \<and> open_q
        \<and> services_parse (rt_parse rt) (rt_expand rt) (rt_decode rt) (inv_payload ivk) = Inr request
        \<and> allows (rt_expand rt) (rt_policy rt) CallService (sreq_name request)
        \<and> call env entry (caller_identity ivk) p request s = (r', s')
        \<and> r = (case r' of Inr u \<Rightarrow> Inr u | Inl e \<Rightarrow> Inl (throwRpcError e)))
    \<or> s' = s \<and> (\<exists>msg. r = Inl (Rpc_error
          (if caller_identity ivk = [] then 2401
           else case services_parse (rt_parse rt) (rt_expand rt) (rt_decode rt) (inv_payload ivk) of
             Inl e \<Rightarrow> (case e of Rpc_error c m \<Rightarrow> c | _ \<Rightarrow> if is_invalid_argument e \<or> is_out_of_range e then 2400 else 2500)
           | Inr request \<Rightarrow> if allows (rt_expand rt) (rt_policy rt) CallService (sreq_name request) then 2500 else 2403) msg))"
proof (cases "caller_identity ivk = []")
  case True
  with assms show ?thesis by (auto simp: callService_def withCallerIdentity_def rpc_codes)
next
  case False
  show ?thesis
  proof (cases "services_parse (rt_parse rt) (rt_expand rt) (rt_decode rt) (inv_payload ivk)")
    case (Inl e)
    with False assms show ?thesis
      by (cases e) (auto simp: callService_def withCallerIdentity_def throwRpcError_def rpc_codes)
  next
    case (Inr request)
    obtain r' t where call: "call env entry (caller_identity ivk) p request s = (r', t)" by fastforce
    show ?thesis
      using False assms Inr call
      by (cases r'; cases open_q; cases "allows (rt_expand rt) (rt_policy rt) CallService (sreq_name request)")
        (auto simp: callService_def withCallerIdentity_def run_queued_def throwRpcError_def rpc_codes)
  qed
qed

text \<open>
  C5: Echo-once sends to nobody but the caller, and only what the caller may subscribe to: a request
  leaves subscriptions and leases as they were, and when it sends a byte stream, it is one stream,
  to the requesting identity, with the latest message cached for the requested topic, which the
  policy lets that request subscribe to.
\<close>

theorem echo_once_guarded:
  assumes "requestEchoOnce rt open_q env ivk m = (r, m')"
  shows "m' = m \<or> (\<exists>request n s p topic cdr.
      m' = m\<lparr>streams_sent := streams_sent m @ [(caller_identity ivk, topic, cdr)]\<rparr>
      \<and> r = Inr (rt_dump rt (JObject [(''result'', JString ''sent'')]))
      \<and> caller_identity ivk \<noteq> []
      \<and> echo_once_parse (rt_parse rt) (rt_expand rt) (inv_payload ivk) = Inr request
      \<and> allows (rt_expand rt) (rt_policy rt) Subscribe (echo_name request)
      \<and> resolveName (le_resolve env) (echo_kind request) (echo_name request) = Inr n
      \<and> lookup (subscriptions m) (makeKey (echo_kind request) n) = Some s
      \<and> sub_runtime s = DataRuntime p \<and> cachedMessage p = Some (topic, cdr))"
proof (cases "caller_identity ivk = []")
  case True
  with assms show ?thesis by (auto simp: requestEchoOnce_def withCallerIdentity_def)
next
  case False
  show ?thesis
  proof (cases "echo_once_parse (rt_parse rt) (rt_expand rt) (inv_payload ivk)")
    case (Inl e)
    with False assms show ?thesis by (cases e) (auto simp: requestEchoOnce_def withCallerIdentity_def)
  next
    case (Inr request)
    let ?run = "dispatchEchoOnce env (echo_kind request) (echo_name request) (caller_identity ivk) m"
    let ?ok = "open_q \<and> allows (rt_expand rt) (rt_policy rt) Subscribe (echo_name request)"
    have other: "m' = m" if "\<not> ?ok"
      using that False assms Inr by (auto simp: requestEchoOnce_def withCallerIdentity_def run_queued_def split: if_splits)
    have sent: "snd ?run = m \<or> (\<exists>n s p topic cdr. snd ?run = m\<lparr>streams_sent := streams_sent m @ [(caller_identity ivk, topic, cdr)]\<rparr>
        \<and> fst ?run = Inr Sent \<and> resolveName (le_resolve env) (echo_kind request) (echo_name request) = Inr n
        \<and> lookup (subscriptions m) (makeKey (echo_kind request) n) = Some s
        \<and> sub_runtime s = DataRuntime p \<and> cachedMessage p = Some (topic, cdr))"
      by (auto simp: dispatchEchoOnce_def split: sum.split option.split runtime.split)
    obtain x m1 where run: "?run = (x, m1)" by fastforce
    have m1: "m' = m1" "x = Inr Sent \<Longrightarrow> r = Inr (rt_dump rt (JObject [(''result'', JString ''sent'')]))" if "?ok"
      using that False assms Inr run
      by (auto simp: requestEchoOnce_def withCallerIdentity_def run_queued_def split: sum.splits exn.splits)
    show ?thesis using other sent run m1 False Inr by fastforce
  qed
qed

section \<open>Definitions of several types\<close>

lemma merge_definitions_spec:
  assumes "merge_definitions ds seen definitions = (seen', definitions')"
    and "set seen = set (map def_type definitions)" "distinct (map def_type definitions)"
  shows "set seen' = set (map def_type definitions')" "distinct (map def_type definitions')"
    and "set (map def_type definitions') = set (map def_type definitions) \<union> set (map def_type ds)"
    and "set definitions' \<subseteq> set definitions \<union> set ds"
  using assms
  by (induction ds seen definitions rule: merge_definitions.induct) (auto split: if_splits)

definition all_loadable :: "definition_world \<Rightarrow> string \<Rightarrow> bool" where
  "all_loadable w t \<longleftrightarrow> (\<forall>u. reaches w t u \<longrightarrow> loadable w u)"

text \<open>The definitions collected for the types \<open>ts\<close>.\<close>

definition defines_types :: "definition_world \<Rightarrow> string set \<Rightarrow> interface_definition list \<Rightarrow> bool" where
  "defines_types w ts ds \<longleftrightarrow> distinct (map def_type ds) \<and> set (map def_type ds) = {u. \<exists>t \<in> ts. reaches w t u}
     \<and> (\<forall>d \<in> set ds. read_definition w (def_type d) = Inr (def_body d))"

lemma show_types_spec:
  assumes "finite {path. read_file w path \<noteq> None}" "card {t. loadable w t} < n"
    and "cache_true w fs" "defines_types w done_ts ds" "set seen = set (map def_type ds)"
  shows "\<exists>r fs'. show_types n w ts seen ds fs = Some (r, fs') \<and> cache_true w fs'
    \<and> (case r of Inr ds' \<Rightarrow> (\<forall>t \<in> set ts. all_loadable w t) \<and> defines_types w (done_ts \<union> set ts) ds'
       | Inl e \<Rightarrow> \<exists>t \<in> set ts. \<exists>u. reaches w t u \<and> read_definition w u = Inl e)"
  using assms(3-5)
proof (induction ts arbitrary: seen ds fs done_ts)
  case Nil
  then show ?case by simp
next
  case (Cons t ts)
  obtain r1 fs1 where 1: "lookupDefinitions n w t fs = Some (r1, fs1)" "cache_true w fs1"
    using lookup_returns [OF assms(1) Cons.prems(1) assms(2)] by blast
  note closure = lookup_is_closure [OF Cons.prems(1) 1(1)]
  show ?case
  proof (cases r1)
    case (Inl e)
    with 1 closure show ?thesis by auto
  next
    case (Inr found)
    obtain seen' ds' where merge: "merge_definitions found seen ds = (seen', ds')" by fastforce
    note merged = merge_definitions_spec [OF merge Cons.prems(3)]
    have found: "set (map def_type found) = {u. reaches w t u}" "\<forall>d \<in> set found. read_definition w (def_type d) = Inr (def_body d)"
      "all_loadable w t"
      using closure Inr by (auto simp: all_loadable_def)
    have "defines_types w (insert t done_ts) ds'"
      using Cons.prems(2) merged found unfolding defines_types_def by blast
    moreover have "set seen' = set (map def_type ds')" using merged(1) Cons.prems(2) by (simp add: defines_types_def)
    ultimately obtain r fs' where "show_types n w ts seen' ds' fs1 = Some (r, fs')" "cache_true w fs'"
      "case r of Inr ds'' \<Rightarrow> (\<forall>t \<in> set ts. all_loadable w t) \<and> defines_types w (insert t done_ts \<union> set ts) ds''
       | Inl e \<Rightarrow> \<exists>t \<in> set ts. \<exists>u. reaches w t u \<and> read_definition w u = Inl e"
      using Cons.IH [OF 1(2)] by blast
    then show ?thesis using 1 Inr merge found(3) by (auto split: sum.splits)
  qed
qed

lemma read_definition_error:
  assumes "read_definition w t = Inl e"
  shows "e \<noteq> Rpc_error c m"
proof -
  have "parsed_type_parse t = Inl e \<Longrightarrow> e \<noteq> Rpc_error c m"
    by (auto simp: parsed_type_parse_def throwInvalidType_def Let_def split: if_splits)
  moreover have "resolveDefinitionPath w p = Inl e \<Longrightarrow> e \<noteq> Rpc_error c m" for p
    by (auto simp: resolveDefinitionPath_def Let_def split: option.splits)
  ultimately show ?thesis using assms by (auto simp: read_definition_def res_bind_Inl_iff split: option.splits)
qed

text \<open>
  C27: Interface definitions are complete: for an identified caller and a well-formed request, over a
  world with finitely many files, the handler always answers; it answers with the definitions
  reachable from the requested types, each type once and with its file's contents, exactly when all
  of those can be loaded, and otherwise with the error of one that cannot.
\<close>

theorem show_interfaces_complete:
  assumes "finite {path. read_file w path \<noteq> None}" "card {t. loadable w t} < n" "cache_true w fs"
    and "caller_identity ivk \<noteq> []" "interfaces_parse (rt_parse rt) (inv_payload ivk) = Inr types"
  shows "\<exists>r fs'. showInterfaces n rt w ivk fs = Some (r, fs') \<and> cache_true w fs'
    \<and> ((\<exists>text. r = Inr text) \<longleftrightarrow> (\<forall>t \<in> set types. all_loadable w t))
    \<and> (case r of
         Inr text \<Rightarrow> \<exists>ds. text = rt_dump rt (interfaces_serialize ds) \<and> defines_types w (set types) ds
       | Inl e \<Rightarrow> \<exists>t \<in> set types. \<exists>u e'. reaches w t u \<and> read_definition w u = Inl e' \<and> e = throwRpcError e')"
proof -
  have "defines_types w {} []" by (simp add: defines_types_def)
  from show_types_spec [OF assms(1-3) this, of "[]" types]
  obtain r fs' where run: "show_types n w types [] [] fs = Some (r, fs')" "cache_true w fs'"
    and spec: "case r of Inr ds' \<Rightarrow> (\<forall>t \<in> set types. all_loadable w t) \<and> defines_types w (set types) ds'
       | Inl e \<Rightarrow> \<exists>t \<in> set types. \<exists>u. reaches w t u \<and> read_definition w u = Inl e"
    by (auto simp only: Un_empty_left list.map list.set)
  show ?thesis
  proof (cases r)
    case (Inl e)
    with spec obtain t u where u: "t \<in> set types" "reaches w t u" "read_definition w u = Inl e" by auto
    then have "showInterfaces n rt w ivk fs = Some (Inl (throwRpcError e), fs')"
      using run(1) Inl assms(4,5) read_definition_error [OF u(3)]
      by (auto simp: showInterfaces_def withCallerIdentity_def split: exn.split)
    moreover have "\<not> all_loadable w t" using u by (auto simp: all_loadable_def loadable_def)
    ultimately show ?thesis using run(2) u by auto
  next
    case (Inr ds)
    then have "showInterfaces n rt w ivk fs = Some (Inr (rt_dump rt (interfaces_serialize ds)), fs')"
      using run(1) assms(4,5) by (simp add: showInterfaces_def withCallerIdentity_def)
    then show ?thesis using run(2) spec Inr by auto
  qed
qed

section \<open>Registration in the room\<close>

lemma registerRpc_handlers: "rpc_handlers (snd (registerRpc env m h c)) = AList.update m h (rpc_handlers c)"
  using registerRpcLocked_frame [of env m "c\<lparr>rpc_handlers := AList.update m h (rpc_handlers c)\<rparr>"]
  by (cases "registerRpcLocked env m (c\<lparr>rpc_handlers := AList.update m h (rpc_handlers c)\<rparr>)") (simp add: registerRpc_def)

lemma register_methods_handlers:
  "distinct (map fst ms') \<Longrightarrow> lookup (rpc_handlers (snd (register_methods env ms' c))) m =
     (case map_of ms' m of Some h \<Rightarrow> Some h | None \<Rightarrow> lookup (rpc_handlers c) m)"
proof (induction ms' arbitrary: c)
  case (Cons mh ms')
  obtain k h where mh: "mh = (k, h)" by fastforce
  obtain ok c1 where 1: "registerRpc env k h c = (ok, c1)" by fastforce
  have "rpc_handlers c1 = AList.update k h (rpc_handlers c)" using registerRpc_handlers [of env k h c] 1 by simp
  moreover have "map_of ms' k = None" using Cons.prems mh by (simp add: map_of_eq_None_iff)
  ultimately show ?case
    using Cons.IH [of c1] Cons.prems mh 1 by (auto simp: Let_def update_conv' split: prod.splits option.split)
qed simp

lemma unregisterRpc_removes:
  "rpc_handlers (snd (unregisterRpc env m c)) = AList.delete m (rpc_handlers c)"
  "rc_room (snd (unregisterRpc env m c)) = rc_room c"
  by (simp_all add: unregisterRpc_def Let_def split: option.split)

lemma unregister_fold:
  "lookup (rpc_handlers (fold (\<lambda>m c. snd (unregisterRpc env m c)) methods c)) m =
     (if m \<in> set methods then None else lookup (rpc_handlers c) m)"
  by (induction methods arbitrary: c) (auto simp: unregisterRpc_removes delete_conv')

text \<open>
  The room serves the router's methods: handlers registered before or between connections are all
  served, each by its own handler, by every room a connection attempt ends up connected to, and
  after \<open>unregisterRpcs\<close> no later room serves any of them, while foreign handlers are kept.
\<close>

theorem registered_methods_served:
  assumes "i < length kMethods" "sdk_alive env"
    and "registerRpcs env0 reg c = (ok, reg', c1)"
    and "c2 = connect_finish (connect_activate env r c1)" "rc_state c2 = Connected"
  shows "reg' \<and> lookup (sdk_methods c2) (r, kMethods ! i) = Some i
    \<and> (m \<notin> set kMethods \<longrightarrow> lookup (rpc_handlers c1) m = lookup (rpc_handlers c) m)
    \<and> lookup (rpc_handlers (snd (unregisterRpcs env1 reg' c3))) (kMethods ! i) = None
    \<and> (m \<notin> set kMethods \<longrightarrow> lookup (rpc_handlers (snd (unregisterRpcs env1 reg' c3))) m = lookup (rpc_handlers c3) m)"
proof -
  let ?ms = "zip kMethods [0..<6]"
  have len: "length kMethods = 6" "distinct kMethods" by (simp_all add: kMethods_def)
  then have ms: "distinct (map fst ?ms)" "map fst ?ms = kMethods" by simp_all
  have c1: "reg'" "c1 = snd (register_methods env0 ?ms c)"
    using assms(3) by (auto simp: registerRpcs_def split: prod.splits)
  have "(kMethods ! i, i) \<in> set ?ms" using assms(1) len by (auto simp: in_set_zip)
  then have "map_of ?ms (kMethods ! i) = Some i" using ms(1) by (simp add: map_of_eq_Some_iff)
  then have handler: "lookup (rpc_handlers c1) (kMethods ! i) = Some i"
    using register_methods_handlers [OF ms(1)] c1(2) by simp
  have other: "lookup (rpc_handlers c1) m = lookup (rpc_handlers c) m" if "m \<notin> set kMethods"
  proof -
    have "map_of ?ms m = None" using that ms(2) by (metis image_set map_of_eq_None_iff)
    then show ?thesis using register_methods_handlers [OF ms(1), of env0 c m] c1(2) by simp
  qed
  have "lookup (sdk_methods c2) (r, kMethods ! i) = Some i"
    using connected_serves [OF assms(2,4,5)] handler by blast
  moreover have "kMethods ! i \<in> set kMethods" using assms(1) by simp
  ultimately show ?thesis using c1(1) other unregister_fold by (simp add: unregisterRpcs_def)
qed

section \<open>Runs\<close>

definition sample_policy :: access_policy where
  "sample_policy = make_policy (\<lambda>n p q s. Inr n) \<lparr>publish_cfg = \<lparr>allow = [], deny = []\<rparr>,
     subscribe_cfg = \<lparr>allow = [''/robot/*''], deny = [''/robot/secret'']\<rparr>, service_cfg = \<lparr>allow = [''/add''], deny = []\<rparr>\<rparr>"

text \<open>A router whose JSON library reads every payload as the given body.\<close>

definition sample_router :: "json \<Rightarrow> router" where
  "sample_router body = \<lparr>rt_parse = (\<lambda>p. Some body), rt_dump = (\<lambda>j. ''{}''), rt_expand = (\<lambda>n p q s. Inr n),
     rt_policy = sample_policy, rt_encode = (\<lambda>b n. []), rt_decode = (\<lambda>t n. Some [1, 0, 0])\<rparr>"

definition alice :: invocation where
  "alice = \<lparr>request_id = ''r1'', caller_identity = ''alice'', inv_payload = []\<rparr>"

theorem listings_exact_witness:
  "listTopics (sample_router (JObject [(''limit'', JUInt 1)])) True
      [(''/robot/secret'', [''a/msg/S'']), (''/robot/tf'', [''a/msg/T'', ''b/msg/T'']), (''/robot/odom'', [''a/msg/O'']), (''/robot/z'', [''a/msg/Z''])] alice
   = Inr (rt_dump (sample_router (JObject [(''limit'', JUInt 1)])) (serializeTopics (cut_to (Some 1)
       (filter (visible (\<lambda>n p q s. Inr n) sample_policy Subscribe \<lparr>query = None, limit = Some 1\<rparr>)
      [(''/robot/secret'', [''a/msg/S'']), (''/robot/tf'', [''a/msg/T'', ''b/msg/T'']), (''/robot/odom'', [''a/msg/O'']), (''/robot/z'', [''a/msg/Z''])]))))"
proof -
  let ?rt = "sample_router (JObject [(''limit'', JUInt 1)])"
  have id: "caller_identity alice \<noteq> []" by (simp add: alice_def)
  have parsed: "resources_parse (rt_parse ?rt) (inv_payload alice) = Inr \<lparr>query = None, limit = Some 1\<rparr>" by code_simp
  show ?thesis using listings_exact [OF id parsed] by (simp add: sample_router_def)
qed

definition sample_call_json :: json where
  "sample_call_json = JObject [(''service'', JString ''/forbidden''),
     (''request'', JObject [(''content_type'', JString ''application/x-ros-cdr''), (''payload_base64'', JString ''AQAA'')])]"

definition sample_refusal :: "unit res \<times> service_caller" where
  "sample_refusal = callService (sample_router sample_call_json) True Service_Caller.sample_env False 3 alice caller_init"

theorem call_service_guarded_witness:
  "\<exists>msg. sample_refusal = (Inl (Rpc_error 2403 msg), caller_init)"
proof -
  let ?rt = "sample_router sample_call_json"
  have parsed: "services_parse (rt_parse ?rt) (rt_expand ?rt) (rt_decode ?rt) (inv_payload alice)
      = Inr \<lparr>sreq_name = ''/forbidden'', sreq_type = [], sreq_payload = [1, 0, 0], sreq_timeout = None\<rparr>" by code_simp
  have denied: "\<not> allows (rt_expand ?rt) (rt_policy ?rt) CallService ''/forbidden''" by code_simp
  obtain r s' where 1: "callService ?rt True Service_Caller.sample_env False 3 alice caller_init = (r, s')" by fastforce
  from call_service_guarded [OF 1] parsed denied show ?thesis
    using 1 by (auto simp: sample_refusal_def alice_def)
qed

definition sample_echo_json :: json where
  "sample_echo_json = JObject [(''kind'', JString ''topic''), (''name'', JString ''/robot/secret'')]"

definition quiet_env :: lm_env where
  "quiet_env = \<lparr>le_now = 0, le_resolve = Inr, le_graph = [], le_media = (\<lambda>sp. Inr ()),
     le_track = (\<lambda>n. \<lparr>te_publish = True, te_qos = Inl (Runtime_error ''no publisher''), te_subscribe = True, te_unpublish = True\<rparr>), le_send = Inr ()\<rparr>"

theorem echo_once_guarded_witness:
  "snd (requestEchoOnce (sample_router sample_echo_json) True quiet_env alice lm_init) = lm_init"
proof -
  let ?rt = "sample_router sample_echo_json"
  have parsed: "echo_once_parse (rt_parse ?rt) (rt_expand ?rt) (inv_payload alice) = Inr \<lparr>echo_kind = Topic, echo_name = ''/robot/secret''\<rparr>"
    by code_simp
  have denied: "\<not> allows (rt_expand ?rt) (rt_policy ?rt) Subscribe ''/robot/secret''" by code_simp
  obtain r m' where 1: "requestEchoOnce ?rt True quiet_env alice lm_init = (r, m')" by fastforce
  from echo_once_guarded [OF 1] parsed denied 1 show ?thesis by auto
qed

definition sample_show_json :: json where
  "sample_show_json = JObject [(''interface_types'', JArray [JString ''a/msg/A'', JString ''b/msg/B''])]"

theorem show_interfaces_complete_witness:
  "\<exists>r fs'. showInterfaces (Suc (card {t. loadable sample_world t})) (sample_router sample_show_json) sample_world alice [] = Some (r, fs')
     \<and> cache_true sample_world fs'"
proof -
  have id: "caller_identity alice \<noteq> []" by (simp add: alice_def)
  have parsed: "interfaces_parse (rt_parse (sample_router sample_show_json)) (inv_payload alice) = Inr [''a/msg/A'', ''b/msg/B'']"
    by code_simp
  have "card {t. loadable sample_world t} < Suc (card {t. loadable sample_world t})" by simp
  moreover have "cache_true sample_world []" by (simp add: cache_true_def)
  ultimately show ?thesis using show_interfaces_complete [OF sample_world_finite _ _ id parsed] by blast
qed

lemma register_all_ok: "(\<And>m. sdk_register env m) \<Longrightarrow> fst (register_all env methods c)"
proof (induction methods arbitrary: c)
  case (Cons m methods)
  have "fst (registerRpcLocked env m c)"
    using Cons.prems by (simp add: registerRpcLocked_def Let_def split: option.split)
  with Cons show ?case by (simp add: Let_def split: prod.split) (metis fst_conv)
qed simp

definition served_room :: room_connection where
  "served_room = connect_finish (connect_activate room_sdk 7 (snd (snd (registerRpcs room_sdk False room_init))))"

theorem registered_methods_served_witness: "lookup (sdk_methods served_room) (7, ''lkros.capability'') = Some 5"
proof -
  obtain ok reg' c1 where 1: "registerRpcs room_sdk False room_init = (ok, reg', c1)" by (metis prod_cases3)
  have i: "5 < length kMethods" "kMethods ! 5 = ''lkros.capability''" by (simp_all add: kMethods_def)
  have alive: "sdk_alive room_sdk" by (simp add: room_sdk_def)
  have served: "served_room = connect_finish (connect_activate room_sdk 7 c1)" using 1 by (simp add: served_room_def)
  have "fst (activateRoom room_sdk 7 c1)"
    by (simp add: activateRoom_def register_all_ok room_sdk_def)
  then obtain c2 where "activateRoom room_sdk 7 c1 = (True, c2)" by (metis prod.collapse)
  then have connected: "rc_state served_room = Connected"
    by (simp add: served connect_activate_def connect_finish_def transitionState_def Let_def)
  show ?thesis using registered_methods_served [OF i(1) alive 1 served connected] i(2) by simp
qed

end
