(* ===== verification/Watchdog.thy ===== *)
theory Watchdog
  imports Room_Connection
begin

text \<open>
  \<open>ConnectionWatchdog\<close> (src/src/connection_watchdog.cpp): the outage timer that ends the process
  when the room stays unhealthy for longer than the recovery timeout. Every critical section is
  one operation; the clock's reading is an argument. \<open>run_wake\<close> is one turn of the watchdog
  thread's loop: what it does after its wait returned, for whatever cause.
\<close>

section \<open>Model\<close>

record outage =
  out_since :: time
  out_deadline :: time

record watchdog =
  wd_enabled :: bool
  recovery_timeout :: time
  wd_stop_requested :: bool
  wd_outage :: "outage option"
  wd_exited :: bool  \<comment> \<open>\<open>std::_Exit\<close> is on its way\<close>

definition startOutageTimer :: "time \<Rightarrow> watchdog \<Rightarrow> bool \<times> watchdog" where
  "startOutageTimer now w =
     (if \<not> wd_enabled w then (False, w)
      else if wd_outage w \<noteq> None then (False, w)
      else (True, w\<lparr>wd_outage := Some \<lparr>out_since = now, out_deadline = now + recovery_timeout w\<rparr>\<rparr>))"

definition clearOutage :: "time \<Rightarrow> watchdog \<Rightarrow> time option \<times> watchdog" where
  "clearOutage now w =
     (if \<not> wd_enabled w then (None, w)
      else (case wd_outage w of
              None \<Rightarrow> (None, w)
            | Some out \<Rightarrow> (Some (now - out_since out), w\<lparr>wd_outage := None\<rparr>)))"

definition watchdog_init :: "bool \<Rightarrow> time \<Rightarrow> time \<Rightarrow> watchdog" where
  "watchdog_init enabled timeout now =
     (let w = \<lparr>wd_enabled = enabled, recovery_timeout = timeout, wd_stop_requested = False, wd_outage = None, wd_exited = False\<rparr>
      in if \<not> enabled then w else snd (startOutageTimer now w))"

definition onStateChanged :: "connection_state \<Rightarrow> time \<Rightarrow> watchdog \<Rightarrow> watchdog" where
  "onStateChanged st now w = (if st = Connected then snd (clearOutage now w) else snd (startOutageTimer now w))"

definition watchdog_stop :: "watchdog \<Rightarrow> watchdog" where
  "watchdog_stop w = w\<lparr>wd_stop_requested := True, wd_outage := None\<rparr>"

definition run_wake :: "time \<Rightarrow> watchdog \<Rightarrow> watchdog" where
  "run_wake now w =
     (if \<not> wd_enabled w \<or> wd_exited w \<or> wd_stop_requested w then w
      else (case wd_outage w of
              None \<Rightarrow> w
            | Some out \<Rightarrow> if now < out_deadline out then w else w\<lparr>wd_outage := None, wd_exited := True\<rparr>))"

text \<open>The time the loop waits for: none while there is no outage.\<close>

definition run_wait_until :: "watchdog \<Rightarrow> time option" where
  "run_wait_until w = map_option out_deadline (wd_outage w)"

section \<open>Specification\<close>

text \<open>Reported states with their times, oldest first, and turns of the loop in between.\<close>

datatype wd_event = Report connection_state | Wake

fun wd_apply :: "wd_event \<times> time \<Rightarrow> watchdog \<Rightarrow> watchdog" where
  "wd_apply (Report st, t) w = onStateChanged st t w"
| "wd_apply (Wake, t) w = run_wake t w"

definition wd_run :: "bool \<Rightarrow> time \<Rightarrow> time \<Rightarrow> (wd_event \<times> time) list \<Rightarrow> watchdog" where
  "wd_run enabled timeout t0 events = fold wd_apply events (watchdog_init enabled timeout t0)"

text \<open>
  The start of the current outage: the first report of an unhealthy state since the last report
  of \<open>Connected\<close>, or the start of the watchdog when it never was connected.
\<close>

fun outage_start :: "time option \<Rightarrow> (wd_event \<times> time) list \<Rightarrow> time option" where
  "outage_start s [] = s"
| "outage_start s ((Report Connected, t) # es) = outage_start None es"
| "outage_start s ((Report Disconnected, t) # es) = outage_start (case s of None \<Rightarrow> Some t | Some u \<Rightarrow> Some u) es"
| "outage_start s ((Report Reconnecting, t) # es) = outage_start (case s of None \<Rightarrow> Some t | Some u \<Rightarrow> Some u) es"
| "outage_start s ((Wake, t) # es) = outage_start s es"

definition timed_out :: "time \<Rightarrow> time \<Rightarrow> (wd_event \<times> time) list \<Rightarrow> bool" where
  "timed_out timeout t0 events \<longleftrightarrow>
     (\<exists>before after t s. events = before @ (Wake, t) # after \<and> outage_start (Some t0) before = Some s \<and> s + timeout \<le> t)"

lemma outage_start_append: "outage_start s (xs @ ys) = outage_start (outage_start s xs) ys"
  by (induction s xs rule: outage_start.induct) simp_all

text \<open>The watchdog that has not exited carries the start of the outage and its deadline.\<close>

definition tracks_outage :: "time option \<Rightarrow> watchdog \<Rightarrow> bool" where
  "tracks_outage s w \<longleftrightarrow> wd_enabled w \<and> \<not> wd_stop_requested w \<and> \<not> wd_exited w
     \<and> wd_outage w = map_option (\<lambda>u. \<lparr>out_since = u, out_deadline = u + recovery_timeout w\<rparr>) s"

lemma wd_apply_exited: "wd_exited w \<Longrightarrow> wd_exited (wd_apply e w)"
  by (cases e; cases "fst e")
    (auto simp: onStateChanged_def clearOutage_def startOutageTimer_def run_wake_def split: option.split)

lemma fold_exited: "wd_exited w \<Longrightarrow> wd_exited (fold wd_apply es w)"
  by (induction es arbitrary: w) (auto simp: wd_apply_exited)

lemma wd_apply_tracks:
  assumes "tracks_outage s w"
  shows "if \<exists>u. fst e = Wake \<and> s = Some u \<and> u + recovery_timeout w \<le> snd e then wd_exited (wd_apply e w)
    else tracks_outage (outage_start s [e]) (wd_apply e w) \<and> recovery_timeout (wd_apply e w) = recovery_timeout w"
proof (cases e)
  case (Pair ev t)
  show ?thesis
  proof (cases ev)
    case (Report st)
    with Pair assms show ?thesis
      by (cases st; cases s) (auto simp: tracks_outage_def onStateChanged_def clearOutage_def startOutageTimer_def)
  next
    case Wake
    with Pair assms show ?thesis by (cases s) (auto simp: tracks_outage_def run_wake_def)
  qed
qed

lemma fold_tracks:
  "tracks_outage s w \<Longrightarrow>
     wd_exited (fold wd_apply es w) \<longleftrightarrow>
       (\<exists>before after t u. es = before @ (Wake, t) # after \<and> outage_start s before = Some u \<and> u + recovery_timeout w \<le> t)"
proof (induction es arbitrary: s w)
  case Nil
  then show ?case by (simp add: tracks_outage_def)
next
  case (Cons e es)
  show ?case
  proof (cases "\<exists>u. fst e = Wake \<and> s = Some u \<and> u + recovery_timeout w \<le> snd e")
    case True
    then obtain u where u: "fst e = Wake" "s = Some u" "u + recovery_timeout w \<le> snd e" by blast
    have "wd_exited (fold wd_apply (e # es) w)" using wd_apply_tracks [OF Cons.prems, of e] True fold_exited by auto
    moreover have "e # es = [] @ (Wake, snd e) # es" "outage_start s [] = Some u" using u by (auto simp: prod_eq_iff)
    ultimately show ?thesis using u(3) by blast
  next
    case False
    let ?w = "wd_apply e w"
    have step: "tracks_outage (outage_start s [e]) ?w" "recovery_timeout ?w = recovery_timeout w"
      using wd_apply_tracks [OF Cons.prems, of e] False by auto
    have "(\<exists>before after t u. es = before @ (Wake, t) # after \<and> outage_start (outage_start s [e]) before = Some u \<and> u + recovery_timeout w \<le> t)
      \<longleftrightarrow> (\<exists>before after t u. e # es = before @ (Wake, t) # after \<and> outage_start s before = Some u \<and> u + recovery_timeout w \<le> t)"
      (is "?L \<longleftrightarrow> ?R")
    proof
      assume ?L
      then obtain before after t u where "es = before @ (Wake, t) # after"
        "outage_start (outage_start s [e]) before = Some u" "u + recovery_timeout w \<le> t" by blast
      then have "e # es = (e # before) @ (Wake, t) # after" "outage_start s (e # before) = Some u" "u + recovery_timeout w \<le> t"
        using outage_start_append [of s "[e]" before] by simp_all
      then show ?R by blast
    next
      assume ?R
      then obtain before after t u where r: "e # es = before @ (Wake, t) # after" "outage_start s before = Some u" "u + recovery_timeout w \<le> t"
        by blast
      with False obtain before' where b: "before = e # before'" by (cases before) auto
      then have "es = before' @ (Wake, t) # after" "outage_start (outage_start s [e]) before' = Some u"
        using r outage_start_append [of s "[e]" before'] by simp_all
      with r(3) show ?L by blast
    qed
    then show ?thesis using Cons.IH [OF step(1)] step(2) by simp
  qed
qed

section \<open>Properties\<close>

text \<open>
  C22: The watchdog ends the process exactly when an outage lasted too long: for every sequence of
  state reports and wake-ups of its thread, it has decided to exit if and only if it is enabled and
  some wake-up happened at least the recovery timeout after the start of the outage that was then
  going on. Repeated reports of unhealthy states never move the deadline, one report of
  \<open>Connected\<close> ends the outage, and the start of the watchdog counts as the start of an outage.
\<close>

theorem watchdog_exits_iff:
  "wd_exited (wd_run enabled timeout t0 events) \<longleftrightarrow> enabled \<and> timed_out timeout t0 events"
proof (cases enabled)
  case True
  then have "tracks_outage (Some t0) (watchdog_init enabled timeout t0)"
    "recovery_timeout (watchdog_init enabled timeout t0) = timeout"
    by (simp_all add: tracks_outage_def watchdog_init_def startOutageTimer_def)
  with fold_tracks [of "Some t0" "watchdog_init enabled timeout t0" events] True show ?thesis
    by (simp add: wd_run_def timed_out_def)
next
  case False
  have "\<not> wd_enabled w \<Longrightarrow> \<not> wd_exited w \<Longrightarrow> \<not> wd_exited (fold wd_apply es w)" for w es
  proof (induction es arbitrary: w)
    case (Cons e es)
    have "wd_apply e w = w" using Cons.prems
      by (cases e; cases "fst e") (auto simp: onStateChanged_def clearOutage_def startOutageTimer_def run_wake_def)
    then show ?case using Cons by simp
  qed simp
  then show ?thesis using False by (simp add: wd_run_def watchdog_init_def)
qed

text \<open>
  A stopped watchdog never ends the process: after \<open>stop\<close>, whatever states are still reported
  and however often its thread wakes up, it does not decide to exit.
\<close>

theorem stopped_watchdog_never_exits:
  "\<not> wd_exited w \<Longrightarrow> \<not> wd_exited (fold wd_apply es (watchdog_stop w))"
proof -
  have "wd_stop_requested v \<Longrightarrow> \<not> wd_exited v \<Longrightarrow> \<not> wd_exited (fold wd_apply es v)" for v
  proof (induction es arbitrary: v)
    case (Cons e es)
    have "wd_stop_requested (wd_apply e v) \<and> \<not> wd_exited (wd_apply e v)" using Cons.prems
      by (cases e; cases "fst e")
        (auto simp: onStateChanged_def clearOutage_def startOutageTimer_def run_wake_def split: option.split)
    then show ?case using Cons by simp
  qed simp
  then show "\<not> wd_exited w \<Longrightarrow> \<not> wd_exited (fold wd_apply es (watchdog_stop w))" by (simp add: watchdog_stop_def)
qed

theorem stopped_watchdog_never_exits_witness:
  "\<not> wd_exited (fold wd_apply [(Report Disconnected, 5), (Wake, 1000)] (watchdog_stop (watchdog_init True 10 0)))"
proof -
  have "\<not> wd_exited (watchdog_init True 10 0)" by (simp add: watchdog_init_def startOutageTimer_def)
  then show ?thesis by (rule stopped_watchdog_never_exits)
qed

end
