(* ===== verification/Failure_Handler.thy ===== *)
theory Failure_Handler
  imports Settlement
begin

text \<open>
  \<open>PipelineFailureHandler\<close> (src/src/utils/pipeline_failure_handler.cpp): failures of a pipeline are
  coalesced into one callback of the stream, run by a worker thread after a delay. The worker's
  program counter says where its loop stands; a turn of the loop after a wait is one operation.
  \<open>requests\<close> counts the accepted calls of \<open>schedule\<close>, \<open>callbacks_started\<close> the callbacks.
\<close>

section \<open>Model\<close>

datatype worker_pc = NoWorker | WorkerWaiting | WorkerDelaying time | WorkerRunning | WorkerDone

record failure_handler =
  fh_delay :: time
  fh_closed :: bool
  fh_pending :: bool
  callback_running :: bool
  fh_worker :: worker_pc
  requests :: nat
  callbacks_started :: nat

definition failure_handler_init :: "time \<Rightarrow> failure_handler" where
  "failure_handler_init delay = \<lparr>fh_delay = delay, fh_closed = False, fh_pending = False, callback_running = False,
     fh_worker = NoWorker, requests = 0, callbacks_started = 0\<rparr>"

definition schedule_failure :: "failure_handler \<Rightarrow> bool \<times> failure_handler" where
  "schedule_failure h =
     (if fh_closed h \<or> fh_pending h \<or> callback_running h then (False, h)
      else (True, h\<lparr>fh_worker := (if fh_worker h = NoWorker then WorkerWaiting else fh_worker h), fh_pending := True,
                    requests := Suc (requests h)\<rparr>))"

definition cancelPending :: "failure_handler \<Rightarrow> failure_handler" where
  "cancelPending h = h\<lparr>fh_pending := False\<rparr>"

text \<open>\<open>close\<close> up to the join, and when the join returns.\<close>

definition close_handler :: "failure_handler \<Rightarrow> failure_handler" where
  "close_handler h = (if fh_closed h then h else h\<lparr>fh_closed := True\<rparr>)"

definition close_may_return :: "failure_handler \<Rightarrow> bool" where
  "close_may_return h \<longleftrightarrow> fh_closed h \<and> (fh_worker h = NoWorker \<or> fh_worker h = WorkerDone)"

definition begin_callback :: "failure_handler \<Rightarrow> failure_handler" where
  "begin_callback h = h\<lparr>callback_running := True, fh_worker := WorkerRunning, callbacks_started := Suc (callbacks_started h)\<rparr>"

definition worker_turn :: "time \<Rightarrow> failure_handler \<Rightarrow> failure_handler" where
  "worker_turn now h =
     (case fh_worker h of
        WorkerWaiting \<Rightarrow>
          if fh_closed h then h\<lparr>fh_worker := WorkerDone\<rparr>
          else if \<not> fh_pending h then h
          else if fh_delay h > 0 then h\<lparr>fh_worker := WorkerDelaying (now + fh_delay h)\<rparr>
          else begin_callback h
      | WorkerDelaying deadline \<Rightarrow>
          if fh_closed h then h\<lparr>fh_worker := WorkerDone\<rparr>
          else if \<not> fh_pending h then h\<lparr>fh_worker := WorkerWaiting\<rparr>
          else if now < deadline then h
          else begin_callback h
      | _ \<Rightarrow> h)"

definition end_callback :: "failure_handler \<Rightarrow> failure_handler" where
  "end_callback h =
     (if fh_worker h = WorkerRunning then h\<lparr>callback_running := False, fh_pending := False, fh_worker := WorkerWaiting\<rparr> else h)"

inductive fhstep :: "failure_handler \<Rightarrow> failure_handler \<Rightarrow> bool" where
  Schedule: "fhstep h (snd (schedule_failure h))"
| Cancel: "fhstep h (cancelPending h)"
| Close: "fhstep h (close_handler h)"
| Turn: "fhstep h (worker_turn now h)"
| End_callback: "fhstep h (end_callback h)"

inductive_cases fhstepE: "fhstep h h'"

abbreviation fh_reachable :: "time \<Rightarrow> failure_handler \<Rightarrow> bool" where
  "fh_reachable delay h \<equiv> fhstep\<^sup>*\<^sup>* (failure_handler_init delay) h"

section \<open>Invariant\<close>

definition fh_inv :: "failure_handler \<Rightarrow> bool" where
  "fh_inv h \<longleftrightarrow> (callback_running h \<longleftrightarrow> fh_worker h = WorkerRunning)
     \<and> (fh_worker h = WorkerDone \<longrightarrow> fh_closed h) \<and> (fh_worker h = NoWorker \<longrightarrow> \<not> fh_pending h)
     \<and> callbacks_started h + (if fh_pending h \<and> \<not> callback_running h then 1 else 0) \<le> requests h"

lemmas fh_defs = schedule_failure_def cancelPending_def close_handler_def worker_turn_def begin_callback_def end_callback_def

lemma fh_inv_init: "fh_inv (failure_handler_init delay)"
  by (simp add: fh_inv_def failure_handler_init_def)

lemma fh_inv_step: "fhstep h h' \<Longrightarrow> fh_inv h \<Longrightarrow> fh_inv h'"
  by (erule fhstepE) (auto simp: fh_inv_def fh_defs split: worker_pc.splits if_splits)

lemma fh_reachable_inv: "fh_reachable delay h \<Longrightarrow> fh_inv h"
  by (induction rule: rtranclp_induct) (auto intro: fh_inv_init fh_inv_step)

lemma fh_delay_step: "fhstep h h' \<Longrightarrow> fh_delay h' = fh_delay h"
  by (erule fhstepE) (auto simp: fh_defs split: worker_pc.splits)

text \<open>Closed and joined: no callback runs, and the number of callbacks stays what it is.\<close>

definition fh_down :: "nat \<Rightarrow> failure_handler \<Rightarrow> bool" where
  "fh_down n h \<longleftrightarrow> close_may_return h \<and> \<not> callback_running h \<and> callbacks_started h = n"

interpretation fd: terminal_shutdown fhstep "fh_down n" for n
  by unfold_locales
    (erule fhstepE; auto simp: fh_down_def close_may_return_def fh_defs split: worker_pc.splits)

section \<open>Properties\<close>

text \<open>
  Failures are coalesced: in every interleaving of failures, cancellations, closing and the worker's
  turns, each callback answers a request of its own, so that there are never more callbacks than
  accepted requests; and once \<open>close\<close> has returned no callback runs or starts any more.
\<close>

theorem failures_coalesce:
  assumes "fh_reachable delay h"
  shows "callbacks_started h \<le> requests h
    \<and> (close_may_return h \<longrightarrow> (\<forall>h'. fhstep\<^sup>*\<^sup>* h h' \<longrightarrow> \<not> callback_running h' \<and> callbacks_started h' = callbacks_started h))"
proof -
  have inv: "fh_inv h" by (rule fh_reachable_inv [OF assms])
  have "fh_down (callbacks_started h) h" if "close_may_return h"
    using that inv by (auto simp: fh_down_def fh_inv_def close_may_return_def)
  then have "\<not> callback_running h' \<and> callbacks_started h' = callbacks_started h"
    if "close_may_return h" "fhstep\<^sup>*\<^sup>* h h'" for h'
    using fd.down_forever that by (auto simp: fh_down_def)
  moreover have "callbacks_started h \<le> requests h" using inv by (simp add: fh_inv_def)
  ultimately show ?thesis by blast
qed

theorem failures_coalesce_witness:
  "\<exists>h. fh_reachable 5 h \<and> callbacks_started h = 1 \<and> requests h = 1"
proof -
  let ?s = "\<lambda>h. snd (schedule_failure h)"
  let ?h = "worker_turn 5 (worker_turn 0 (?s (?s (failure_handler_init 5))))"
  have r: "fh_reachable 5 ?h"
    by (meson Schedule Turn rtranclp.rtrancl_into_rtrancl rtranclp.rtrancl_refl)
  have "callbacks_started ?h = 1 \<and> requests ?h = 1" by (simp add: failure_handler_init_def fh_defs)
  with failures_coalesce [OF r] r show ?thesis by blast
qed

text \<open>
  A pending failure is not lost: in every reachable state with a pending request that is neither
  cancelled nor closed nor already being handled, the worker exists, and two turns of it, the
  second once the delay has passed, start the callback.
\<close>

theorem pending_failure_handled:
  assumes "fh_reachable delay h" "fh_pending h" "\<not> fh_closed h" "\<not> callback_running h"
    and "t \<ge> now + delay" "\<And>d. fh_worker h = WorkerDelaying d \<Longrightarrow> t \<ge> d"
  shows "callback_running (worker_turn t (worker_turn now h))
    \<and> callbacks_started (worker_turn t (worker_turn now h)) = Suc (callbacks_started h)"
proof -
  have delay: "fh_delay h = delay"
    using assms(1) by (induction rule: rtranclp_induct) (auto simp: failure_handler_init_def fh_delay_step)
  have inv: "fh_inv h" by (rule fh_reachable_inv [OF assms(1)])
  show ?thesis
  proof (cases "fh_worker h")
    case WorkerWaiting
    then show ?thesis using assms(2-5) delay by (simp add: worker_turn_def begin_callback_def)
  next
    case (WorkerDelaying d)
    then show ?thesis using assms(2-4) assms(6) [OF WorkerDelaying] by (simp add: worker_turn_def begin_callback_def)
  qed (use inv assms(2-4) in \<open>auto simp: fh_inv_def\<close>)
qed

theorem pending_failure_handled_witness:
  "callback_running (worker_turn 7 (worker_turn 2 (snd (schedule_failure (failure_handler_init 5)))))"
proof -
  let ?h = "snd (schedule_failure (failure_handler_init 5))"
  have r: "fh_reachable 5 ?h" by (meson Schedule r_into_rtranclp)
  have "fh_pending ?h" "\<not> fh_closed ?h" "\<not> callback_running ?h" "fh_worker ?h = WorkerWaiting"
    by (simp_all add: failure_handler_init_def fh_defs)
  with pending_failure_handled [OF r, of 2 7] show ?thesis by simp
qed

end
