(* ===== verification/Media_Pipeline.thy ===== *)
theory Media_Pipeline
  imports Callback_Gate Pipeline_Validation
begin

text \<open>
  The GStreamer pipelines of both media (src/src/video/gstreamer_pipeline.cpp and
  src/src/audio/gstreamer_pipeline.cpp): unpacking of samples into LiveKit frames, starting and
  stopping, and the two raw callbacks. Memory is explicit: a copy that would leave a buffer has
  no result. What GStreamer and the LiveKit frame class report about a sample or a frame (caps,
  mappings, plane layouts, state changes) is an argument.
\<close>

section \<open>Video frames\<close>

record gst_plane =
  gp_data :: "bytes option"
  gp_stride :: int
  gp_width :: int
  gp_height :: int

record lk_plane =
  lp_data :: bool  \<comment> \<open>\<open>data_ptr\<close> is set\<close>
  lp_stride :: nat
  lp_size :: nat

text \<open>\<open>static_cast<std::size_t>\<close> of an \<open>int\<close>.\<close>

definition size_t :: "int \<Rightarrow> nat" where
  "size_t x = nat (x mod 2 ^ 64)"

definition validateI420Plane :: "gst_plane \<Rightarrow> lk_plane \<Rightarrow> unit res" where
  "validateI420Plane src plane =
     (if lp_stride plane = 0 \<or> lp_size plane mod lp_stride plane \<noteq> 0 then
        Inl (Runtime_error ''LiveKit I420 plane layout is invalid.'')
      else if size_t (gp_width src) \<noteq> lp_stride plane \<or> size_t (gp_height src) \<noteq> lp_size plane div lp_stride plane then
        Inl (Runtime_error ''Unexpected I420 plane dimensions from GStreamer.'')
      else Inr ())"

definition memcpy :: "bytes \<Rightarrow> nat \<Rightarrow> bytes \<Rightarrow> nat \<Rightarrow> nat \<Rightarrow> bytes option" where
  "memcpy dst dst_at src src_at n =
     (if dst_at + n \<le> length dst \<and> src_at + n \<le> length src
      then Some (take dst_at dst @ take n (drop src_at src) @ drop (dst_at + n) dst)
      else None)"

fun copy_rows :: "nat \<Rightarrow> nat \<Rightarrow> nat \<Rightarrow> nat \<Rightarrow> nat \<Rightarrow> bytes \<Rightarrow> bytes \<Rightarrow> bytes option" where
  "copy_rows 0 row width src_stride dst_stride src dst = Some dst"
| "copy_rows (Suc n) row width src_stride dst_stride src dst =
     (case memcpy dst (row * dst_stride) src (row * src_stride) width of
        None \<Rightarrow> None
      | Some dst' \<Rightarrow> copy_rows n (Suc row) width src_stride dst_stride src dst')"

text \<open>\<open>Inr None\<close>: a copy left one of the buffers.\<close>

definition copyI420Plane :: "gst_plane \<Rightarrow> lk_plane \<Rightarrow> bytes \<Rightarrow> bytes option res" where
  "copyI420Plane src plane dst =
     (case gp_data src of
        None \<Rightarrow> Inl (Runtime_error ''I420 frame plane data is unavailable.'')
      | Some data \<Rightarrow>
          if gp_stride src < 0 \<or> gp_width src \<le> 0 \<or> gp_height src \<le> 0 then
            Inl (Runtime_error ''I420 frame plane layout is invalid.'')
          else if \<not> lp_data plane then Inl (Runtime_error ''LiveKit I420 plane data is unavailable.'')
          else if size_t (gp_width src) > lp_stride plane \<or> gp_stride src < gp_width src then
            Inl (Runtime_error ''I420 frame plane stride is unsupported.'')
          else Inr (copy_rows (nat (gp_height src)) 0 (size_t (gp_width src)) (size_t (gp_stride src)) (lp_stride plane) data dst))"

record video_sample =
  vs_complete :: bool  \<comment> \<open>caps and buffer are present\<close>
  vs_info :: "(bool \<times> int \<times> int) option"  \<comment> \<open>I420, width, height\<close>
  vs_map :: "gst_plane list option"  \<comment> \<open>component planes of the mapped frame\<close>

record video_frame =
  vf_width :: int
  vf_height :: int
  vf_planes :: "bytes list"

fun validate_planes :: "gst_plane list \<Rightarrow> lk_plane list \<Rightarrow> unit res" where
  "validate_planes (s # ss) (p # ps) = res_bind (validateI420Plane s p) (\<lambda>_. validate_planes ss ps)"
| "validate_planes _ _ = Inr ()"

fun copy_planes :: "gst_plane list \<Rightarrow> lk_plane list \<Rightarrow> bytes list \<Rightarrow> bytes list option res" where
  "copy_planes (s # ss) (p # ps) (d # ds) =
     res_bind (copyI420Plane s p d) (\<lambda>c.
       case c of
         None \<Rightarrow> Inr None
       | Some d' \<Rightarrow> res_bind (copy_planes ss ps ds) (\<lambda>cs. Inr (map_option ((#) d') cs)))"
| "copy_planes _ _ _ = Inr (Some [])"

text \<open>\<open>create\<close> gives the plane layout of a new frame of the given size, zero filled.\<close>

definition unpackI420Frame :: "(int \<Rightarrow> int \<Rightarrow> lk_plane list) \<Rightarrow> video_sample \<Rightarrow> video_frame option res" where
  "unpackI420Frame create sample =
     (if \<not> vs_complete sample then Inl (Runtime_error ''GStreamer sample is missing caps or buffer.'')
      else (case vs_info sample of
        None \<Rightarrow> Inl (Runtime_error ''Failed to parse GStreamer video caps.'')
      | Some (i420, width, height) \<Rightarrow>
          if \<not> i420 then Inl (Runtime_error ''Video pipeline did not output I420 frames.'')
          else if width \<le> 0 \<or> height \<le> 0 then Inl (Runtime_error ''I420 sample dimensions are invalid.'')
          else (case vs_map sample of
            None \<Rightarrow> Inl (Runtime_error ''Failed to map GStreamer video frame.'')
          | Some src \<Rightarrow>
              (let planes = create width height in
               if length planes \<noteq> 3 then Inl (Runtime_error ''LiveKit I420 plane layout is invalid.'')
               else res_bind (validate_planes src planes) (\<lambda>_.
                    res_bind (copy_planes src planes (map (\<lambda>p. replicate (lp_size p) 0) planes)) (\<lambda>copied.
                      Inr (map_option (\<lambda>ds. \<lparr>vf_width = width, vf_height = height, vf_planes = ds\<rparr>) copied)))))))"

section \<open>Audio frames\<close>

record audio_sample =
  as_complete :: bool
  as_info :: "(bool \<times> int \<times> int) option"  \<comment> \<open>S16, rate, channels\<close>
  as_map :: "bytes option"

record audio_frame =
  af_samples :: "16 word list"
  af_rate :: int
  af_channels :: int
  af_per_channel :: nat

text \<open>The buffer read as an array of \<open>std::int16_t\<close> on a little-endian host; an odd last byte is left out.\<close>

fun int16_array :: "bytes \<Rightarrow> 16 word list" where
  "int16_array (lo # hi # rest) = (ucast lo OR push_bit 8 (ucast hi)) # int16_array rest"
| "int16_array _ = []"

definition unpackAudioFrame :: "audio_sample \<Rightarrow> audio_frame res" where
  "unpackAudioFrame sample =
     (if \<not> as_complete sample then Inl (Runtime_error ''GStreamer sample is missing caps or buffer.'')
      else (case as_info sample of
        None \<Rightarrow> Inl (Runtime_error ''Failed to parse GStreamer audio caps.'')
      | Some (s16, rate, channels) \<Rightarrow>
          if \<not> s16 then Inl (Runtime_error ''Audio pipeline did not output S16 frames.'')
          else if rate \<le> 0 \<or> channels \<le> 0 then Inl (Runtime_error ''Audio sample rate or channel count is invalid.'')
          else (case as_map sample of
            None \<Rightarrow> Inl (Runtime_error ''Failed to map GStreamer audio buffer.'')
          | Some data \<Rightarrow>
              (let sample_count = length data div 2 in
               if sample_count = 0 \<or> sample_count mod nat channels \<noteq> 0 then
                 Inl (Runtime_error ''Audio sample count is inconsistent with the channel count.'')
               else Inr \<lparr>af_samples = take sample_count (int16_array data), af_rate = rate, af_channels = channels,
                         af_per_channel = sample_count div nat channels\<rparr>))))"

section \<open>Start and stop\<close>

text \<open>\<open>pl_bin\<close> is \<open>pipeline_\<close>, \<open>pl_word\<close> the callback word.\<close>

record media_pipeline =
  pl_bin :: "gst_element list option"
  pl_appsrc :: bool
  pl_word :: "64 word"

definition pipeline_init :: media_pipeline where
  "pipeline_init = \<lparr>pl_bin = None, pl_appsrc = False, pl_word = 0\<rparr>"

definition isActive :: "media_pipeline \<Rightarrow> bool" where
  "isActive p \<longleftrightarrow> pl_bin p \<noteq> None"

text \<open>\<open>stop\<close>, after its wait for running callbacks.\<close>

definition pipeline_stop :: "media_pipeline \<Rightarrow> media_pipeline" where
  "pipeline_stop p = (if pl_bin p = None then p else p\<lparr>pl_bin := None, pl_appsrc := False, pl_word := stop_use (pl_word p)\<rparr>)"

definition get_by_name :: "string \<Rightarrow> gst_element list \<Rightarrow> gst_element option" where
  "get_by_name name es = find (\<lambda>e. element_name e = name) es"

text \<open>The lookup of one bridge-owned endpoint: element \<open>what\<close> of factory \<open>kind\<close>.\<close>

definition require_endpoint :: "string \<Rightarrow> string \<Rightarrow> string \<Rightarrow> string \<Rightarrow> gst_element list \<Rightarrow> unit res" where
  "require_endpoint medium kind class name es =
     (case get_by_name name es of
        None \<Rightarrow> Inl (Runtime_error (medium @ '' pipeline did not create the expected '' @ kind @ ''.''))
      | Some e \<Rightarrow> if factory_name e \<noteq> kind
                  then Inl (Runtime_error (medium @ '' pipeline named '' @ name @ '' must be a '' @ class @ ''.''))
                  else Inr ())"

text \<open>The elements \<open>start\<close> works with, or its exception before the pipeline is stored.\<close>

definition launch_elements :: "gst_launch \<Rightarrow> string \<Rightarrow> string \<Rightarrow> gst_element list res" where
  "launch_elements launch medium description =
     (case launch description of
        (err, None) \<Rightarrow> Inl (Runtime_error (''Failed to create GStreamer pipeline: ''
           @ (case err of Some m \<Rightarrow> m | None \<Rightarrow> ''gst_parse_launch returned null'')))
      | (err, Some NotABin) \<Rightarrow> Inl (Runtime_error (medium @ '' pipeline must resolve to a GstBin.''))
      | (err, Some (Bin es)) \<Rightarrow> Inr es)"

text \<open>\<open>playing\<close>: the change to PLAYING did not fail.\<close>

definition play :: "string \<Rightarrow> bool \<Rightarrow> gst_element list \<Rightarrow> bool \<Rightarrow> media_pipeline \<Rightarrow> unit res \<times> media_pipeline" where
  "play lower playing es appsrc p =
     (let p1 = p\<lparr>pl_bin := Some es, pl_appsrc := appsrc\<rparr> in
      if playing then (Inr (), p1)
      else (Inl (Runtime_error (''Failed to set '' @ lower @ '' pipeline to PLAYING.'')), pipeline_stop p1))"

text \<open>Everything \<open>start\<close> does with the parsed pipeline before it stores it.\<close>

definition video_prepare :: "gst_launch \<Rightarrow> string \<Rightarrow> bool \<Rightarrow> gst_element list res" where
  "video_prepare launch description require_appsrc =
     res_bind (launch_elements launch ''Video'' description) (\<lambda>es.
     res_bind (require_endpoint ''Video'' ''appsink'' ''GstAppSink'' kVideoAppSinkName es) (\<lambda>_.
     res_bind (if require_appsrc then require_endpoint ''Video'' ''appsrc'' ''GstAppSrc'' kVideoAppSrcName es else Inr ()) (\<lambda>_.
       Inr es)))"

definition audio_prepare :: "gst_launch \<Rightarrow> string \<Rightarrow> gst_element list res" where
  "audio_prepare launch description =
     res_bind (launch_elements launch ''Audio'' description) (\<lambda>es.
     res_bind (require_endpoint ''Audio'' ''appsink'' ''GstAppSink'' kAudioAppSinkName es) (\<lambda>_. Inr es))"

definition video_pipeline_start ::
  "gst_launch \<Rightarrow> bool \<Rightarrow> string \<Rightarrow> bool \<Rightarrow> media_pipeline \<Rightarrow> unit res \<times> media_pipeline" where
  "video_pipeline_start launch playing description require_appsrc p =
     (let p0 = pipeline_stop p; p1 = p0\<lparr>pl_word := resumeCallbacks (pl_word p0)\<rparr> in
      case video_prepare launch description require_appsrc of
        Inl e \<Rightarrow> (Inl e, p1)
      | Inr es \<Rightarrow> play ''video'' playing es require_appsrc p1)"

definition audio_pipeline_start :: "gst_launch \<Rightarrow> bool \<Rightarrow> string \<Rightarrow> media_pipeline \<Rightarrow> unit res \<times> media_pipeline" where
  "audio_pipeline_start launch playing description p =
     (let p0 = pipeline_stop p; p1 = p0\<lparr>pl_word := resumeCallbacks (pl_word p0)\<rparr> in
      case audio_prepare launch description of
        Inl e \<Rightarrow> (Inl e, p1)
      | Inr es \<Rightarrow> play ''audio'' playing es False p1)"

section \<open>Raw callbacks\<close>

datatype flow = FlowOk | FlowFlushing | FlowEos | FlowError

text \<open>Calls of the stream's callbacks, in order.\<close>

datatype 'f media_call = OnFrame 'f int | OnUnpackFailed string | OnCaptureFailed string | OnFailed string

text \<open>A presentation time in nanoseconds, \<open>None\<close> when it is not valid, as microseconds.\<close>

definition timestamp_us :: "64 word option \<Rightarrow> int" where
  "timestamp_us pts = (case pts of None \<Rightarrow> 0 | Some t \<Rightarrow> sint (t div 1000))"

text \<open>
  \<open>onSample\<close> of both pipelines: \<open>pulled\<close> is the pulled sample unpacked, \<open>None\<close> when there was none,
  \<open>capture\<close> what \<open>on_frame\<close> does. The audio pipeline passes no time.
\<close>

definition onSample ::
  "64 word \<Rightarrow> 'f res option \<Rightarrow> int \<Rightarrow> bool \<Rightarrow> ('f \<Rightarrow> unit res) \<Rightarrow> flow \<times> 'f media_call list \<times> 64 word" where
  "onSample word pulled time is_shutdown capture =
     (case beginUse word of
        None \<Rightarrow> (FlowFlushing, [], word)
      | Some word' \<Rightarrow>
          (case pulled of
             None \<Rightarrow> (FlowEos, [], endUse word')
           | Some (Inl e) \<Rightarrow> (FlowError, [OnUnpackFailed (what e)], endUse word')
           | Some (Inr frame) \<Rightarrow>
               if is_shutdown then (FlowFlushing, [], endUse word')
               else (case capture frame of
                       Inr _ \<Rightarrow> (FlowOk, [OnFrame frame time], endUse word')
                     | Inl e \<Rightarrow> (FlowError, [OnFrame frame time, OnCaptureFailed (what e)], endUse word'))))"

datatype bus_message = EosMessage | ErrorMessage "string option" | OtherMessage

definition onBusMessage :: "64 word \<Rightarrow> bus_message \<Rightarrow> 'f media_call list \<times> 64 word" where
  "onBusMessage word message =
     (case beginUse word of
        None \<Rightarrow> ([], word)
      | Some word' \<Rightarrow>
          ((case message of
              EosMessage \<Rightarrow> [OnFailed ''eos'']
            | ErrorMessage m \<Rightarrow> [OnFailed (case m of Some t \<Rightarrow> t | None \<Rightarrow> ''error'')]
            | OtherMessage \<Rightarrow> []), endUse word'))"

section \<open>Copied planes\<close>

text \<open>The rows of a plane without their padding.\<close>

definition plane_row :: "bytes \<Rightarrow> nat \<Rightarrow> nat \<Rightarrow> nat \<Rightarrow> bytes" where
  "plane_row src stride width r = take width (drop (r * stride) src)"

lemma copy_rows_packs:
  assumes "(row + n) * w = length dst" "\<forall>r < row + n. r * ss + w \<le> length src"
  shows "copy_rows n row w ss w src dst = Some (take (row * w) dst @ concat (map (plane_row src ss w) [row..<row + n]))"
  using assms
proof (induction n arbitrary: row dst)
  case 0
  then show ?case by simp
next
  case (Suc n)
  let ?line = "plane_row src ss w row"
  let ?d = "take (row * w) dst @ ?line @ drop (row * w + w) dst"
  have fits: "row * w + w \<le> length dst" "row * ss + w \<le> length src" using Suc.prems by (auto simp: algebra_simps)
  then have line: "length ?line = w" by (simp add: plane_row_def)
  have copy: "memcpy dst (row * w) src (row * ss) w = Some ?d" using fits by (simp add: memcpy_def plane_row_def)
  have "length ?d = length dst" using fits line by simp
  then have "copy_rows n (Suc row) w ss w src ?d
      = Some (take (Suc row * w) ?d @ concat (map (plane_row src ss w) [Suc row..<Suc row + n]))"
    using Suc.prems by (intro Suc.IH) simp_all
  moreover have "take (Suc row * w) ?d = take (row * w) dst @ ?line"
    using fits line by (simp add: algebra_simps)
  moreover have "map (plane_row src ss w) [row..<row + Suc n] = ?line # map (plane_row src ss w) [Suc row..<Suc row + n]"
    using upt_conv_Cons [of row "row + Suc n"] by (simp del: upt_Suc)
  ultimately show ?case using copy by simp
qed

lemma concat_rows_length: "(\<And>r. r < h \<Longrightarrow> length (f r) = w) \<Longrightarrow> length (concat (map f [0..<h])) = h * w"
  by (induction h) simp_all

lemma concat_rows_nth:
  "(\<And>r. r < h \<Longrightarrow> length (f r) = w) \<Longrightarrow> y < h \<Longrightarrow> x < w \<Longrightarrow> concat (map f [0..<h]) ! (y * w + x) = f y ! x"
proof (induction h)
  case (Suc h)
  have len: "length (concat (map f [0..<h])) = h * w" by (rule concat_rows_length) (use Suc.prems in simp)
  show ?case
  proof (cases "y = h")
    case False
    then have "Suc y * w \<le> h * w" using Suc.prems by (intro mult_le_mono1) simp
    then have "y * w + x < h * w" using Suc.prems by simp
    then show ?thesis using Suc False len by (simp add: nth_append)
  qed (use len in \<open>simp add: nth_append\<close>)
qed simp

text \<open>
  A plane as GStreamer maps it: sizes are C integers and the data covers every row, the last one
  without padding.
\<close>

definition mapped_plane :: "gst_plane \<Rightarrow> bool" where
  "mapped_plane s \<longleftrightarrow> gp_width s < 2 ^ 31 \<and> gp_height s < 2 ^ 31 \<and> gp_stride s < 2 ^ 31
     \<and> (\<forall>d. gp_data s = Some d \<longrightarrow> (gp_height s - 1) * gp_stride s + gp_width s \<le> int (length d))"

text \<open>The destination holds the source plane, packed.\<close>

definition packed_from :: "gst_plane \<Rightarrow> bytes \<Rightarrow> bool" where
  "packed_from s out \<longleftrightarrow> (\<exists>d. gp_data s = Some d \<and> length out = nat (gp_height s) * nat (gp_width s)
     \<and> (\<forall>y < nat (gp_height s). \<forall>x < nat (gp_width s). out ! (y * nat (gp_width s) + x) = d ! (y * nat (gp_stride s) + x)))"

lemma size_t_small: "0 \<le> x \<Longrightarrow> x < 2 ^ 31 \<Longrightarrow> size_t x = nat x"
  by (simp add: size_t_def)

lemma plane_copied:
  assumes ok: "validateI420Plane s p = Inr ()" and copied: "copyI420Plane s p (replicate (lp_size p) 0) = Inr r" and mapped: "mapped_plane s"
  shows "\<exists>out. r = Some out \<and> packed_from s out"
proof -
  let ?w = "nat (gp_width s)" and ?h = "nat (gp_height s)" and ?ss = "nat (gp_stride s)"
  obtain d where d: "gp_data s = Some d" and dims: "0 \<le> gp_stride s" "0 < gp_width s" "0 < gp_height s" "gp_width s \<le> gp_stride s"
    using copied by (auto simp: copyI420Plane_def split: option.splits if_splits)
  have sz: "size_t (gp_width s) = ?w" "size_t (gp_height s) = ?h" "size_t (gp_stride s) = ?ss"
    using dims mapped by (auto simp: mapped_plane_def intro!: size_t_small)
  have layout: "lp_stride p = ?w" "lp_size p = ?h * ?w"
    using ok sz by (auto simp: validateI420Plane_def split: if_splits)
  have rows: "r' * ?ss + ?w \<le> length d" if "r' < ?h" for r'
  proof -
    have "int r' \<le> gp_height s - 1" using that by linarith
    then have "int r' * gp_stride s \<le> (gp_height s - 1) * gp_stride s" using dims(1) by (simp add: mult_right_mono)
    moreover have "(gp_height s - 1) * gp_stride s + gp_width s \<le> int (length d)" using mapped d by (auto simp: mapped_plane_def)
    ultimately have "int r' * gp_stride s + gp_width s \<le> int (length d)" by linarith
    moreover have "int (r' * ?ss + ?w) = int r' * gp_stride s + gp_width s" using dims by simp
    ultimately show ?thesis by linarith
  qed
  let ?out = "concat (map (plane_row d ?ss ?w) [0..<?h])"
  have "r = copy_rows ?h 0 ?w ?ss ?w d (replicate (lp_size p) 0)"
    using copied d dims sz layout(1) by (auto simp: copyI420Plane_def split: if_splits)
  also have "\<dots> = Some ?out" using copy_rows_packs [of 0 ?h ?w "replicate (lp_size p) 0" ?ss d] rows layout by simp
  finally have r: "r = Some ?out" .
  have len: "length (plane_row d ?ss ?w y) = ?w" if "y < ?h" for y using rows [OF that] by (simp add: plane_row_def)
  have "?out ! (y * ?w + x) = d ! (y * ?ss + x)" if "y < ?h" "x < ?w" for y x
  proof -
    have "?out ! (y * ?w + x) = plane_row d ?ss ?w y ! x" by (rule concat_rows_nth [OF len that])
    also have "\<dots> = d ! (y * ?ss + x)" using rows [OF that(1)] that(2) by (simp add: plane_row_def)
    finally show ?thesis .
  qed
  moreover have "length ?out = ?h * ?w" by (rule concat_rows_length) (rule len)
  ultimately show ?thesis using r d by (auto simp: packed_from_def)
qed

lemma planes_copied:
  "validate_planes ss ps = Inr () \<Longrightarrow> length ss = length ps \<Longrightarrow> \<forall>s \<in> set ss. mapped_plane s \<Longrightarrow>
   copy_planes ss ps (map (\<lambda>p. replicate (lp_size p) 0) ps) = Inr r \<Longrightarrow> \<exists>outs. r = Some outs \<and> list_all2 packed_from ss outs"
proof (induction ss ps arbitrary: r rule: validate_planes.induct)
  case (1 s ss p ps)
  obtain c where c: "copyI420Plane s p (replicate (lp_size p) 0) = Inr c" and valid: "validateI420Plane s p = Inr ()"
    using "1.prems"(1,4) by (auto simp: res_iffs)
  obtain out where out: "c = Some out" "packed_from s out" using plane_copied [OF valid c] "1.prems"(3) by auto
  obtain rest where rest: "copy_planes ss ps (map (\<lambda>p. replicate (lp_size p) 0) ps) = Inr rest" "r = map_option ((#) out) rest"
    using "1.prems"(4) c out(1) by (auto simp: res_iffs)
  obtain outs where "rest = Some outs" "list_all2 packed_from ss outs"
    using "1.IH" [OF _ _ _ rest(1)] "1.prems"(1-3) by (auto simp: res_iffs)
  then show ?case using rest(2) out(2) by simp
qed auto

section \<open>Properties\<close>

text \<open>
  C26: Unpacking a video sample copies exactly the picture and stays in bounds: for every sample whose
  mapped planes cover their rows, the copy never leaves a buffer, and when it gives a frame, the
  frame has the sample's size and three planes, each holding the rows of its source plane
  without their padding, byte for byte.
\<close>

theorem i420_unpack_packs:
  assumes "\<And>src. vs_map sample = Some src \<Longrightarrow> length src = 3 \<and> (\<forall>s \<in> set src. mapped_plane s)"
    and "unpackI420Frame create sample = Inr r"
  shows "\<exists>f src w h. r = Some f \<and> vs_map sample = Some src \<and> vs_info sample = Some (True, w, h) \<and> 0 < w \<and> 0 < h
    \<and> vf_width f = w \<and> vf_height f = h \<and> length (vf_planes f) = 3 \<and> list_all2 packed_from src (vf_planes f)"
proof -
  obtain w h src where s: "vs_info sample = Some (True, w, h)" "vs_map sample = Some src" "0 < w" "0 < h"
      "length (create w h) = 3" "validate_planes src (create w h) = Inr ()"
    and copied: "res_bind (copy_planes src (create w h) (map (\<lambda>p. replicate (lp_size p) 0) (create w h))) (\<lambda>copied.
        Inr (map_option (\<lambda>ds. \<lparr>vf_width = w, vf_height = h, vf_planes = ds\<rparr>) copied)) = Inr r"
    using assms(2)
    by (auto simp: unpackI420Frame_def Let_def res_bind_Inr_iff split: if_splits option.splits prod.splits)
  from copied obtain c where c: "copy_planes src (create w h) (map (\<lambda>p. replicate (lp_size p) 0) (create w h)) = Inr c"
    "r = map_option (\<lambda>ds. \<lparr>vf_width = w, vf_height = h, vf_planes = ds\<rparr>) c" by (auto simp: res_bind_Inr_iff)
  obtain outs where "c = Some outs" "list_all2 packed_from src outs"
    using planes_copied [OF s(6) _ _ c(1)] assms(1) [OF s(2)] s(5) by auto
  then show ?thesis using c(2) s assms(1) [OF s(2)] by (auto dest: list_all2_lengthD)
qed

text \<open>Two luma rows with padding, and the two chroma samples.\<close>

definition sample_planes :: "gst_plane list" where
  "sample_planes = [\<lparr>gp_data = Some [1, 2, 0, 0, 3, 4], gp_stride = 4, gp_width = 2, gp_height = 2\<rparr>,
     \<lparr>gp_data = Some [5], gp_stride = 4, gp_width = 1, gp_height = 1\<rparr>, \<lparr>gp_data = Some [6], gp_stride = 4, gp_width = 1, gp_height = 1\<rparr>]"

definition sample_video :: video_sample where
  "sample_video = \<lparr>vs_complete = True, vs_info = Some (True, 2, 2), vs_map = Some sample_planes\<rparr>"

definition sample_layout :: "int \<Rightarrow> int \<Rightarrow> lk_plane list" where
  "sample_layout w h = [\<lparr>lp_data = True, lp_stride = 2, lp_size = 4\<rparr>, \<lparr>lp_data = True, lp_stride = 1, lp_size = 1\<rparr>,
     \<lparr>lp_data = True, lp_stride = 1, lp_size = 1\<rparr>]"

theorem i420_unpack_packs_witness:
  "\<exists>f. unpackI420Frame sample_layout sample_video = Inr (Some f) \<and> length (vf_planes f) = 3 \<and> list_all2 packed_from sample_planes (vf_planes f)"
proof -
  let ?f = "\<lparr>vf_width = 2, vf_height = 2, vf_planes = [[1, 2, 3, 4], [5], [6]]\<rparr>"
  have r: "unpackI420Frame sample_layout sample_video = Inr (Some ?f)" by code_simp
  have m: "length src = 3 \<and> (\<forall>s \<in> set src. mapped_plane s)" if "vs_map sample_video = Some src" for src
    using that by (auto simp: sample_video_def sample_planes_def mapped_plane_def)
  from i420_unpack_packs [OF m r] r show ?thesis by (auto simp: sample_video_def)
qed

lemma int16_array_length: "length (int16_array bs) = length bs div 2"
  by (induction bs rule: int16_array.induct) simp_all

definition int16_bytes :: "16 word \<Rightarrow> bytes" where
  "int16_bytes s = [ucast s, ucast (drop_bit 8 s)]"

lemma int16_bytes_inverse: "int16_bytes (ucast (lo :: 8 word) OR push_bit 8 (ucast (hi :: 8 word))) = [lo, hi]"
  by (auto simp: int16_bytes_def bit_eq_iff bit_simps dest: bit_imp_le_length)

lemma int16_array_bytes: "concat (map int16_bytes (int16_array bs)) = take (2 * (length bs div 2)) bs"
  by (induction bs rule: int16_array.induct) (simp_all add: int16_bytes_inverse)

text \<open>
  Unpacking an audio sample loses nothing: a frame has a positive rate and channel count, at
  least one sample per channel, exactly channels times samples-per-channel samples, and
  writing them back as little-endian bytes gives the buffer, up to an odd last byte.
\<close>

theorem audio_unpack_exact:
  assumes "unpackAudioFrame sample = Inr f"
  shows "\<exists>data. as_map sample = Some data \<and> 0 < af_rate f \<and> 0 < af_channels f \<and> 0 < af_per_channel f
    \<and> length (af_samples f) = nat (af_channels f) * af_per_channel f
    \<and> concat (map int16_bytes (af_samples f)) = take (2 * (length data div 2)) data"
proof -
  obtain rate channels data where s: "0 < rate" "0 < channels" "as_map sample = Some data"
      "length data div 2 \<noteq> 0" "length data div 2 mod nat channels = 0"
    and f: "f = \<lparr>af_samples = take (length data div 2) (int16_array data), af_rate = rate, af_channels = channels,
        af_per_channel = length data div 2 div nat channels\<rparr>"
    using assms by (auto simp: unpackAudioFrame_def Let_def split: if_splits option.splits prod.splits)
  have "length data div 2 = nat channels * (length data div 2 div nat channels)" using s(5) by (simp add: mod_0_imp_dvd)
  moreover from this have "0 < length data div 2 div nat channels" using s(4) by (metis gr0I mult_0_right)
  ultimately show ?thesis using s f by (simp add: int16_array_length int16_array_bytes)
qed

theorem audio_unpack_exact_witness:
  "\<exists>f. unpackAudioFrame \<lparr>as_complete = True, as_info = Some (True, 48000, 1), as_map = Some [1, 2, 3, 4]\<rparr> = Inr f
     \<and> concat (map int16_bytes (af_samples f)) = [1, 2, 3, 4]"
proof -
  let ?s = "\<lparr>as_complete = True, as_info = Some (True, 48000, 1), as_map = Some [1, 2, 3, 4]\<rparr>"
  let ?f = "\<lparr>af_samples = [0x0201, 0x0403], af_rate = 48000, af_channels = 1, af_per_channel = 2\<rparr>"
  have r: "unpackAudioFrame ?s = Inr ?f" by code_simp
  from audio_unpack_exact [OF r] r show ?thesis by auto
qed

section \<open>Validated pipelines start\<close>

lemma find_singleton: "filter P xs = [e] \<Longrightarrow> find P xs = Some e"
  by (induction xs) (auto split: if_splits)

lemma start_validated:
  assumes "validatePipeline launch ctx d (makeOtherSourceLayout name) = Inr ()"
  shows "\<exists>es. launch_elements launch medium d = Inr es \<and> require_endpoint medium ''appsink'' class name es = Inr ()"
proof -
  obtain es e where es: "launch d = (None, Some (Bin es))" "filter (\<lambda>x. factory_name x = ''appsink'') es = [e]"
      "filter (\<lambda>x. element_name x = name) es = [e]"
    using validated_source_endpoints [OF assms] by blast
  have "e \<in> set (filter (\<lambda>x. factory_name x = ''appsink'') es)" using es(2) by simp
  then have "factory_name e = ''appsink''" by simp
  with find_singleton [OF es(3)] es(1) show ?thesis
    by (simp add: launch_elements_def require_endpoint_def get_by_name_def)
qed

lemma stopped_inactive: "pl_bin (pipeline_stop p) = None"
  by (simp add: pipeline_stop_def)

lemma video_validated_start:
  assumes "validatePipeline launch ctx d (makeOtherSourceLayout kVideoAppSinkName) = Inr ()"
    and "video_pipeline_start launch playing d False p = (r, p')"
  shows "(r = Inr () \<longleftrightarrow> playing) \<and> (isActive p' \<longleftrightarrow> playing) \<and> (playing \<longrightarrow> beginUse (pl_word p') \<noteq> None)"
proof -
  obtain es where es: "launch_elements launch ''Video'' d = Inr es" "require_endpoint ''Video'' ''appsink'' ''GstAppSink'' kVideoAppSinkName es = Inr ()"
    using start_validated [OF assms(1)] by blast
  have p: "play ''video'' playing es False ((pipeline_stop p)\<lparr>pl_word := 0\<rparr>) = (r, p')"
    using es assms(2) by (simp add: video_pipeline_start_def video_prepare_def Let_def resumeCallbacks_def)
  have "beginUse 0 \<noteq> None" by (simp add: beginUse_def)
  with p show ?thesis by (cases playing) (auto simp: play_def Let_def isActive_def stopped_inactive)
qed

lemma audio_validated_start:
  assumes "validatePipeline launch ctx d (makeOtherSourceLayout kAudioAppSinkName) = Inr ()"
    and "audio_pipeline_start launch playing d p = (r, p')"
  shows "(r = Inr () \<longleftrightarrow> playing) \<and> (isActive p' \<longleftrightarrow> playing) \<and> (playing \<longrightarrow> beginUse (pl_word p') \<noteq> None)"
proof -
  obtain es where es: "launch_elements launch ''Audio'' d = Inr es" "require_endpoint ''Audio'' ''appsink'' ''GstAppSink'' kAudioAppSinkName es = Inr ()"
    using start_validated [OF assms(1)] by blast
  have p: "play ''audio'' playing es False ((pipeline_stop p)\<lparr>pl_word := 0\<rparr>) = (r, p')"
    using es assms(2) by (simp add: audio_pipeline_start_def audio_prepare_def Let_def resumeCallbacks_def)
  have "beginUse 0 \<noteq> None" by (simp add: beginUse_def)
  with p show ?thesis by (cases playing) (auto simp: play_def Let_def isActive_def stopped_inactive)
qed

text \<open>
  What passed validation starts: a source whose description passed the validation done when the
  configuration was loaded always gets past parsing and the lookup of its sink; starting it fails
  only when the change to PLAYING fails. A pipeline is active afterwards exactly when the start
  succeeded, and then its callbacks are open.
\<close>

theorem validated_source_starts:
  assumes "validatePipeline launch ctx d (makeOtherSourceLayout kVideoAppSinkName) = Inr ()"
    and "validatePipeline launch ctx' d' (makeOtherSourceLayout kAudioAppSinkName) = Inr ()"
    and "video_pipeline_start launch playing d False p = (r, p')" "audio_pipeline_start launch playing d' q = (r', q')"
  shows "(r = Inr () \<longleftrightarrow> playing) \<and> (isActive p' \<longleftrightarrow> playing) \<and> (r' = Inr () \<longleftrightarrow> playing) \<and> (isActive q' \<longleftrightarrow> playing)
    \<and> (playing \<longrightarrow> beginUse (pl_word p') \<noteq> None \<and> beginUse (pl_word q') \<noteq> None)"
  using video_validated_start [OF assms(1,3)] audio_validated_start [OF assms(2,4)] by blast

definition sample_launch :: gst_launch where
  "sample_launch d = (None, Some (Bin [\<lparr>factory_name = ''src'', element_name = ''s''\<rparr>,
     \<lparr>factory_name = ''appsink'', element_name = d\<rparr>]))"

theorem validated_source_starts_witness:
  "isActive (snd (video_pipeline_start sample_launch True kVideoAppSinkName False pipeline_init))"
proof -
  obtain r p' where 1: "video_pipeline_start sample_launch True kVideoAppSinkName False pipeline_init = (r, p')" by fastforce
  obtain r' q' where 2: "audio_pipeline_start sample_launch True kAudioAppSinkName pipeline_init = (r', q')" by fastforce
  have v: "validatePipeline sample_launch ''c'' kVideoAppSinkName (makeOtherSourceLayout kVideoAppSinkName) = Inr ()"
    "validatePipeline sample_launch ''c'' kAudioAppSinkName (makeOtherSourceLayout kAudioAppSinkName) = Inr ()" by code_simp+
  from validated_source_starts [OF v 1 2] 1 show ?thesis by simp
qed

end
