(* ===== verification/Track_Publishers.thy ===== *)
theory Track_Publishers
  imports Settlement Text_Utils
begin

text \<open>
  The publishers of media tracks (src/src/video/track_publisher.cpp and
  src/src/audio/track_publisher.cpp): a frame of a pipeline goes to the LiveKit source of the
  published track. What publishing a track and capturing a frame give is an argument of every
  call; a number names a track. Published and unpublished tracks and captured frames are
  recorded. \<open>mp_sizes\<close> is the format each track's source was made for: width and height of a
  video, rate and channels of an audio source.
\<close>

section \<open>State\<close>

type_synonym media_format = "int \<times> int"

record media_publisher =
  mp_stream_key :: string
  mp_track_name :: string
  mp_retry_interval :: time
  mp_closed :: bool
  mp_source :: "media_format option"
  mp_track :: "nat option"
  mp_closing :: "nat option"  \<comment> \<open>taken by \<open>close\<close>, not yet unpublished\<close>
  published_once :: bool
  frame_logged :: bool
  next_publish_attempt :: time
  next_failure_log :: time
  mp_sizes :: "(nat, media_format) alist"
  mp_unpublished :: "nat list"
  mp_frames :: "(nat \<times> media_format) list"
  mp_attempts :: "(time \<times> bool) list"  \<comment> \<open>publish attempts, latest first, and their success\<close>
  mp_logged :: "string list"

definition publisher_init :: "string \<Rightarrow> string \<Rightarrow> time \<Rightarrow> media_publisher" where
  "publisher_init key name retry = \<lparr>mp_stream_key = key, mp_track_name = name, mp_retry_interval = retry, mp_closed = False,
     mp_source = None, mp_track = None, mp_closing = None, published_once = False, frame_logged = False,
     next_publish_attempt = 0, next_failure_log = 0, mp_sizes = [], mp_unpublished = [], mp_frames = [], mp_attempts = [], mp_logged = []\<rparr>"

definition mp_log :: "string \<Rightarrow> media_publisher \<Rightarrow> media_publisher" where
  "mp_log line s = s\<lparr>mp_logged := mp_logged s @ [line]\<rparr>"

text \<open>\<open>tryUnpublish\<close> swallows every exception: the track counts as unpublished.\<close>

definition tryUnpublish :: "nat option \<Rightarrow> media_publisher \<Rightarrow> media_publisher" where
  "tryUnpublish track s = (case track of None \<Rightarrow> s | Some t \<Rightarrow> s\<lparr>mp_unpublished := t # mp_unpublished s\<rparr>)"

section \<open>Video\<close>

text \<open>\<open>captureOptions\<close>: the capture time and, when it is not negative, the user timestamp.\<close>

definition captureOptions :: "int \<Rightarrow> int \<times> int option" where
  "captureOptions timestamp_us = (timestamp_us, if timestamp_us \<ge> 0 then Some timestamp_us else None)"

text \<open>The frame goes to the source; the first one after a publication is logged.\<close>

definition capture_frame :: "string \<Rightarrow> unit res \<Rightarrow> media_format \<Rightarrow> media_publisher \<Rightarrow> unit res \<times> media_publisher" where
  "capture_frame event captured fmt s =
     (case captured of
        Inl e \<Rightarrow> (Inl e, s)
      | Inr _ \<Rightarrow>
          (let s1 = (case mp_track s of None \<Rightarrow> s | Some t \<Rightarrow> s\<lparr>mp_frames := (t, fmt) # mp_frames s\<rparr>) in
           if frame_logged s1 then (Inr (), s1)
           else (Inr (), (mp_log (log_event event) s1)\<lparr>frame_logged := True\<rparr>)))"

definition video_republish :: "nat res \<Rightarrow> media_format \<Rightarrow> media_publisher \<Rightarrow> unit res \<times> media_publisher" where
  "video_republish publication fmt s =
     (let republish = published_once s;
          s1 = (tryUnpublish (mp_track s) s)\<lparr>mp_track := None, mp_source := None\<rparr>
      in case publication of
           Inl e \<Rightarrow> (Inl e, s1)
         | Inr t \<Rightarrow>
             (let s2 = s1\<lparr>mp_source := Some fmt, mp_track := Some t, mp_sizes := (t, fmt) # mp_sizes s1,
                          frame_logged := False, published_once := True\<rparr>
              in (Inr (), if republish then mp_log (log_event ''video_stream_track_republished'') s2 else s2)))"

definition video_capture :: "nat res \<Rightarrow> unit res \<Rightarrow> media_format \<Rightarrow> media_publisher \<Rightarrow> unit res \<times> media_publisher" where
  "video_capture publication captured fmt s =
     (if mp_closed s then (Inr (), s)
      else (case (if mp_source s \<noteq> Some fmt then video_republish publication fmt s else (Inr (), s)) of
              (Inl e, s1) \<Rightarrow> (Inl e, s1)
            | (Inr _, s1) \<Rightarrow> capture_frame ''video_stream_frame_captured'' captured fmt s1))"

section \<open>Audio\<close>

definition kFailureLogInterval :: time where
  "kFailureLogInterval = ms 1000"

definition logTransientFailure :: "time \<Rightarrow> string \<Rightarrow> media_publisher \<Rightarrow> media_publisher" where
  "logTransientFailure now event s =
     (if now < next_failure_log s then s
      else (mp_log (log_event event) s)\<lparr>next_failure_log := now + kFailureLogInterval\<rparr>)"

text \<open>The result says whether the frame may go to a source.\<close>

definition audio_publish :: "time \<Rightarrow> nat res \<Rightarrow> media_format \<Rightarrow> media_publisher \<Rightarrow> bool \<times> media_publisher" where
  "audio_publish now publication fmt s =
     (if mp_source s \<noteq> None then (True, s)
      else if now < next_publish_attempt s then (False, s)
      else (case publication of
              Inr t \<Rightarrow> (True, s\<lparr>mp_source := Some fmt, mp_track := Some t, mp_sizes := (t, fmt) # mp_sizes s,
                                frame_logged := False, mp_attempts := (now, True) # mp_attempts s\<rparr>)
            | Inl e \<Rightarrow> (False, (logTransientFailure now ''audio_stream_publish_failed_retry''
                (s\<lparr>next_publish_attempt := now + mp_retry_interval s, mp_attempts := (now, False) # mp_attempts s\<rparr>)))))"

definition audio_capture :: "time \<Rightarrow> nat res \<Rightarrow> unit res \<Rightarrow> media_format \<Rightarrow> media_publisher \<Rightarrow> unit res \<times> media_publisher" where
  "audio_capture now publication captured fmt s =
     (if mp_closed s then (Inr (), s)
      else (case audio_publish now publication fmt s of
              (False, s1) \<Rightarrow> (Inr (), s1)
            | (True, s1) \<Rightarrow>
                (case captured of
                   Inl e \<Rightarrow> (Inr (), logTransientFailure now ''audio_stream_capture_failed_drop'' s1)
                 | Inr u \<Rightarrow> capture_frame ''audio_stream_frame_captured'' captured fmt s1)))"

section \<open>Closing and reports\<close>

definition close_take :: "media_publisher \<Rightarrow> media_publisher" where
  "close_take s =
     (if mp_closed s then s
      else s\<lparr>published_once := False, frame_logged := False, mp_closed := True, mp_source := None,
             mp_closing := mp_track s, mp_track := None\<rparr>)"

definition close_unpublish :: "media_publisher \<Rightarrow> media_publisher" where
  "close_unpublish s = (tryUnpublish (mp_closing s) s)\<lparr>mp_closing := None\<rparr>"

text \<open>\<open>onSampleUnpackFailed\<close>, \<open>onCaptureFailed\<close>, \<open>onRestartFailed\<close> and \<open>onAppsrcPushFailed\<close>.\<close>

definition report_failure :: "string \<Rightarrow> string \<Rightarrow> media_publisher \<Rightarrow> media_publisher" where
  "report_failure event error s =
     (if mp_closed s then s
      else mp_log (fieldOr ''error'' error ''<unknown>'' (fieldOr ''stream_key'' (mp_stream_key s) ''<unknown>'' (log_event event))) s)"

section \<open>Interleavings\<close>

text \<open>The SDK gives a new track for each publication.\<close>

definition fresh_track :: "nat res \<Rightarrow> media_publisher \<Rightarrow> bool" where
  "fresh_track publication s \<longleftrightarrow> (case publication of Inl e \<Rightarrow> True | Inr t \<Rightarrow> t \<notin> set (keys (mp_sizes s)))"

inductive vpstep :: "media_publisher \<Rightarrow> media_publisher \<Rightarrow> bool" where
  Video_capture: "fresh_track publication s \<Longrightarrow> vpstep s (snd (video_capture publication captured fmt s))"
| Video_close: "vpstep s (close_take s)"
| Video_unpublish: "vpstep s (close_unpublish s)"
| Video_report: "vpstep s (report_failure event error s)"

inductive apstep :: "media_publisher \<Rightarrow> media_publisher \<Rightarrow> bool" where
  Audio_capture: "fresh_track publication s \<Longrightarrow> apstep s (snd (audio_capture now publication captured fmt s))"
| Audio_close: "apstep s (close_take s)"
| Audio_unpublish: "apstep s (close_unpublish s)"
| Audio_report: "apstep s (report_failure event error s)"

inductive_cases vpstepE: "vpstep s s'"
inductive_cases apstepE: "apstep s s'"

section \<open>Where a track is\<close>

definition track_set :: "nat option \<Rightarrow> nat multiset" where
  "track_set t = (case t of None \<Rightarrow> {#} | Some n \<Rightarrow> {#n#})"

definition known_tracks :: "media_publisher \<Rightarrow> nat multiset" where
  "known_tracks s = mset (keys (mp_sizes s))"

definition live_tracks :: "media_publisher \<Rightarrow> nat multiset" where
  "live_tracks s = track_set (mp_track s) + track_set (mp_closing s)"

definition gone_tracks :: "media_publisher \<Rightarrow> nat multiset" where
  "gone_tracks s = mset (mp_unpublished s)"

text \<open>The current track has a source, made for the format on file; frames went to tracks of their own format.\<close>

definition publisher_inv :: "media_publisher \<Rightarrow> bool" where
  "publisher_inv s \<longleftrightarrow> (mp_source s = None \<longleftrightarrow> mp_track s = None)
     \<and> (\<forall>t. mp_track s = Some t \<longrightarrow> lookup (mp_sizes s) t = mp_source s)
     \<and> (mp_closed s \<longrightarrow> mp_track s = None) \<and> (\<not> mp_closed s \<longrightarrow> mp_closing s = None)"

lemma track_set_simps [simp]: "track_set None = {#}" "track_set (Some t) = {#t#}"
  by (simp_all add: track_set_def)

lemma publisher_inv_init: "publisher_inv (publisher_init key name retry)"
  by (simp add: publisher_inv_def publisher_init_def)

lemmas capture_defs = capture_frame_def video_republish_def video_capture_def logTransientFailure_def audio_publish_def
  audio_capture_def tryUnpublish_def mp_log_def Let_def
lemmas close_defs = close_take_def close_unpublish_def report_failure_def tryUnpublish_def mp_log_def

lemma capture_frame_keeps:
  "publisher_inv (snd (capture_frame ev captured fmt s)) = publisher_inv s"
  "known_tracks (snd (capture_frame ev captured fmt s)) = known_tracks s"
  "live_tracks (snd (capture_frame ev captured fmt s)) = live_tracks s"
  "gone_tracks (snd (capture_frame ev captured fmt s)) = gone_tracks s"
  by (simp_all add: capture_frame_def mp_log_def Let_def publisher_inv_def known_tracks_def live_tracks_def gone_tracks_def
      split: sum.split option.split)

lemma logTransientFailure_keeps:
  "publisher_inv (logTransientFailure now ev s) = publisher_inv s" "known_tracks (logTransientFailure now ev s) = known_tracks s"
  "live_tracks (logTransientFailure now ev s) = live_tracks s" "gone_tracks (logTransientFailure now ev s) = gone_tracks s"
  by (simp_all add: logTransientFailure_def mp_log_def publisher_inv_def known_tracks_def live_tracks_def gone_tracks_def)

text \<open>A publication: the old track, if any, is unpublished, the new one is current.\<close>

lemma video_republish_tracks:
  assumes "publisher_inv s" "\<not> mp_closed s" "video_republish publication fmt s = (r, s')"
  shows "publisher_inv s' \<and> gone_tracks s' = gone_tracks s + track_set (mp_track s)
    \<and> live_tracks s' = track_set (mp_track s')
    \<and> known_tracks s' = known_tracks s + track_set (mp_track s')
    \<and> (\<forall>t. mp_track s' = Some t \<longrightarrow> publication = Inr t) \<and> (r = Inr () \<longrightarrow> mp_source s' = Some fmt)"
  using assms
  by (auto simp: video_republish_def tryUnpublish_def mp_log_def Let_def publisher_inv_def gone_tracks_def live_tracks_def known_tracks_def
      split: sum.splits option.splits if_splits)

lemma audio_publish_tracks:
  assumes "publisher_inv s" "\<not> mp_closed s" "audio_publish now publication fmt s = (ok, s')"
  shows "publisher_inv s' \<and> gone_tracks s' = gone_tracks s
    \<and> (known_tracks s' = known_tracks s \<and> live_tracks s' = live_tracks s
       \<or> (\<exists>t. publication = Inr t \<and> known_tracks s' = add_mset t (known_tracks s) \<and> live_tracks s' = add_mset t (live_tracks s)))"
  using assms
  by (auto simp: audio_publish_def publisher_inv_def gone_tracks_def live_tracks_def known_tracks_def logTransientFailure_def mp_log_def
      split: sum.splits if_splits)

text \<open>What a step does to the tracks: nothing, a move from live to gone, or a new live track.\<close>

definition tracks_move :: "media_publisher \<Rightarrow> media_publisher \<Rightarrow> bool" where
  "tracks_move s s' \<longleftrightarrow> publisher_inv s'
     \<and> (known_tracks s' = known_tracks s \<or> (\<exists>t. t \<notin># known_tracks s \<and> known_tracks s' = add_mset t (known_tracks s)))
     \<and> (known_tracks s = live_tracks s + gone_tracks s \<longrightarrow> known_tracks s' = live_tracks s' + gone_tracks s')"

lemma tracks_move_refl: "publisher_inv s \<Longrightarrow> tracks_move s s"
  by (simp add: tracks_move_def)

lemma close_tracks_move:
  assumes "publisher_inv s"
  shows "tracks_move s (close_take s)" "tracks_move s (close_unpublish s)" "tracks_move s (report_failure ev error s)"
  using assms
  by (auto simp: tracks_move_def publisher_inv_def close_defs known_tracks_def live_tracks_def gone_tracks_def split: option.splits)

lemma video_capture_moves:
  assumes inv: "publisher_inv s" and fresh: "fresh_track publication s"
  shows "tracks_move s (snd (video_capture publication captured fmt s))"
proof (cases "mp_closed s")
  case True
  then show ?thesis using tracks_move_refl [OF inv] by (simp add: video_capture_def)
next
  case False
  have live: "live_tracks s = track_set (mp_track s)" using inv False by (simp add: publisher_inv_def live_tracks_def)
  show ?thesis
  proof (cases "mp_source s = Some fmt")
    case True
    then show ?thesis
      using False tracks_move_refl [OF inv] by (simp add: video_capture_def tracks_move_def capture_frame_keeps)
  next
    case same: False
    obtain r s1 where 1: "video_republish publication fmt s = (r, s1)" by fastforce
    note moved = video_republish_tracks [OF inv False 1]
    have "tracks_move s s1"
    proof (cases "mp_track s1")
      case None
      with moved live show ?thesis by (auto simp: tracks_move_def)
    next
      case (Some t)
      with moved fresh have "t \<notin># known_tracks s" by (auto simp: fresh_track_def known_tracks_def)
      with moved live Some show ?thesis by (auto simp: tracks_move_def)
    qed
    with False same 1 show ?thesis
      by (cases r) (simp_all add: video_capture_def tracks_move_def capture_frame_keeps)
  qed
qed

lemma audio_capture_moves:
  assumes inv: "publisher_inv s" and fresh: "fresh_track publication s"
  shows "tracks_move s (snd (audio_capture now publication captured fmt s))"
proof (cases "mp_closed s")
  case True
  then show ?thesis using tracks_move_refl [OF inv] by (simp add: audio_capture_def)
next
  case False
  obtain ok s1 where 1: "audio_publish now publication fmt s = (ok, s1)" by fastforce
  have "tracks_move s s1"
    using audio_publish_tracks [OF inv False 1] fresh by (auto simp: tracks_move_def fresh_track_def known_tracks_def)
  with False 1 show ?thesis
    by (cases ok; cases captured) (simp_all add: audio_capture_def tracks_move_def capture_frame_keeps logTransientFailure_keeps)
qed

lemma vpstep_moves: "vpstep s s' \<Longrightarrow> publisher_inv s \<Longrightarrow> tracks_move s s'"
  by (erule vpstepE) (auto intro: video_capture_moves close_tracks_move)

lemma apstep_moves: "apstep s s' \<Longrightarrow> publisher_inv s \<Longrightarrow> tracks_move s s'"
  by (erule apstepE) (auto intro: audio_capture_moves close_tracks_move)

interpretation vt: settlement "publisher_init key name retry" vpstep publisher_inv known_tracks live_tracks gone_tracks for key name retry
proof unfold_locales
  fix s t :: media_publisher
  assume st: "vpstep s t" "publisher_inv s"
  note move = vpstep_moves [OF st, unfolded tracks_move_def]
  show "publisher_inv t" using move by simp
  show "known_tracks t = known_tracks s \<or> (\<exists>i. i \<notin># known_tracks s \<and> known_tracks t = add_mset i (known_tracks s))" using move by simp
  show "known_tracks s = live_tracks s + gone_tracks s \<Longrightarrow> known_tracks t = live_tracks t + gone_tracks t" using move by simp
qed (simp_all add: publisher_inv_init, simp_all add: publisher_init_def known_tracks_def live_tracks_def gone_tracks_def)

interpretation aud: settlement "publisher_init key name retry" apstep publisher_inv known_tracks live_tracks gone_tracks for key name retry
proof unfold_locales
  fix s t :: media_publisher
  assume st: "apstep s t" "publisher_inv s"
  note move = apstep_moves [OF st, unfolded tracks_move_def]
  show "publisher_inv t" using move by simp
  show "known_tracks t = known_tracks s \<or> (\<exists>i. i \<notin># known_tracks s \<and> known_tracks t = add_mset i (known_tracks s))" using move by simp
  show "known_tracks s = live_tracks s + gone_tracks s \<Longrightarrow> known_tracks t = live_tracks t + gone_tracks t" using move by simp
qed (simp_all add: publisher_inv_init, simp_all add: publisher_init_def known_tracks_def live_tracks_def gone_tracks_def)

text \<open>A closed publisher captures nothing, publishes nothing and, once its track is gone, has none.\<close>

definition publisher_down :: "(nat, media_format) alist \<times> (nat \<times> media_format) list \<Rightarrow> media_publisher \<Rightarrow> bool" where
  "publisher_down x s \<longleftrightarrow> mp_closed s \<and> mp_track s = None \<and> mp_closing s = None \<and> mp_sizes s = fst x \<and> mp_frames s = snd x"

interpretation vd: terminal_shutdown vpstep "publisher_down x" for x
  by unfold_locales (erule vpstepE; auto simp: publisher_down_def video_capture_def close_defs)

interpretation ad: terminal_shutdown apstep "publisher_down x" for x
  by unfold_locales (erule apstepE; auto simp: publisher_down_def audio_capture_def close_defs)

section \<open>Properties\<close>

text \<open>
  Every published media track is unpublished exactly once: in every interleaving of frames, size
  changes, failures and closing, each track of a video or audio publisher is either the one
  it still holds or was unpublished once, it holds at most one, and after closing it holds none,
  publishes none and captures no frame.
\<close>

theorem media_tracks_settle:
  assumes "vpstep\<^sup>*\<^sup>* (publisher_init key name retry) s \<or> apstep\<^sup>*\<^sup>* (publisher_init key name retry) s"
  shows "(t \<in># known_tracks s \<longrightarrow> count (live_tracks s) t + count (gone_tracks s) t = 1)
    \<and> size (live_tracks s) \<le> 1
    \<and> live_tracks (close_unpublish (close_take s)) = {#}
    \<and> (\<forall>s'. vpstep\<^sup>*\<^sup>* (close_unpublish (close_take s)) s' \<or> apstep\<^sup>*\<^sup>* (close_unpublish (close_take s)) s' \<longrightarrow>
         live_tracks s' = {#} \<and> known_tracks s' = known_tracks s \<and> mp_frames s' = mp_frames s)"
proof -
  have inv: "publisher_inv s" using assms vt.reachable_good aud.reachable_good by blast
  have once: "t \<in># known_tracks s \<Longrightarrow> count (live_tracks s) t + count (gone_tracks s) t = 1"
    using assms vt.exactly_one_place aud.exactly_one_place by blast
  have one: "size (live_tracks s) \<le> 1"
    using inv by (cases "mp_track s"; cases "mp_closing s") (auto simp: publisher_inv_def live_tracks_def)
  let ?d = "close_unpublish (close_take s)"
  have down: "publisher_down (mp_sizes s, mp_frames s) ?d"
    using inv by (auto simp: publisher_down_def publisher_inv_def close_defs split: option.split)
  have "live_tracks s' = {#} \<and> known_tracks s' = known_tracks s \<and> mp_frames s' = mp_frames s"
    if "vpstep\<^sup>*\<^sup>* ?d s' \<or> apstep\<^sup>*\<^sup>* ?d s'" for s'
    using that vd.down_forever [OF _ down] ad.down_forever [OF _ down]
    by (auto simp: publisher_down_def live_tracks_def known_tracks_def)
  with once one show ?thesis by blast
qed

text \<open>A camera that changes its size: track 1 for the first size, track 2 for the second.\<close>

definition sample_resized :: media_publisher where
  "sample_resized = snd (video_capture (Inr 2) (Inr ()) (640, 480)
     (snd (video_capture (Inr 1) (Inr ()) (320, 240) (publisher_init ''k'' ''cam'' 250))))"

lemma sample_resized_reachable: "vpstep\<^sup>*\<^sup>* (publisher_init ''k'' ''cam'' 250) sample_resized"
proof -
  let ?p0 = "publisher_init ''k'' ''cam'' 250"
  let ?p1 = "snd (video_capture (Inr 1) (Inr ()) (320, 240) ?p0)"
  have "vpstep ?p0 ?p1" by (rule Video_capture) (simp add: fresh_track_def publisher_init_def)
  moreover have "vpstep ?p1 sample_resized"
    unfolding sample_resized_def by (rule Video_capture) (simp add: fresh_track_def publisher_init_def capture_defs)
  ultimately show ?thesis by simp
qed

lemma sample_resized_state:
  "live_tracks sample_resized = {#2#}" "gone_tracks sample_resized = {#1#}" "known_tracks sample_resized = {#1, 2#}"
  "mp_frames sample_resized = [(2, (640, 480)), (1, (320, 240))]"
  by (simp_all add: sample_resized_def publisher_init_def capture_defs live_tracks_def gone_tracks_def known_tracks_def add_mset_commute)

theorem media_tracks_settle_witness: "count (live_tracks sample_resized) 1 + count (gone_tracks sample_resized) 1 = 1"
proof -
  have r: "vpstep\<^sup>*\<^sup>* (publisher_init ''k'' ''cam'' 250) sample_resized \<or> apstep\<^sup>*\<^sup>* (publisher_init ''k'' ''cam'' 250) sample_resized"
    using sample_resized_reachable by blast
  have "1 \<in># known_tracks sample_resized" by (simp add: sample_resized_state)
  with media_tracks_settle [OF r, of 1] show ?thesis by blast
qed

lemma frames_step:
  assumes "vpstep s s'" "publisher_inv s" "\<forall>(t, fmt) \<in> set (mp_frames s). lookup (mp_sizes s) t = Some fmt"
  shows "\<forall>(t, fmt) \<in> set (mp_frames s'). lookup (mp_sizes s') t = Some fmt"
  using assms(1)
proof cases
  case (Video_capture publication captured fmt)
  show ?thesis
  proof (cases "mp_closed s")
    case True
    with Video_capture assms(3) show ?thesis by (simp add: video_capture_def)
  next
    case False
    obtain r s1 where 1: "(if mp_source s \<noteq> Some fmt then video_republish publication fmt s else (Inr (), s)) = (r, s1)" by fastforce
    have s1: "publisher_inv s1" "r = Inr () \<Longrightarrow> mp_source s1 = Some fmt"
      using 1 video_republish_tracks [OF assms(2) False] assms(2) by (auto split: if_splits)
    have old: "\<forall>(t, f) \<in> set (mp_frames s1). lookup (mp_sizes s1) t = Some f"
    proof -
      have "lookup (mp_sizes s1) t = Some f" if "(t, f) \<in> set (mp_frames s)" for t f
      proof -
        have "lookup (mp_sizes s) t = Some f" using that assms(3) by auto
        moreover from this have "publication \<noteq> Inr t"
          using Video_capture(2) by (force simp: fresh_track_def dest!: map_of_SomeD)
        ultimately show ?thesis
          using 1
          by (auto simp: video_republish_def tryUnpublish_def mp_log_def fresh_track_def Let_def split: if_splits sum.splits option.splits)
      qed
      moreover have "mp_frames s1 = mp_frames s"
        using 1 by (auto simp: video_republish_def tryUnpublish_def mp_log_def Let_def split: if_splits sum.splits option.splits)
      ultimately show ?thesis by auto
    qed
    have "s' = (case r of Inl e \<Rightarrow> s1 | Inr u \<Rightarrow> snd (capture_frame ''video_stream_frame_captured'' captured fmt s1))"
      using Video_capture(1) False 1 by (auto simp: video_capture_def split: sum.split)
    moreover have "lookup (mp_sizes s1) t = Some fmt" if "r = Inr ()" "mp_track s1 = Some t" for t
      using s1 that by (simp add: publisher_inv_def)
    ultimately show ?thesis
      using old by (cases r) (auto simp: capture_frame_def mp_log_def Let_def split: sum.split option.split)
  qed
qed (use assms(3) in \<open>auto simp: close_defs split: option.split\<close>)

text \<open>
  Video frames go to a source of their size: in every state a video publisher can reach, each
  captured frame went to a track whose source was made for exactly that frame's width and height.
\<close>

theorem video_frames_fit_source:
  assumes "vpstep\<^sup>*\<^sup>* (publisher_init key name retry) s" "(t, fmt) \<in> set (mp_frames s)"
  shows "lookup (mp_sizes s) t = Some fmt"
proof -
  have "\<forall>(t, fmt) \<in> set (mp_frames s). lookup (mp_sizes s) t = Some fmt"
    using assms(1)
    by (induction rule: rtranclp_induct) (use vt.reachable_good frames_step in \<open>auto simp: publisher_init_def\<close>)
  with assms(2) show ?thesis by auto
qed

theorem video_frames_fit_source_witness: "lookup (mp_sizes sample_resized) 1 = Some (320, 240)"
  by (rule video_frames_fit_source [OF sample_resized_reachable]) (simp add: sample_resized_state)

section \<open>Audio publication attempts\<close>

text \<open>Attempts, latest first: each follows a failed one, at least the retry interval later.\<close>

fun spaced :: "time \<Rightarrow> (time \<times> bool) list \<Rightarrow> bool" where
  "spaced retry ((t, ok) # (t', ok') # rest) = (\<not> ok' \<and> t' + retry \<le> t \<and> spaced retry ((t', ok') # rest))"
| "spaced retry _ = True"

definition attempts_inv :: "time \<Rightarrow> media_publisher \<Rightarrow> bool" where
  "attempts_inv retry s \<longleftrightarrow> spaced retry (mp_attempts s) \<and> mp_retry_interval s = retry
     \<and> (\<forall>t rest. mp_attempts s = (t, True) # rest \<longrightarrow> mp_source s \<noteq> None \<or> mp_closed s)
     \<and> (\<forall>t rest. mp_attempts s = (t, False) # rest \<longrightarrow> next_publish_attempt s = t + retry)"

lemma capture_frame_attempts:
  "attempts_inv retry (snd (capture_frame ev captured fmt s)) = attempts_inv retry s"
  "attempts_inv retry (logTransientFailure now ev s) = attempts_inv retry s"
  by (cases captured; cases "mp_track s") (simp_all add: capture_frame_def logTransientFailure_def mp_log_def attempts_inv_def Let_def)

lemma audio_publish_attempts:
  assumes "attempts_inv retry s" "\<not> mp_closed s"
  shows "attempts_inv retry (snd (audio_publish now publication fmt s))"
proof (cases "mp_source s = None \<and> \<not> now < next_publish_attempt s")
  case True
  then have "spaced retry ((now, ok) # mp_attempts s)" for ok
    using assms by (cases "mp_attempts s") (auto simp: attempts_inv_def split: if_splits)
  with True assms show ?thesis
    by (cases publication) (simp_all add: audio_publish_def capture_frame_attempts, simp_all add: attempts_inv_def)
next
  case False
  with assms show ?thesis by (auto simp: audio_publish_def)
qed

lemma apstep_attempts:
  assumes "apstep s s'" "attempts_inv retry s"
  shows "attempts_inv retry s'"
  using assms(1)
proof cases
  case (Audio_capture publication now captured fmt)
  show ?thesis
  proof (cases "mp_closed s")
    case True
    with Audio_capture assms(2) show ?thesis by (simp add: audio_capture_def)
  next
    case False
    from audio_publish_attempts [OF assms(2) False, of now publication fmt] Audio_capture False show ?thesis
      by (cases "audio_publish now publication fmt s"; cases "fst (audio_publish now publication fmt s)"; cases captured)
        (simp_all add: audio_capture_def capture_frame_attempts)
  qed
qed (use assms(2) in \<open>auto simp: attempts_inv_def close_defs split: option.split list.splits prod.splits if_splits\<close>)

text \<open>
  A failing LiveKit publication never stops an audio pipeline and is not hammered: capturing an audio
  frame never throws, whatever publishing or capturing does; and in every reachable state
  consecutive publication attempts of a publisher are at least the retry interval apart, each
  made only because the one before failed.
\<close>

theorem audio_publish_backs_off:
  "fst (audio_capture now publication captured fmt s) = Inr ()
   \<and> (apstep\<^sup>*\<^sup>* (publisher_init key name retry) s' \<longrightarrow> spaced retry (mp_attempts s'))"
proof
  show "fst (audio_capture now publication captured fmt s) = Inr ()"
    by (simp add: audio_capture_def capture_frame_def Let_def split: prod.split sum.split bool.split)
  have "attempts_inv retry s'" if "apstep\<^sup>*\<^sup>* (publisher_init key name retry) s'"
    using that
  proof (induction rule: rtranclp_induct)
    case base
    show ?case by (simp add: attempts_inv_def publisher_init_def)
  qed (rule apstep_attempts)
  then show "apstep\<^sup>*\<^sup>* (publisher_init key name retry) s' \<longrightarrow> spaced retry (mp_attempts s')"
    by (auto simp: attempts_inv_def)
qed

definition sample_retry :: media_publisher where
  "sample_retry = snd (audio_capture 300 (Inr 1) (Inr ()) (48000, 1) (snd (audio_capture 9 (Inr 1) (Inr ()) (48000, 1)
     (snd (audio_capture 5 (Inl (Runtime_error ''down'')) (Inr ()) (48000, 1) (publisher_init ''k'' ''mic'' 250))))))"

theorem audio_publish_backs_off_witness: "mp_attempts sample_retry = [(300, True), (5, False)] \<and> spaced 250 (mp_attempts sample_retry)"
proof -
  let ?p0 = "publisher_init ''k'' ''mic'' 250"
  let ?p1 = "snd (audio_capture 5 (Inl (Runtime_error ''down'')) (Inr ()) (48000, 1) ?p0)"
  let ?p2 = "snd (audio_capture 9 (Inr 1) (Inr ()) (48000, 1) ?p1)"
  have "apstep ?p0 ?p1" by (rule Audio_capture) (simp add: fresh_track_def)
  moreover have "apstep ?p1 ?p2" by (rule Audio_capture) (simp add: fresh_track_def publisher_init_def capture_defs)
  moreover have "apstep ?p2 sample_retry"
    unfolding sample_retry_def by (rule Audio_capture) (simp add: fresh_track_def publisher_init_def capture_defs)
  ultimately have "apstep\<^sup>*\<^sup>* ?p0 sample_retry" by (meson r_into_rtranclp rtranclp.rtrancl_into_rtrancl)
  then have "spaced 250 (mp_attempts sample_retry)" using audio_publish_backs_off by blast
  moreover have "mp_attempts sample_retry = [(300, True), (5, False)]"
    by (simp add: sample_retry_def publisher_init_def capture_defs)
  ultimately show ?thesis by simp
qed

end
