(* ===== verification/Media_Streams.thy ===== *)
theory Media_Streams
  imports Media_Pipeline Failure_Handler
begin

text \<open>
  The streams that feed the media publishers from a GStreamer source
  (src/src/video/gstreamer_stream.cpp, src/src/audio/gstreamer_stream.cpp): start, failure,
  delayed restart, close. GStreamer may post failures to the synchronous bus handler from inside
  the state change of \<open>start\<close>, on the thread that makes it; \<open>ge_sync_failures\<close> lists them. In the
  video stream the handler takes the mutex which that thread holds: the call has no result.
\<close>

section \<open>Model\<close>

record gst_env =
  ge_launch :: gst_launch
  ge_playing :: bool
  ge_sync_failures :: "string list"

record gst_stream =
  gs_source :: string
  gs_transform :: string
  gs_shutdown :: bool
  gs_pipeline :: media_pipeline
  gs_handler :: failure_handler
  restart_failures :: "string list"

definition kRestartDelay :: time where
  "kRestartDelay = ms 250"

definition gst_stream_init :: "string \<Rightarrow> string \<Rightarrow> gst_stream" where
  "gst_stream_init source transform = \<lparr>gs_source = source, gs_transform = transform, gs_shutdown = False,
     gs_pipeline = pipeline_init, gs_handler = failure_handler_init kRestartDelay, restart_failures = []\<rparr>"

definition is_ok :: "'a res \<Rightarrow> bool" where
  "is_ok r = (case r of Inl e \<Rightarrow> False | Inr x \<Rightarrow> True)"

lemma is_ok_simps [simp]: "is_ok (Inr x)" "\<not> is_ok (Inl e)"
  by (simp_all add: is_ok_def)

subsection \<open>Audio\<close>

definition audio_onPipelineFailure :: "string \<Rightarrow> gst_stream \<Rightarrow> gst_stream" where
  "audio_onPipelineFailure why s =
     (if gs_shutdown s then s else s\<lparr>gs_handler := snd (schedule_failure (gs_handler s))\<rparr>)"

definition audio_startPipelineLocked :: "gst_env \<Rightarrow> gst_stream \<Rightarrow> unit res \<times> gst_stream" where
  "audio_startPipelineLocked env s =
     (let description = audio_buildPipelineDescription (gs_source s) (gs_transform s);
          (r, p) = audio_pipeline_start (ge_launch env) (ge_playing env) description (gs_pipeline s);
          failures = (if is_ok (audio_prepare (ge_launch env) description) then ge_sync_failures env else [])
      in (r, fold audio_onPipelineFailure failures (s\<lparr>gs_pipeline := p\<rparr>)))"

definition audio_stream_start :: "gst_env \<Rightarrow> gst_stream \<Rightarrow> unit res \<times> gst_stream" where
  "audio_stream_start env s =
     (if gs_shutdown s then (Inl (Runtime_error ''Audio stream is shut down.''), s) else audio_startPipelineLocked env s)"

definition audio_restartPipelineAfterFailure :: "gst_env \<Rightarrow> gst_stream \<Rightarrow> gst_stream" where
  "audio_restartPipelineAfterFailure env s =
     (if gs_shutdown s then s
      else (case audio_startPipelineLocked env (s\<lparr>gs_pipeline := pipeline_stop (gs_pipeline s)\<rparr>) of
              (Inr _, s') \<Rightarrow> s'
            | (Inl e, s') \<Rightarrow> s'\<lparr>restart_failures := restart_failures s' @ [what e]\<rparr>))"

subsection \<open>Video\<close>

definition video_onPipelineFailure :: "string \<Rightarrow> gst_stream \<Rightarrow> gst_stream" where
  "video_onPipelineFailure why s =
     (if gs_shutdown s \<or> \<not> isActive (gs_pipeline s) then s
      else s\<lparr>gs_handler := snd (schedule_failure (gs_handler s))\<rparr>)"

text \<open>Called with \<open>mutex_\<close> held; \<open>None\<close>: the thread waits for the mutex it holds.\<close>

definition video_startPipelineLocked :: "gst_env \<Rightarrow> gst_stream \<Rightarrow> (unit res \<times> gst_stream) option" where
  "video_startPipelineLocked env s =
     (let description = video_buildPipelineDescription (gs_source s) (gs_transform s) in
      if is_ok (video_prepare (ge_launch env) description False) \<and> ge_sync_failures env \<noteq> [] then None
      else (let (r, p) = video_pipeline_start (ge_launch env) (ge_playing env) description False (gs_pipeline s)
            in Some (r, s\<lparr>gs_pipeline := p\<rparr>)))"

definition video_stream_start :: "gst_env \<Rightarrow> gst_stream \<Rightarrow> (unit res \<times> gst_stream) option" where
  "video_stream_start env s =
     (if gs_shutdown s then Some (Inl (Runtime_error ''Video stream is shut down.''), s) else video_startPipelineLocked env s)"

definition video_restartPipelineAfterFailure :: "gst_env \<Rightarrow> gst_stream \<Rightarrow> gst_stream option" where
  "video_restartPipelineAfterFailure env s =
     (if gs_shutdown s then Some s
      else (case video_startPipelineLocked env (s\<lparr>gs_pipeline := pipeline_stop (gs_pipeline s)\<rparr>) of
              None \<Rightarrow> None
            | Some (Inr _, s') \<Rightarrow> Some s'
            | Some (Inl e, s') \<Rightarrow> Some (s'\<lparr>restart_failures := restart_failures s' @ [what e]\<rparr>)))"

subsection \<open>Closing\<close>

text \<open>\<open>close\<close> of both streams: the flag and the handler, then, after the join, the pipeline.\<close>

definition stream_close_request :: "gst_stream \<Rightarrow> gst_stream" where
  "stream_close_request s = (if gs_shutdown s then s else s\<lparr>gs_shutdown := True, gs_handler := close_handler (gs_handler s)\<rparr>)"

definition stream_close_finish :: "gst_stream \<Rightarrow> gst_stream" where
  "stream_close_finish s = s\<lparr>gs_pipeline := pipeline_stop (gs_pipeline s)\<rparr>"

section \<open>Interleavings\<close>

definition on_handler :: "(failure_handler \<Rightarrow> failure_handler) \<Rightarrow> gst_stream \<Rightarrow> gst_stream" where
  "on_handler f s = s\<lparr>gs_handler := f (gs_handler s)\<rparr>"

text \<open>An active pipeline may fail at any time; a stopped one has no bus handler.\<close>

inductive gsstep :: "gst_stream \<Rightarrow> gst_stream \<Rightarrow> bool" where
  Audio_failure: "isActive (gs_pipeline s) \<Longrightarrow> gsstep s (audio_onPipelineFailure why s)"
| Video_failure: "isActive (gs_pipeline s) \<Longrightarrow> gsstep s (video_onPipelineFailure why s)"
| Handler_turn: "gsstep s (on_handler (worker_turn now) s)"
| Audio_restart: "callback_running (gs_handler s) \<Longrightarrow> gsstep s (on_handler end_callback (audio_restartPipelineAfterFailure env s))"
| Video_restart: "callback_running (gs_handler s) \<Longrightarrow> video_restartPipelineAfterFailure env s = Some s' \<Longrightarrow>
    gsstep s (on_handler end_callback s')"
| Close_request: "gsstep s (stream_close_request s)"
| Close_finish: "gs_shutdown s \<Longrightarrow> close_may_return (gs_handler s) \<Longrightarrow> gsstep s (stream_close_finish s)"

inductive_cases gsstepE: "gsstep s s'"

section \<open>Lemmas\<close>

lemma fold_failures:
  "\<exists>h. fold audio_onPipelineFailure whys s = s\<lparr>gs_handler := h\<rparr> \<and> (callback_running (gs_handler s) \<longrightarrow> h = gs_handler s)"
proof (induction whys arbitrary: s)
  case Nil
  show ?case by (intro exI [of _ "gs_handler s"]) simp
next
  case (Cons why whys)
  let ?s = "audio_onPipelineFailure why s"
  obtain h where h: "fold audio_onPipelineFailure whys ?s = ?s\<lparr>gs_handler := h\<rparr>" "callback_running (gs_handler ?s) \<longrightarrow> h = gs_handler ?s"
    using Cons.IH by blast
  then have "fold audio_onPipelineFailure (why # whys) s = s\<lparr>gs_handler := h\<rparr>"
    "callback_running (gs_handler s) \<longrightarrow> h = gs_handler s"
    by (auto simp: audio_onPipelineFailure_def schedule_failure_def)
  then show ?case by blast
qed

text \<open>A restart changes the pipeline and the log of failures, not a handler that is running its callback.\<close>

lemma audio_restart_outcome:
  assumes "callback_running (gs_handler s)" "\<not> gs_shutdown s"
  obtains r p where "audio_pipeline_start (ge_launch env) (ge_playing env)
      (audio_buildPipelineDescription (gs_source s) (gs_transform s)) (pipeline_stop (gs_pipeline s)) = (r, p)"
    and "audio_restartPipelineAfterFailure env s = s\<lparr>gs_pipeline := p,
      restart_failures := restart_failures s @ (case r of Inl e \<Rightarrow> [what e] | Inr u \<Rightarrow> [])\<rparr>"
proof -
  let ?s = "s\<lparr>gs_pipeline := pipeline_stop (gs_pipeline s)\<rparr>"
  obtain r p where rp: "audio_pipeline_start (ge_launch env) (ge_playing env)
      (audio_buildPipelineDescription (gs_source s) (gs_transform s)) (pipeline_stop (gs_pipeline s)) = (r, p)" by fastforce
  have fold: "fold audio_onPipelineFailure whys (s\<lparr>gs_pipeline := p\<rparr>) = s\<lparr>gs_pipeline := p\<rparr>" for whys
    using fold_failures [of whys "s\<lparr>gs_pipeline := p\<rparr>"] assms(1) by auto
  have "audio_startPipelineLocked env ?s = (r, s\<lparr>gs_pipeline := p\<rparr>)"
    using rp fold by (simp add: audio_startPipelineLocked_def Let_def)
  then have "audio_restartPipelineAfterFailure env s = s\<lparr>gs_pipeline := p,
      restart_failures := restart_failures s @ (case r of Inl e \<Rightarrow> [what e] | Inr u \<Rightarrow> [])\<rparr>"
    using assms(2) by (cases r) (simp_all add: audio_restartPipelineAfterFailure_def)
  with rp that show thesis by blast
qed

lemma audio_start_active: "audio_pipeline_start launch playing d p = (r, p') \<Longrightarrow> isActive p' \<longleftrightarrow> r = Inr ()"
  by (auto simp: audio_pipeline_start_def play_def Let_def isActive_def stopped_inactive split: sum.splits if_splits)

lemma video_start_active: "video_pipeline_start launch playing d req p = (r, p') \<Longrightarrow> isActive p' \<longleftrightarrow> r = Inr ()"
  by (auto simp: video_pipeline_start_def play_def Let_def isActive_def stopped_inactive split: sum.splits if_splits)

text \<open>A stream without pipeline, pending request and running callback stays that way.\<close>

definition stream_dead :: "gst_stream \<Rightarrow> bool" where
  "stream_dead s \<longleftrightarrow> \<not> isActive (gs_pipeline s) \<and> \<not> fh_pending (gs_handler s) \<and> \<not> callback_running (gs_handler s)"

interpretation dead: terminal_shutdown gsstep stream_dead
  by unfold_locales
    (erule gsstepE; auto simp: stream_dead_def on_handler_def stream_close_request_def stream_close_finish_def worker_turn_def
       close_handler_def isActive_def stopped_inactive split: worker_pc.splits)

lemma end_callback_idle:
  "fh_inv h \<Longrightarrow> callback_running h \<Longrightarrow> \<not> fh_pending (end_callback h) \<and> \<not> callback_running (end_callback h)"
  by (simp add: fh_inv_def end_callback_def)

lemma failure_starts_callback:
  assumes "fh_reachable delay h" "fh_worker h \<in> {NoWorker, WorkerWaiting}" "\<not> fh_closed h" "\<not> fh_pending h" "t \<ge> now + delay"
  shows "callback_running (worker_turn t (worker_turn now (snd (schedule_failure h))))
    \<and> fh_worker (worker_turn t (worker_turn now (snd (schedule_failure h)))) = WorkerRunning"
proof -
  have "\<not> callback_running h" using fh_reachable_inv [OF assms(1)] assms(2) by (auto simp: fh_inv_def)
  moreover have "fh_delay h = delay"
    using assms(1) by (induction rule: rtranclp_induct) (auto simp: failure_handler_init_def fh_delay_step)
  ultimately show ?thesis
    using assms(2-5) by (auto simp: schedule_failure_def worker_turn_def begin_callback_def)
qed

text \<open>Running again, with nothing to handle and no failed restart.\<close>

definition restarted :: "gst_stream \<Rightarrow> gst_stream \<Rightarrow> bool" where
  "restarted s s' \<longleftrightarrow> isActive (gs_pipeline s') \<and> \<not> fh_pending (gs_handler s') \<and> \<not> callback_running (gs_handler s')
     \<and> restart_failures s' = restart_failures s"

section \<open>Properties\<close>


text \<open>
  There is one restart attempt per failure and none after it fails: when the restart of a
  stream fails, the pipeline stays stopped in every later state, whatever turns of the handler and
  other steps follow, and a failure that the new pipeline reports while the restart is still
  running is dropped.
\<close>

theorem failed_restart_is_final:
  assumes "fh_reachable kRestartDelay (gs_handler s)" "callback_running (gs_handler s)" "\<not> gs_shutdown s"
    and "s' = on_handler end_callback (audio_restartPipelineAfterFailure env s)"
  shows "gs_handler (audio_restartPipelineAfterFailure env s) = gs_handler s
    \<and> \<not> fh_pending (gs_handler s')
    \<and> (restart_failures s' \<noteq> restart_failures s \<and> gsstep\<^sup>*\<^sup>* s' t \<longrightarrow> \<not> isActive (gs_pipeline t))"
proof -
  have inv: "fh_inv (gs_handler s)" by (rule fh_reachable_inv [OF assms(1)])
  obtain r p where rp: "audio_pipeline_start (ge_launch env) (ge_playing env)
      (audio_buildPipelineDescription (gs_source s) (gs_transform s)) (pipeline_stop (gs_pipeline s)) = (r, p)"
    and out: "audio_restartPipelineAfterFailure env s = s\<lparr>gs_pipeline := p,
      restart_failures := restart_failures s @ (case r of Inl e \<Rightarrow> [what e] | Inr u \<Rightarrow> [])\<rparr>"
    using audio_restart_outcome [OF assms(2,3)] .
  have idle: "\<not> fh_pending (gs_handler s') \<and> \<not> callback_running (gs_handler s')"
    using end_callback_idle [OF inv assms(2)] out assms(4) by (simp add: on_handler_def)
  have "stream_dead s'" if "restart_failures s' \<noteq> restart_failures s"
    using that out idle assms(4) audio_start_active [OF rp]
    by (cases r) (auto simp: stream_dead_def on_handler_def)
  then have "\<not> isActive (gs_pipeline t)" if "restart_failures s' \<noteq> restart_failures s" "gsstep\<^sup>*\<^sup>* s' t"
    using dead.down_forever that by (auto simp: stream_dead_def)
  then show ?thesis using idle out by auto
qed

text \<open>
  A failure posted from inside the start of a video stream blocks it: when GStreamer reports a
  failure on the thread that starts the pipeline, the video stream's start does not return, since
  its failure handler takes the mutex the start holds; the audio stream's start returns and has
  scheduled the restart.
\<close>

theorem sync_failure_blocks_video:
  assumes "\<not> gs_shutdown s" "ge_sync_failures env \<noteq> []" "gs_handler s = failure_handler_init kRestartDelay"
  shows "(is_ok (video_prepare (ge_launch env) (video_buildPipelineDescription (gs_source s) (gs_transform s)) False) \<longrightarrow>
      video_stream_start env s = None)
    \<and> (is_ok (audio_prepare (ge_launch env) (audio_buildPipelineDescription (gs_source s) (gs_transform s))) \<longrightarrow>
      (\<exists>r s'. audio_stream_start env s = (r, s') \<and> fh_pending (gs_handler s')))"
proof -
  have pending: "fh_pending (gs_handler (fold audio_onPipelineFailure whys x))" if "fh_pending (gs_handler x)" for whys x
    using that by (induction whys arbitrary: x) (simp_all add: audio_onPipelineFailure_def schedule_failure_def)
  have "fh_pending (gs_handler (fold audio_onPipelineFailure (ge_sync_failures env) (s\<lparr>gs_pipeline := p\<rparr>)))" for p
    using assms by (cases "ge_sync_failures env")
      (simp_all add: pending audio_onPipelineFailure_def schedule_failure_def failure_handler_init_def)
  then show ?thesis
    using assms(1,2)
    by (auto simp: video_stream_start_def video_startPipelineLocked_def audio_stream_start_def audio_startPipelineLocked_def Let_def
        split: prod.split)
qed

section \<open>Runs\<close>

text \<open>A microphone source that parses, plays and is then restarted; and the same with a failure inside the start.\<close>

definition mic_launch :: gst_launch where
  "mic_launch d = (None, Some (Bin [\<lparr>factory_name = ''alsasrc'', element_name = ''a''\<rparr>,
     \<lparr>factory_name = ''appsink'', element_name = kAudioAppSinkName\<rparr>]))"

definition mic_env :: "bool \<Rightarrow> string list \<Rightarrow> gst_env" where
  "mic_env playing failures = \<lparr>ge_launch = mic_launch, ge_playing = playing, ge_sync_failures = failures\<rparr>"

definition mic_stream :: gst_stream where
  "mic_stream = snd (audio_stream_start (mic_env True []) (gst_stream_init ''alsasrc'' []))"

definition mic_failed :: gst_stream where
  "mic_failed = on_handler (worker_turn (ms 250)) (on_handler (worker_turn 0) (audio_onPipelineFailure ''eos'' mic_stream))"

lemma mic_valid: "validatePipeline mic_launch ''c'' d (makeOtherSourceLayout kAudioAppSinkName) = Inr ()"
proof -
  have "validatePipeline mic_launch ''c'' d (makeOtherSourceLayout kAudioAppSinkName)
      = validatePipeline (\<lambda>_. mic_launch []) ''c'' [] (makeOtherSourceLayout kAudioAppSinkName)"
    by (simp add: validatePipeline_def mic_launch_def)
  also have "\<dots> = Inr ()" by code_simp
  finally show ?thesis .
qed

lemma mic_prepared: "is_ok (audio_prepare mic_launch d)"
  by (simp add: audio_prepare_def launch_elements_def mic_launch_def require_endpoint_def get_by_name_def kAudioAppSinkName_def)

lemma mic_stream_state:
  "gs_handler mic_stream = failure_handler_init kRestartDelay" "\<not> gs_shutdown mic_stream" "isActive (gs_pipeline mic_stream)"
  "gs_source mic_stream = ''alsasrc''" "gs_transform mic_stream = []" "restart_failures mic_stream = []"
proof (atomize (full), goal_cases)
  case 1
  let ?d = "audio_buildPipelineDescription ''alsasrc'' []"
  obtain r p where p: "audio_pipeline_start mic_launch True ?d pipeline_init = (r, p)" by fastforce
  have active: "isActive p" using audio_validated_start [OF mic_valid p] by simp
  have m: "mic_stream = (gst_stream_init ''alsasrc'' [])\<lparr>gs_pipeline := p\<rparr>"
    using p by (simp add: mic_stream_def mic_env_def audio_stream_start_def audio_startPipelineLocked_def gst_stream_init_def Let_def)
  show ?case unfolding m using active by (simp add: gst_stream_init_def)
qed


theorem failed_restart_is_final_witness:
  "\<exists>s'. on_handler end_callback (audio_restartPipelineAfterFailure (mic_env False []) mic_failed) = s' \<and> \<not> isActive (gs_pipeline s')"
proof -
  let ?h = "worker_turn (ms 250) (worker_turn 0 (snd (schedule_failure (failure_handler_init kRestartDelay))))"
  let ?s' = "on_handler end_callback (audio_restartPipelineAfterFailure (mic_env False []) mic_failed)"
  have s: "mic_failed = mic_stream\<lparr>gs_handler := ?h\<rparr>"
    by (simp add: mic_failed_def on_handler_def audio_onPipelineFailure_def mic_stream_state)
  have r: "fh_reachable kRestartDelay ?h"
    by (meson Schedule Turn rtranclp.rtrancl_into_rtrancl rtranclp.rtrancl_refl)
  have run: "callback_running ?h"
    by (simp add: fh_defs failure_handler_init_def kRestartDelay_def)
  obtain ra pa where pa: "audio_pipeline_start mic_launch False (audio_buildPipelineDescription ''alsasrc'' [])
      (pipeline_stop (gs_pipeline mic_stream)) = (ra, pa)"
    and out: "audio_restartPipelineAfterFailure (mic_env False []) mic_failed = mic_failed\<lparr>gs_pipeline := pa,
      restart_failures := restart_failures mic_failed @ (case ra of Inl e \<Rightarrow> [what e] | Inr u \<Rightarrow> [])\<rparr>"
    by (rule audio_restart_outcome [of mic_failed "mic_env False []"])
      (use run in \<open>simp_all add: s mic_stream_state mic_env_def\<close>)
  have "ra \<noteq> Inr ()" using audio_validated_start [OF mic_valid pa] by simp
  then have "restart_failures ?s' \<noteq> restart_failures mic_failed" using out by (cases ra) (simp_all add: on_handler_def)
  moreover have "fh_reachable kRestartDelay (gs_handler mic_failed)" "callback_running (gs_handler mic_failed)" "\<not> gs_shutdown mic_failed"
    unfolding s using r run mic_stream_state(2) by simp_all
  ultimately have "\<not> isActive (gs_pipeline ?s')"
    using failed_restart_is_final [of mic_failed ?s' "mic_env False []" ?s'] by simp
  then show ?thesis by blast
qed

theorem sync_failure_blocks_video_witness:
  "\<exists>r s'. audio_stream_start (mic_env True [''lost'']) (gst_stream_init ''alsasrc'' []) = (r, s') \<and> fh_pending (gs_handler s')"
proof -
  have "\<not> gs_shutdown (gst_stream_init ''alsasrc'' [])" "ge_sync_failures (mic_env True [''lost'']) \<noteq> []"
    "gs_handler (gst_stream_init ''alsasrc'' []) = failure_handler_init kRestartDelay"
    by (simp_all add: gst_stream_init_def mic_env_def)
  moreover have "is_ok (audio_prepare (ge_launch (mic_env True [''lost''])) d)" for d using mic_prepared by (simp add: mic_env_def)
  ultimately show ?thesis using sync_failure_blocks_video [of "gst_stream_init ''alsasrc'' []" "mic_env True [''lost'']"] by blast
qed

end
