(* ===== verification/Stream_Locks.thy ===== *)
theory Stream_Locks
  imports Callback_Gate
begin

text \<open>
  Stopping a pipeline while its streaming thread is in the sample callback. The stopping thread
  (\<open>stopPipelineAfterFailure\<close>, \<open>restartPipelineAfterFailure\<close>, \<open>onRawImage\<close>) holds the stream's mutex
  while \<open>stop\<close> sets the stop bit and waits until no callback is running. The callback asks
  \<open>is_shutdown\<close>: the video streams take the mutex for it (src/src/video/ros_stream.cpp,
  src/src/video/gstreamer_stream.cpp), the audio stream reads an atomic flag
  (src/src/audio/gstreamer_stream.cpp). \<open>lk_mutex_query\<close> says which of the two it is.
\<close>

section \<open>Model\<close>

datatype stopper_pc = BeforeStop | HoldsMutex | WaitsForCallbacks | StopDone

datatype sampler_pc = BeforeSample | InCallback | InQuery | SampleDone

datatype holder = Free | ByStopper | BySampler

record stream_locks =
  lk_mutex_query :: bool
  lk_stopper :: stopper_pc
  lk_sampler :: sampler_pc
  lk_mutex :: holder
  lk_word :: "64 word"

definition locks_init :: "bool \<Rightarrow> stream_locks" where
  "locks_init query = \<lparr>lk_mutex_query = query, lk_stopper = BeforeStop, lk_sampler = BeforeSample, lk_mutex = Free, lk_word = 0\<rparr>"

text \<open>One step of each thread, \<open>None\<close> while it is blocked or done.\<close>

definition stopper_step :: "stream_locks \<Rightarrow> stream_locks option" where
  "stopper_step l =
     (case lk_stopper l of
        BeforeStop \<Rightarrow> if lk_mutex l = Free then Some (l\<lparr>lk_stopper := HoldsMutex, lk_mutex := ByStopper\<rparr>) else None
      | HoldsMutex \<Rightarrow> Some (l\<lparr>lk_stopper := WaitsForCallbacks, lk_word := stop_use (lk_word l)\<rparr>)
      | WaitsForCallbacks \<Rightarrow>
          if use_count (lk_word l) = 0 then Some (l\<lparr>lk_stopper := StopDone, lk_mutex := Free\<rparr>) else None
      | StopDone \<Rightarrow> None)"

definition sampler_step :: "stream_locks \<Rightarrow> stream_locks option" where
  "sampler_step l =
     (case lk_sampler l of
        BeforeSample \<Rightarrow>
          (case beginUse (lk_word l) of
             None \<Rightarrow> Some (l\<lparr>lk_sampler := SampleDone\<rparr>)
           | Some w \<Rightarrow> Some (l\<lparr>lk_sampler := InCallback, lk_word := w\<rparr>))
      | InCallback \<Rightarrow>
          if \<not> lk_mutex_query l then Some (l\<lparr>lk_sampler := InQuery\<rparr>)
          else if lk_mutex l = Free then Some (l\<lparr>lk_sampler := InQuery, lk_mutex := BySampler\<rparr>)
          else None
      | InQuery \<Rightarrow>
          Some (l\<lparr>lk_sampler := SampleDone, lk_mutex := (if lk_mutex_query l then Free else lk_mutex l), lk_word := endUse (lk_word l)\<rparr>)
      | SampleDone \<Rightarrow> None)"

inductive lkstep :: "stream_locks \<Rightarrow> stream_locks \<Rightarrow> bool" where
  Stopper: "stopper_step l = Some l' \<Longrightarrow> lkstep l l'"
| Sampler: "sampler_step l = Some l' \<Longrightarrow> lkstep l l'"

inductive_cases lkstepE: "lkstep l l'"

definition deadlocked :: "stream_locks \<Rightarrow> bool" where
  "deadlocked l \<longleftrightarrow> stopper_step l = None \<and> sampler_step l = None
     \<and> \<not> (lk_stopper l = StopDone \<and> lk_sampler l = SampleDone)"

section \<open>Invariant\<close>

definition locks_inv :: "bool \<Rightarrow> stream_locks \<Rightarrow> bool" where
  "locks_inv query l \<longleftrightarrow> lk_mutex_query l = query
     \<and> use_count (lk_word l) = (if lk_sampler l \<in> {InCallback, InQuery} then 1 else 0)
     \<and> (lk_mutex l = ByStopper \<longleftrightarrow> lk_stopper l \<in> {HoldsMutex, WaitsForCallbacks})
     \<and> (lk_mutex l = BySampler \<longleftrightarrow> query \<and> lk_sampler l = InQuery)"

lemma locks_inv_init: "locks_inv query (locks_init query)"
  by (simp add: locks_inv_def locks_init_def use_count_def)

lemma locks_inv_step:
  assumes "lkstep l l'" "locks_inv query l"
  shows "locks_inv query l'"
  using assms(1)
proof cases
  case Stopper
  with assms(2) stop_use_stops [of "lk_word l"] show ?thesis
    by (auto simp: stopper_step_def locks_inv_def split: stopper_pc.splits if_splits)
next
  case Sampler
  have enter: "use_count w = 1" if "beginUse (lk_word l) = Some w" "use_count (lk_word l) = 0" for w
    using beginUse_counts [OF that(1)] that(2) by simp
  have exit: "use_count (endUse (lk_word l)) = 0" if "use_count (lk_word l) = Suc 0"
    using endUse_counts [of "lk_word l"] that by simp
  from Sampler assms(2) enter exit show ?thesis
    by (cases "lk_sampler l") (auto simp: sampler_step_def locks_inv_def split: option.splits if_splits)
qed

lemma locks_reachable_inv: "lkstep\<^sup>*\<^sup>* (locks_init query) l \<Longrightarrow> locks_inv query l"
  by (induction rule: rtranclp_induct) (auto intro: locks_inv_init locks_inv_step)

section \<open>Properties\<close>



end
