(* ===== verification/Ros_Stream.thy ===== *)
theory Ros_Stream
  imports Media_Streams Stream_Config
begin

text \<open>
  The stream that feeds ROS images into a video pipeline (src/src/video/ros_stream.cpp): the
  mapping of encodings and codecs, starting and restarting the pipeline for the layout or codec of
  the images, pushing them, failures and closing. \<open>rs_description\<close> is the description the running
  pipeline was started with; pushed images are recorded with it. A call that would wait for the
  mutex its own thread holds has no result (see the note on synchronous failures in
  Media_Streams).
\<close>

section \<open>Encodings and codecs\<close>

datatype gst_video_format = GRAY8 | GRAY16_LE | RGB | BGR | RGBA | BGRA | UYVY | YUY2

definition formatFromRosEncoding :: "string \<Rightarrow> gst_video_format option" where
  "formatFromRosEncoding encoding =
     (if encoding = ''mono8'' then Some GRAY8
      else if encoding = ''mono16'' then Some GRAY16_LE
      else if encoding = ''rgb8'' then Some RGB
      else if encoding = ''bgr8'' then Some BGR
      else if encoding = ''rgba8'' then Some RGBA
      else if encoding = ''bgra8'' then Some BGRA
      else if encoding = ''yuv422'' then Some UYVY
      else if encoding = ''yuv422_yuy2'' then Some YUY2
      else None)"

text \<open>\<open>gst_video_format_to_string\<close>.\<close>

fun format_to_string :: "gst_video_format \<Rightarrow> string" where
  "format_to_string GRAY8 = ''GRAY8''"
| "format_to_string GRAY16_LE = ''GRAY16_LE''"
| "format_to_string RGB = ''RGB''"
| "format_to_string BGR = ''BGR''"
| "format_to_string RGBA = ''RGBA''"
| "format_to_string BGRA = ''BGRA''"
| "format_to_string UYVY = ''UYVY''"
| "format_to_string YUY2 = ''YUY2''"

definition to_lower :: "char \<Rightarrow> char" where
  "to_lower c = (let n = (of_char c :: nat) in if 65 \<le> n \<and> n \<le> 90 then char_of (n + 32) else c)"

definition parse_codec_token :: "string \<Rightarrow> string option" where
  "parse_codec_token text =
     (let token = map to_lower (takeWhile (\<lambda>c. c \<notin> {CHR '' '', CHR 0x09, CHR 0x0D, CHR 0x0A}) (trim text)) in
      if token = ''jpeg'' \<or> token = ''jpg'' then Some ''jpeg''
      else if token = ''png'' then Some ''png''
      else None)"

definition parseCompressedCodec :: "string \<Rightarrow> string option" where
  "parseCompressedCodec text =
     (case parse_codec_token (takeWhile (\<lambda>c. c \<noteq> CHR '';'') text) of
        Some codec \<Rightarrow> Some codec
      | None \<Rightarrow>
          if CHR '';'' \<notin> set text then None
          else parse_codec_token (tl (dropWhile (\<lambda>c. c \<noteq> CHR '';'') text)))"

section \<open>Images and pipelines\<close>

record raw_layout =
  lay_width :: int
  lay_height :: int
  lay_format :: gst_video_format
  lay_stride :: "32 word"

record ros_image =
  img_encoding :: string
  img_width :: "32 word"
  img_height :: "32 word"
  img_step :: "32 word"

definition image_layout :: "gst_video_format \<Rightarrow> ros_image \<Rightarrow> raw_layout" where
  "image_layout f img = \<lparr>lay_width = sint (img_width img), lay_height = sint (img_height img), lay_format = f, lay_stride = img_step img\<rparr>"

text \<open>\<open>std::to_string\<close> of an \<open>int\<close>.\<close>

fun nat_text :: "nat \<Rightarrow> string" where
  "nat_text n = (if n < 10 then [char_of (48 + n)] else nat_text (n div 10) @ [char_of (48 + n mod 10)])"

declare nat_text.simps [simp del]

definition int_text :: "int \<Rightarrow> string" where
  "int_text i = (if i < 0 then CHR ''-'' # nat_text (nat (- i)) else nat_text (nat i))"

definition appsrc_text :: string where
  "appsrc_text = ''appsrc name='' @ kVideoAppSrcName @ '' is-live=true block=false format=time do-timestamp=true''"

definition raw_description :: "raw_layout \<Rightarrow> string \<Rightarrow> string" where
  "raw_description l transform = video_buildPipelineDescription
     (appsrc_text @ '' caps=video/x-raw,format='' @ format_to_string (lay_format l) @ '',width='' @ int_text (lay_width l)
        @ '',height='' @ int_text (lay_height l) @ '',framerate=0/1'') transform"

definition compressed_description :: "string \<Rightarrow> string \<Rightarrow> string" where
  "compressed_description codec transform = video_buildPipelineDescription
     (appsrc_text @ (if codec = ''jpeg'' then '' caps=image/jpeg ! jpegdec'' else '' caps=image/png ! pngdec'')) transform"

text \<open>
  \<open>makeStampedBuffer\<close>: the buffer's bytes and presentation time. A negative time point is refused
  by \<open>rclcpp::Time\<close>.
\<close>

definition makeStampedBuffer :: "bool \<Rightarrow> bool \<Rightarrow> bytes \<Rightarrow> 32 word \<Rightarrow> 32 word \<Rightarrow> (bytes \<times> 64 word) res" where
  "makeStampedBuffer allocated mapped data sec nanosec =
     (if \<not> allocated then Inl (Runtime_error ''Failed to allocate GStreamer buffer.'')
      else if \<not> mapped then Inl (Runtime_error ''Failed to map GStreamer buffer.'')
      else if sint sec < 0 then Inl (Runtime_error ''cannot store a negative time point in rclcpp::Time'')
      else Inr (data, of_int (sint sec * 1000000000 + uint nanosec)))"

section \<open>The stream\<close>

record ros_env =
  re_gst :: gst_env
  re_buffer :: "unit res"  \<comment> \<open>\<open>makeStampedBuffer\<close>\<close>
  re_push :: bool  \<comment> \<open>the appsrc took the buffer\<close>

record ros_stream =
  rs_transform :: string
  rs_shutdown :: bool
  rs_subscribed :: "ros_ingest_mode option"
  rs_layout :: "raw_layout option"
  rs_codec :: "string option"
  rs_pipeline :: media_pipeline
  rs_handler :: failure_handler
  rs_description :: "string option"
  pushed_raw :: "(string option \<times> raw_layout) list"
  pushed_compressed :: "(string option \<times> string) list"
  push_failures :: "string list"

definition ros_stream_init :: "string \<Rightarrow> ros_stream" where
  "ros_stream_init transform = \<lparr>rs_transform = transform, rs_shutdown = False, rs_subscribed = None, rs_layout = None, rs_codec = None,
     rs_pipeline = pipeline_init, rs_handler = failure_handler_init 0, rs_description = None, pushed_raw = [], pushed_compressed = [],
     push_failures = []\<rparr>"

text \<open>\<open>start\<close>: the QoS is resolved and one subscription made, of the kind the spec asks for.\<close>

definition ros_stream_start :: "stream_spec \<Rightarrow> unit res \<Rightarrow> unit res \<Rightarrow> ros_stream \<Rightarrow> unit res \<times> ros_stream" where
  "ros_stream_start spec qos subscription s =
     (if rs_shutdown s then (Inl (Runtime_error ''Video stream is shut down.''), s)
      else if rs_subscribed s \<noteq> None then (Inr (), s)
      else (case res_bind (requireRosInput spec) (\<lambda>input. res_bind qos (\<lambda>_. res_bind subscription (\<lambda>_. Inr input))) of
              Inl e \<Rightarrow> (Inl e, s)
            | Inr input \<Rightarrow> (Inr (), s\<lparr>rs_subscribed := Some (ri_ingest_mode input)\<rparr>)))"

definition resetPipelineStateLocked :: "ros_stream \<Rightarrow> ros_stream" where
  "resetPipelineStateLocked s = s\<lparr>rs_layout := None, rs_codec := None, rs_handler := cancelPending (rs_handler s)\<rparr>"

definition stop_pipeline :: "ros_stream \<Rightarrow> ros_stream" where
  "stop_pipeline s = s\<lparr>rs_pipeline := pipeline_stop (rs_pipeline s), rs_description := None\<rparr>"

text \<open>The handler of the \<open>try\<close> block of both image callbacks.\<close>

definition image_failed :: "exn \<Rightarrow> ros_stream \<Rightarrow> ros_stream" where
  "image_failed e s = stop_pipeline (resetPipelineStateLocked (s\<lparr>push_failures := push_failures s @ [what e]\<rparr>))"

definition start_appsrc :: "gst_env \<Rightarrow> string \<Rightarrow> ros_stream \<Rightarrow> (unit res \<times> ros_stream) option" where
  "start_appsrc env description s =
     (if is_ok (video_prepare (ge_launch env) description True) \<and> ge_sync_failures env \<noteq> [] then None
      else (let (r, p) = video_pipeline_start (ge_launch env) (ge_playing env) description True (rs_pipeline s)
            in Some (r, s\<lparr>rs_pipeline := p, rs_description := (if isActive p then Some description else None)\<rparr>)))"

definition startRawPipelineLocked :: "gst_env \<Rightarrow> raw_layout \<Rightarrow> ros_stream \<Rightarrow> (unit res \<times> ros_stream) option" where
  "startRawPipelineLocked env l s =
     (case start_appsrc env (raw_description l (rs_transform s)) s of
        None \<Rightarrow> None
      | Some (Inl e, s') \<Rightarrow> Some (Inl e, s')
      | Some (Inr u, s') \<Rightarrow> Some (Inr u, s'\<lparr>rs_layout := Some l\<rparr>))"

definition pushRawLocked :: "ros_env \<Rightarrow> raw_layout \<Rightarrow> ros_stream \<Rightarrow> ros_stream" where
  "pushRawLocked env l s =
     (case re_buffer env of
        Inl e \<Rightarrow> image_failed e s
      | Inr _ \<Rightarrow>
          if re_push env then s\<lparr>pushed_raw := (rs_description s, l) # pushed_raw s\<rparr>
          else image_failed (Runtime_error ''Failed to push raw ROS image into GStreamer.'') s)"

definition onRawImage :: "ros_env \<Rightarrow> ros_image \<Rightarrow> ros_stream \<Rightarrow> ros_stream option" where
  "onRawImage env img s =
     (if rs_shutdown s then Some s
      else (case formatFromRosEncoding (img_encoding img) of
        None \<Rightarrow> Some (image_failed (Runtime_error (''Unsupported ROS image encoding '' @ quoted (img_encoding img) @ ''.'')) s)
      | Some f \<Rightarrow>
          (let l = image_layout f img in
           if rs_layout s = Some l \<and> isActive (rs_pipeline s) then Some (pushRawLocked env l s)
           else (case startRawPipelineLocked (re_gst env) l (stop_pipeline (resetPipelineStateLocked s)) of
                   None \<Rightarrow> None
                 | Some (Inl e, s') \<Rightarrow> Some (image_failed e s')
                 | Some (Inr _, s') \<Rightarrow> Some (pushRawLocked env l s')))))"

definition startCompressedPipelineLocked :: "gst_env \<Rightarrow> string \<Rightarrow> ros_stream \<Rightarrow> (unit res \<times> ros_stream) option" where
  "startCompressedPipelineLocked env codec s =
     (case start_appsrc env (compressed_description codec (rs_transform s)) s of
        None \<Rightarrow> None
      | Some (Inl e, s') \<Rightarrow> Some (Inl e, s')
      | Some (Inr u, s') \<Rightarrow> Some (Inr u, s'\<lparr>rs_codec := Some codec\<rparr>))"

definition push_compressed :: "ros_env \<Rightarrow> string \<Rightarrow> ros_stream \<Rightarrow> ros_stream" where
  "push_compressed env codec s =
     (case re_buffer env of
        Inl e \<Rightarrow> image_failed e s
      | Inr _ \<Rightarrow>
          if re_push env then s\<lparr>pushed_compressed := (rs_description s, codec) # pushed_compressed s\<rparr>
          else image_failed (Runtime_error ''Failed to push compressed ROS image into GStreamer.'') s)"

definition onCompressedImage :: "ros_env \<Rightarrow> string \<Rightarrow> ros_stream \<Rightarrow> ros_stream option" where
  "onCompressedImage env text s =
     (if rs_shutdown s then Some s
      else (case parseCompressedCodec text of
        None \<Rightarrow> Some (image_failed (Runtime_error (''Unsupported compressed image format '' @ quoted text @ ''.'')) s)
      | Some codec \<Rightarrow>
          if rs_codec s = Some codec \<and> isActive (rs_pipeline s) then Some (push_compressed env codec s)
          else (case startCompressedPipelineLocked (re_gst env) codec (stop_pipeline (resetPipelineStateLocked s)) of
                  None \<Rightarrow> None
                | Some (Inl e, s') \<Rightarrow> Some (image_failed e s')
                | Some (Inr _, s') \<Rightarrow> Some (push_compressed env codec s'))))"

definition ros_onPipelineFailure :: "ros_stream \<Rightarrow> ros_stream" where
  "ros_onPipelineFailure s =
     (if rs_shutdown s \<or> \<not> isActive (rs_pipeline s) then s else s\<lparr>rs_handler := snd (schedule_failure (rs_handler s))\<rparr>)"

definition stopPipelineAfterFailure :: "ros_stream \<Rightarrow> ros_stream" where
  "stopPipelineAfterFailure s = (if rs_shutdown s then s else stop_pipeline (resetPipelineStateLocked s))"

definition ros_close_request :: "ros_stream \<Rightarrow> ros_stream" where
  "ros_close_request s =
     (if rs_shutdown s then s
      else s\<lparr>rs_shutdown := True, rs_subscribed := None, rs_handler := close_handler (rs_handler s)\<rparr>)"

definition ros_close_finish :: "ros_stream \<Rightarrow> ros_stream" where
  "ros_close_finish s = stop_pipeline s"

inductive rsstep :: "ros_stream \<Rightarrow> ros_stream \<Rightarrow> bool" where
  Start: "rsstep s (snd (ros_stream_start spec qos subscription s))"
| Raw_image: "onRawImage env img s = Some s' \<Longrightarrow> rsstep s s'"
| Compressed_image: "onCompressedImage env text s = Some s' \<Longrightarrow> rsstep s s'"
| Failure: "rsstep s (ros_onPipelineFailure s)"
| Handler: "rsstep s (s\<lparr>rs_handler := worker_turn now (rs_handler s)\<rparr>)"
| Failure_callback: "callback_running (rs_handler s) \<Longrightarrow>
    rsstep s ((stopPipelineAfterFailure s)\<lparr>rs_handler := end_callback (rs_handler (stopPipelineAfterFailure s))\<rparr>)"
| Close_request: "rsstep s (ros_close_request s)"
| Close_finish: "rs_shutdown s \<Longrightarrow> close_may_return (rs_handler s) \<Longrightarrow> rsstep s (ros_close_finish s)"

inductive_cases rsstepE: "rsstep s s'"

abbreviation rs_reachable :: "string \<Rightarrow> ros_stream \<Rightarrow> bool" where
  "rs_reachable transform s \<equiv> rsstep\<^sup>*\<^sup>* (ros_stream_init transform) s"

section \<open>Invariant\<close>

text \<open>The state of an active pipeline describes it, and what was pushed went to a pipeline made for it.\<close>

definition rs_inv :: "ros_stream \<Rightarrow> bool" where
  "rs_inv s \<longleftrightarrow>
     (\<forall>l. isActive (rs_pipeline s) \<and> rs_layout s = Some l \<longrightarrow> rs_description s = Some (raw_description l (rs_transform s)))
     \<and> (\<forall>c. isActive (rs_pipeline s) \<and> rs_codec s = Some c \<longrightarrow> rs_description s = Some (compressed_description c (rs_transform s)))
     \<and> (\<forall>(d, l) \<in> set (pushed_raw s). d = Some (raw_description l (rs_transform s)))
     \<and> (\<forall>(d, c) \<in> set (pushed_compressed s). d = Some (compressed_description c (rs_transform s)))"

lemma rs_inv_init: "rs_inv (ros_stream_init transform)"
  by (simp add: rs_inv_def ros_stream_init_def)

lemma stop_pipeline_inactive: "\<not> isActive (rs_pipeline (stop_pipeline s))"
  by (simp add: stop_pipeline_def isActive_def stopped_inactive)

lemma rs_inv_stopped: "rs_inv s \<Longrightarrow> rs_inv (stop_pipeline s)"
  by (simp add: rs_inv_def stop_pipeline_inactive) (simp add: stop_pipeline_def)

lemma rs_inv_reset: "rs_inv s \<Longrightarrow> rs_inv (resetPipelineStateLocked s)"
  by (simp add: rs_inv_def resetPipelineStateLocked_def)

lemma rs_inv_failed: "rs_inv s \<Longrightarrow> rs_inv (image_failed e s)"
  unfolding image_failed_def by (intro rs_inv_stopped rs_inv_reset) (simp add: rs_inv_def)

lemma rs_inv_handler: "rs_inv s \<Longrightarrow> rs_inv (s\<lparr>rs_handler := h\<rparr>)"
  by (simp add: rs_inv_def)

lemma start_appsrc_outcome:
  assumes "start_appsrc env description s = Some (r, s')"
  obtains p where "s' = s\<lparr>rs_pipeline := p, rs_description := (if r = Inr () then Some description else None)\<rparr>"
    and "isActive p \<longleftrightarrow> r = Inr ()"
proof -
  obtain p where p: "video_pipeline_start (ge_launch env) (ge_playing env) description True (rs_pipeline s) = (r, p)"
    "s' = s\<lparr>rs_pipeline := p, rs_description := (if isActive p then Some description else None)\<rparr>"
    using assms by (auto simp: start_appsrc_def Let_def split: if_splits prod.splits)
  with video_start_active [OF p(1)] that show thesis by auto
qed

text \<open>A start after a reset: afterwards the stream state is that of the new description, or nothing runs.\<close>

lemma start_raw_inv:
  assumes "rs_inv s" "startRawPipelineLocked env l (stop_pipeline (resetPipelineStateLocked s)) = Some (r, s')"
  shows "rs_inv s' \<and> (r = Inr () \<longrightarrow> isActive (rs_pipeline s') \<and> rs_layout s' = Some l) \<and> rs_transform s' = rs_transform s
    \<and> pushed_raw s' = pushed_raw s"
proof -
  let ?s = "stop_pipeline (resetPipelineStateLocked s)"
  have clean: "rs_layout ?s = None" "rs_codec ?s = None" "rs_transform ?s = rs_transform s" "pushed_raw ?s = pushed_raw s"
    "pushed_compressed ?s = pushed_compressed s"
    by (simp_all add: stop_pipeline_def resetPipelineStateLocked_def)
  obtain s0 where s0: "start_appsrc env (raw_description l (rs_transform ?s)) ?s = Some (r, s0)"
    "s' = (if r = Inr () then s0\<lparr>rs_layout := Some l\<rparr> else s0)"
    using assms(2) by (auto simp: startRawPipelineLocked_def split: option.splits sum.splits)
  from start_appsrc_outcome [OF s0(1)] obtain p where
    "s0 = ?s\<lparr>rs_pipeline := p, rs_description := (if r = Inr () then Some (raw_description l (rs_transform ?s)) else None)\<rparr>"
    "isActive p \<longleftrightarrow> r = Inr ()" .
  then show ?thesis using assms(1) clean s0(2) by (cases "r = Inr ()") (simp_all add: rs_inv_def)
qed

lemma start_compressed_inv:
  assumes "rs_inv s" "startCompressedPipelineLocked env codec (stop_pipeline (resetPipelineStateLocked s)) = Some (r, s')"
  shows "rs_inv s' \<and> (r = Inr () \<longrightarrow> isActive (rs_pipeline s') \<and> rs_codec s' = Some codec)"
proof -
  let ?s = "stop_pipeline (resetPipelineStateLocked s)"
  have clean: "rs_layout ?s = None" "rs_codec ?s = None" "rs_transform ?s = rs_transform s" "pushed_raw ?s = pushed_raw s"
    "pushed_compressed ?s = pushed_compressed s"
    by (simp_all add: stop_pipeline_def resetPipelineStateLocked_def)
  obtain s0 where s0: "start_appsrc env (compressed_description codec (rs_transform ?s)) ?s = Some (r, s0)"
    "s' = (if r = Inr () then s0\<lparr>rs_codec := Some codec\<rparr> else s0)"
    using assms(2) by (auto simp: startCompressedPipelineLocked_def split: option.splits sum.splits)
  from start_appsrc_outcome [OF s0(1)] obtain p where
    "s0 = ?s\<lparr>rs_pipeline := p, rs_description := (if r = Inr () then Some (compressed_description codec (rs_transform ?s)) else None)\<rparr>"
    "isActive p \<longleftrightarrow> r = Inr ()" .
  then show ?thesis using assms(1) clean s0(2) by (cases "r = Inr ()") (simp_all add: rs_inv_def)
qed

lemma push_raw_inv:
  "rs_inv s \<Longrightarrow> isActive (rs_pipeline s) \<Longrightarrow> rs_layout s = Some l \<Longrightarrow> rs_inv (pushRawLocked env l s)"
  by (auto simp: pushRawLocked_def rs_inv_failed split: sum.split) (auto simp: rs_inv_def)

lemma push_compressed_inv:
  "rs_inv s \<Longrightarrow> isActive (rs_pipeline s) \<Longrightarrow> rs_codec s = Some c \<Longrightarrow> rs_inv (push_compressed env c s)"
  by (auto simp: push_compressed_def rs_inv_failed split: sum.split) (auto simp: rs_inv_def)

lemma onRawImage_inv:
  assumes "onRawImage env img s = Some s'" "rs_inv s"
  shows "rs_inv s'"
proof (cases "rs_shutdown s \<or> formatFromRosEncoding (img_encoding img) = None")
  case True
  with assms show ?thesis by (auto simp: onRawImage_def rs_inv_failed split: if_splits)
next
  case False
  then obtain f where f: "formatFromRosEncoding (img_encoding img) = Some f" "\<not> rs_shutdown s" by auto
  let ?l = "image_layout f img"
  show ?thesis
  proof (cases "rs_layout s = Some ?l \<and> isActive (rs_pipeline s)")
    case True
    with assms f push_raw_inv show ?thesis by (auto simp: onRawImage_def Let_def)
  next
    case False
    then obtain r s1 where 1: "startRawPipelineLocked (re_gst env) ?l (stop_pipeline (resetPipelineStateLocked s)) = Some (r, s1)"
      and s': "s' = (case r of Inl e \<Rightarrow> image_failed e s1 | Inr u \<Rightarrow> pushRawLocked env ?l s1)"
      using assms(1) f by (auto simp: onRawImage_def Let_def split: option.splits sum.splits)
    from start_raw_inv [OF assms(2) 1] s' push_raw_inv rs_inv_failed show ?thesis by (cases r) auto
  qed
qed

lemma onCompressedImage_inv:
  assumes "onCompressedImage env text s = Some s'" "rs_inv s"
  shows "rs_inv s'"
proof (cases "rs_shutdown s \<or> parseCompressedCodec text = None")
  case True
  with assms show ?thesis by (auto simp: onCompressedImage_def rs_inv_failed split: if_splits)
next
  case False
  then obtain c where c: "parseCompressedCodec text = Some c" "\<not> rs_shutdown s" by auto
  show ?thesis
  proof (cases "rs_codec s = Some c \<and> isActive (rs_pipeline s)")
    case True
    with assms c push_compressed_inv show ?thesis by (auto simp: onCompressedImage_def)
  next
    case False
    then obtain r s1 where 1: "startCompressedPipelineLocked (re_gst env) c (stop_pipeline (resetPipelineStateLocked s)) = Some (r, s1)"
      and s': "s' = (case r of Inl e \<Rightarrow> image_failed e s1 | Inr u \<Rightarrow> push_compressed env c s1)"
      using assms(1) c by (auto simp: onCompressedImage_def split: option.splits sum.splits)
    from start_compressed_inv [OF assms(2) 1] s' push_compressed_inv rs_inv_failed show ?thesis by (cases r) auto
  qed
qed

lemma rs_inv_step: "rsstep s s' \<Longrightarrow> rs_inv s \<Longrightarrow> rs_inv s'"
proof (erule rsstepE)
  fix spec qos subscription assume "s' = snd (ros_stream_start spec qos subscription s)" "rs_inv s"
  then show "rs_inv s'" by (auto simp: ros_stream_start_def rs_inv_def split: sum.split)
next
  assume "s' = (stopPipelineAfterFailure s)\<lparr>rs_handler := end_callback (rs_handler (stopPipelineAfterFailure s))\<rparr>" "rs_inv s"
  moreover from this have "rs_inv (stopPipelineAfterFailure s)"
    by (simp add: stopPipelineAfterFailure_def rs_inv_stopped rs_inv_reset)
  ultimately show "rs_inv s'" by (simp add: rs_inv_handler)
next
  assume "s' = ros_close_request s" "rs_inv s"
  then show "rs_inv s'" by (simp add: ros_close_request_def rs_inv_def)
qed (simp_all add: onRawImage_inv onCompressedImage_inv ros_onPipelineFailure_def ros_close_finish_def rs_inv_handler rs_inv_stopped)

lemma rs_reachable_inv: "rs_reachable transform s \<Longrightarrow> rs_inv s"
  by (induction rule: rtranclp_induct) (auto intro: rs_inv_init rs_inv_step)

lemma rs_transform_step: "rsstep s s' \<Longrightarrow> rs_transform s' = rs_transform s"
proof (erule rsstepE)
  fix env img assume "onRawImage env img s = Some s'"
  then show "rs_transform s' = rs_transform s"
    by (auto simp: onRawImage_def startRawPipelineLocked_def start_appsrc_def pushRawLocked_def image_failed_def stop_pipeline_def
        resetPipelineStateLocked_def Let_def split: if_splits option.splits sum.splits prod.splits)
next
  fix env fmt assume "onCompressedImage env fmt s = Some s'"
  then show "rs_transform s' = rs_transform s"
    by (auto simp: onCompressedImage_def startCompressedPipelineLocked_def start_appsrc_def push_compressed_def image_failed_def
        stop_pipeline_def resetPipelineStateLocked_def Let_def split: if_splits option.splits sum.splits prod.splits)
qed (auto simp: ros_stream_start_def ros_onPipelineFailure_def stopPipelineAfterFailure_def ros_close_request_def ros_close_finish_def
    stop_pipeline_def resetPipelineStateLocked_def split: sum.split)

lemma rs_reachable_transform: "rs_reachable transform s \<Longrightarrow> rs_transform s = transform"
  by (induction rule: rtranclp_induct) (auto simp: ros_stream_init_def rs_transform_step)

section \<open>Properties\<close>

text \<open>
  An image is pushed only into a pipeline made for it: in every state the stream can reach, over
  any order of images, layout and codec changes, failures and closing, each raw image went to a
  pipeline whose caps name that image's format, width and height, and each compressed one to a
  pipeline with the decoder of its codec, both with the configured transform.
\<close>

theorem images_match_pipeline:
  assumes "rs_reachable transform s"
  shows "((d, l) \<in> set (pushed_raw s) \<longrightarrow> d = Some (raw_description l transform))
    \<and> ((d', c) \<in> set (pushed_compressed s) \<longrightarrow> d' = Some (compressed_description c transform))"
  using rs_reachable_inv [OF assms] rs_reachable_transform [OF assms] by (auto simp: rs_inv_def)

text \<open>
  The next good image recovers the stream: in every reachable state of an open stream, whatever
  failed before, a raw image of a supported encoding is delivered to an active pipeline for its
  layout, provided the pipeline parses and plays and the appsrc takes the buffer.
\<close>

theorem good_image_recovers:
  assumes "rs_reachable transform s" "\<not> rs_shutdown s" "formatFromRosEncoding (img_encoding img) = Some f"
    and "is_ok (video_prepare (ge_launch (re_gst env)) (raw_description (image_layout f img) transform) True)"
    and "ge_playing (re_gst env)" "ge_sync_failures (re_gst env) = []" "re_buffer env = Inr ()" "re_push env"
  shows "\<exists>s'. onRawImage env img s = Some s' \<and> isActive (rs_pipeline s') \<and> rs_layout s' = Some (image_layout f img)
    \<and> pushed_raw s' = (Some (raw_description (image_layout f img) transform), image_layout f img) # pushed_raw s"
proof -
  let ?l = "image_layout f img"
  have inv: "rs_inv s" and tr: "rs_transform s = transform"
    using rs_reachable_inv [OF assms(1)] rs_reachable_transform [OF assms(1)] .
  have push: "pushRawLocked env ?l x = x\<lparr>pushed_raw := (rs_description x, ?l) # pushed_raw x\<rparr>" for x
    using assms(7,8) by (simp add: pushRawLocked_def)
  show ?thesis
  proof (cases "rs_layout s = Some ?l \<and> isActive (rs_pipeline s)")
    case True
    then have "rs_description s = Some (raw_description ?l transform)" using inv tr by (simp add: rs_inv_def)
    with True push assms(2,3) show ?thesis by (simp add: onRawImage_def Let_def)
  next
    case False
    let ?s = "stop_pipeline (resetPipelineStateLocked s)"
    have tr': "rs_transform ?s = transform" using tr by (simp add: stop_pipeline_def resetPipelineStateLocked_def)
    obtain r p where p: "video_pipeline_start (ge_launch (re_gst env)) (ge_playing (re_gst env)) (raw_description ?l transform) True (rs_pipeline ?s) = (r, p)"
      by fastforce
    have r: "r = Inr ()"
      using p assms(4,5) by (auto simp: video_pipeline_start_def play_def is_ok_def Let_def split: sum.splits)
    then obtain s1 where 1: "startRawPipelineLocked (re_gst env) ?l ?s = Some (Inr (), s1)"
      using p assms(6) tr' by (simp add: startRawPipelineLocked_def start_appsrc_def Let_def)
    note started = start_raw_inv [OF inv 1]
    then have "rs_description s1 = Some (raw_description ?l transform)" using tr by (simp add: rs_inv_def)
    moreover have "onRawImage env img s = Some (pushRawLocked env ?l s1)"
      using False 1 assms(2,3) by (auto simp: onRawImage_def Let_def)
    ultimately show ?thesis using push started by simp
  qed
qed

section \<open>A run\<close>

definition cam_launch :: gst_launch where
  "cam_launch d = (None, Some (Bin [\<lparr>factory_name = ''appsrc'', element_name = kVideoAppSrcName\<rparr>,
     \<lparr>factory_name = ''appsink'', element_name = kVideoAppSinkName\<rparr>]))"

definition cam_env :: ros_env where
  "cam_env = \<lparr>re_gst = \<lparr>ge_launch = cam_launch, ge_playing = True, ge_sync_failures = []\<rparr>, re_buffer = Inr (), re_push = True\<rparr>"

definition cam_image :: ros_image where
  "cam_image = \<lparr>img_encoding = ''rgb8'', img_width = 640, img_height = 480, img_step = 1920\<rparr>"

lemma cam_prepared: "is_ok (video_prepare cam_launch d True)"
  by (simp add: video_prepare_def launch_elements_def cam_launch_def require_endpoint_def get_by_name_def kVideoAppSinkName_def kVideoAppSrcName_def)

theorem good_image_recovers_witness:
  "\<exists>s'. onRawImage cam_env cam_image (ros_stream_init []) = Some s' \<and> isActive (rs_pipeline s')"
proof -
  have "rs_reachable [] (ros_stream_init [])" by simp
  moreover have "\<not> rs_shutdown (ros_stream_init [])" by (simp add: ros_stream_init_def)
  moreover have "formatFromRosEncoding (img_encoding cam_image) = Some RGB" by (simp add: cam_image_def formatFromRosEncoding_def)
  moreover have "is_ok (video_prepare (ge_launch (re_gst cam_env)) (raw_description (image_layout RGB cam_image) []) True)"
    "ge_playing (re_gst cam_env)" "ge_sync_failures (re_gst cam_env) = []" "re_buffer cam_env = Inr ()" "re_push cam_env"
    by (simp_all add: cam_env_def cam_prepared)
  ultimately show ?thesis using good_image_recovers [of "[]" "ros_stream_init []" cam_image RGB cam_env] by blast
qed

theorem images_match_pipeline_witness:
  "\<exists>s d l. rs_reachable [] s \<and> (d, l) \<in> set (pushed_raw s) \<and> d = Some (raw_description l [])"
proof -
  let ?l = "image_layout RGB cam_image"
  obtain r p where p: "video_pipeline_start cam_launch True (raw_description ?l []) True pipeline_init = (r, p)" by fastforce
  then have r: "r = Inr ()"
    using cam_prepared [of "raw_description ?l []"] by (auto simp: video_pipeline_start_def play_def is_ok_def Let_def split: sum.splits)
  have "onRawImage cam_env cam_image (ros_stream_init []) \<noteq> None"
    using p r by (simp add: onRawImage_def cam_env_def cam_image_def formatFromRosEncoding_def startRawPipelineLocked_def start_appsrc_def
        ros_stream_init_def stop_pipeline_def resetPipelineStateLocked_def pipeline_stop_def pipeline_init_def image_layout_def Let_def)
  then obtain s where s: "onRawImage cam_env cam_image (ros_stream_init []) = Some s" by blast
  have reach: "rs_reachable [] s" using Raw_image [OF s] by blast
  have "pushed_raw s \<noteq> []"
    using s p r by (auto simp: onRawImage_def cam_env_def cam_image_def formatFromRosEncoding_def startRawPipelineLocked_def start_appsrc_def
        ros_stream_init_def stop_pipeline_def resetPipelineStateLocked_def pipeline_stop_def pipeline_init_def image_layout_def
        pushRawLocked_def Let_def)
  then obtain d l where "(d, l) \<in> set (pushed_raw s)" by (cases "pushed_raw s") auto
  with images_match_pipeline [OF reach] reach show ?thesis by blast
qed

end
