(* ===== verification/Runtime_Config.thy ===== *)
theory Runtime_Config
  imports Stream_Config Access_Policy Subscription_Qos Complex_Main
begin

text \<open>
  The configuration of the bridge (runtime_config.cpp): one parameter snapshot becomes a
  \<open>RuntimeConfig\<close>, stage by stage. A failing stage throws; the result names the stage, as the log
  line of the handler does, and carries the exception that is thrown on.

  The generated parameter listener and rmw's conversion of policy names are parameters.
\<close>

section \<open>Model\<close>

record qos_params =
  qp_pattern :: string
  qp_reliability :: string
  qp_durability :: string

record bridge_params =
  prm_url :: string
  prm_token :: string
  prm_watchdog_enabled :: bool
  prm_recovery_timeout_seconds :: rat
  prm_access :: access_policy_config
  prm_qos_ids :: "string list"
  prm_qos_entries :: "(string, qos_params) alist"
  prm_video :: media_params
  prm_audio :: media_params

record runtime_config =
  rcfg_url :: string
  rcfg_access_token :: string
  rcfg_watchdog_enabled :: bool
  rcfg_recovery_timeout :: time
  rcfg_policy :: access_policy
  rcfg_qos :: "qos_override list"
  rcfg_video :: stream_config
  rcfg_audio :: stream_config

text \<open>
  What the loader calls: \<open>rmw_qos_reliability_policy_from_str\<close> and its durability twin, the name
  expansion, the GStreamer parser, and the product of a double by thousand, which rounds.
\<close>

record config_env =
  ce_expand :: expander
  ce_launch :: gst_launch
  ce_reliability :: "string \<Rightarrow> reliability_policy"
  ce_durability :: "string \<Rightarrow> durability_policy"
  ce_thousand :: "rat \<Rightarrow> rat"

text \<open>\<open>env\<close> is the value of \<open>LIVEKIT_TOKEN\<close>, \<open>None\<close> when it is not set.\<close>

definition resolveAccessToken :: "string option \<Rightarrow> bridge_params \<Rightarrow> string res" where
  "resolveAccessToken env params =
     (if prm_token params \<noteq> [] then Inr (prm_token params)
      else (case env of
              Some v \<Rightarrow> if v \<noteq> [] then Inr v
                        else Inl (Runtime_error ''LiveKit startup token is required; set livekit.token or LIVEKIT_TOKEN'')
            | None \<Rightarrow> Inl (Runtime_error ''LiveKit startup token is required; set livekit.token or LIVEKIT_TOKEN'')))"

definition requireRosResourcePattern_qos :: "expander \<Rightarrow> string \<Rightarrow> string \<Rightarrow> ros_pattern res" where
  "requireRosResourcePattern_qos expand raw ctx =
     (if trim raw = [] then Inl (Runtime_error (ctx @ '' pattern must not be empty''))
      else (case pattern_parse_global expand raw of
              None \<Rightarrow> Inl (Runtime_error (ctx @ '' pattern must normalize to a valid ROS resource''))
            | Some p \<Rightarrow> Inr p))"

text \<open>The callee reads its argument up to the first zero byte.\<close>

definition parseSubscriptionQosPolicy :: "(string \<Rightarrow> 'p) \<Rightarrow> string \<Rightarrow> 'p option" where
  "parseSubscriptionQosPolicy parse raw =
     (let mode = trim raw in if mode = ''auto'' then None else Some (parse (takeWhile (\<lambda>c. c \<noteq> CHR 0x00) mode)))"

fun load_qos_overrides :: "config_env \<Rightarrow> (string, qos_params) alist \<Rightarrow> string list \<Rightarrow> string list \<Rightarrow> qos_override list res" where
  "load_qos_overrides env entries seen [] = Inr []"
| "load_qos_overrides env entries seen (i # ids) =
     res_bind (requireUniqueEntry seen i entries ''subscription QoS override id'' ''subscription QoS override entry'') (\<lambda>(seen', entry).
     res_bind (requireRosResourcePattern_qos (ce_expand env) (qp_pattern entry) ''subscription.qos'') (\<lambda>pattern.
     res_bind (load_qos_overrides env entries seen' ids) (\<lambda>rest.
       Inr (\<lparr>override_id = i, override_pattern = pattern,
             override_reliability = parseSubscriptionQosPolicy (ce_reliability env) (qp_reliability entry),
             override_durability = parseSubscriptionQosPolicy (ce_durability env) (qp_durability entry)\<rparr> # rest))))"

definition loadSubscriptionQosConfig :: "config_env \<Rightarrow> bridge_params \<Rightarrow> qos_override list res" where
  "loadSubscriptionQosConfig env params = load_qos_overrides env (prm_qos_entries params) [] (prm_qos_ids params)"

text \<open>A \<open>duration\<close> of seconds cast to whole milliseconds: the product, cut towards zero.\<close>

definition seconds_to_ms :: "(rat \<Rightarrow> rat) \<Rightarrow> rat \<Rightarrow> time" where
  "seconds_to_ms thousand s = (let m = thousand s in ms (if m \<ge> 0 then \<lfloor>m\<rfloor> else \<lceil>m\<rceil>))"

text \<open>A step of the loader at a stage: the exception is thrown on with the stage in the log.\<close>

definition at_stage :: "string \<Rightarrow> 'a res \<Rightarrow> ('a \<Rightarrow> (string \<times> exn) + 'b) \<Rightarrow> (string \<times> exn) + 'b" where
  "at_stage stage r f = (case r of Inl e \<Rightarrow> Inl (stage, e) | Inr x \<Rightarrow> f x)"

lemma at_stage_Inr_iff [simp]: "at_stage stage r f = Inr y \<longleftrightarrow> (\<exists>x. r = Inr x \<and> f x = Inr y)"
  by (cases r) (auto simp: at_stage_def)

lemma at_stage_Inl_iff [simp]: "at_stage stage r f = Inl y \<longleftrightarrow> (\<exists>e. r = Inl e \<and> y = (stage, e)) \<or> (\<exists>x. r = Inr x \<and> f x = Inl y)"
  by (cases r) (auto simp: at_stage_def)

text \<open>
  \<open>parameters\<close> is the node's parameters interface: \<open>None\<close> for the null pointer, otherwise what the
  generated listener makes of it.
\<close>

definition loadRuntimeConfig :: "config_env \<Rightarrow> string option \<Rightarrow> bridge_params res option \<Rightarrow> (string \<times> exn) + runtime_config" where
  "loadRuntimeConfig env token_env parameters =
     at_stage ''parameters_interface_validation''
       (case parameters of None \<Rightarrow> Inl (Invalid_argument ''parameters_interface is required'') | Some listener \<Rightarrow> Inr listener) (\<lambda>listener.
     at_stage ''parameter_snapshot'' listener (\<lambda>params.
     at_stage ''livekit_config'' (resolveAccessToken token_env params) (\<lambda>token.
     at_stage ''subscription_qos_config'' (loadSubscriptionQosConfig env params) (\<lambda>overrides.
     at_stage ''video_config'' (video_loadConfig (ce_expand env) (ce_launch env) (prm_video params)) (\<lambda>video.
     at_stage ''audio_config'' (audio_loadConfig (ce_launch env) (prm_audio params)) (\<lambda>audio.
       Inr \<lparr>rcfg_url = prm_url params, rcfg_access_token = token, rcfg_watchdog_enabled = prm_watchdog_enabled params,
            rcfg_recovery_timeout = seconds_to_ms (ce_thousand env) (prm_recovery_timeout_seconds params),
            rcfg_policy = make_policy (ce_expand env) (prm_access params), rcfg_qos = overrides,
            rcfg_video = video, rcfg_audio = audio\<rparr>))))))"

section \<open>A loaded configuration\<close>

text \<open>
  The overrides are the configured ones, each id once and in order, with the pattern and the
  policies of its own entry.
\<close>

definition override_of :: "config_env \<Rightarrow> (string, qos_params) alist \<Rightarrow> string \<Rightarrow> qos_override \<Rightarrow> bool" where
  "override_of env entries i ov \<longleftrightarrow> (\<exists>entry. lookup entries i = Some entry \<and> override_id ov = i
     \<and> pattern_parse_global (ce_expand env) (qp_pattern entry) = Some (override_pattern ov)
     \<and> (override_reliability ov = None \<longleftrightarrow> trim (qp_reliability entry) = ''auto'')
     \<and> (override_durability ov = None \<longleftrightarrow> trim (qp_durability entry) = ''auto''))"

lemma load_qos_overrides_ok:
  "load_qos_overrides env entries seen ids = Inr ovs \<Longrightarrow>
   list_all2 (override_of env entries) ids ovs \<and> distinct ids \<and> set ids \<inter> set seen = {}"
proof (induction env entries seen ids arbitrary: ovs rule: load_qos_overrides.induct)
  case (2 env entries seen i ids)
  from "2.prems" obtain entry pattern rest where
      u: "i \<notin> set seen" "lookup entries i = Some entry"
    and p: "requireRosResourcePattern_qos (ce_expand env) (qp_pattern entry) ''subscription.qos'' = Inr pattern"
    and r: "load_qos_overrides env entries (i # seen) ids = Inr rest"
    and ovs: "ovs = \<lparr>override_id = i, override_pattern = pattern,
        override_reliability = parseSubscriptionQosPolicy (ce_reliability env) (qp_reliability entry),
        override_durability = parseSubscriptionQosPolicy (ce_durability env) (qp_durability entry)\<rparr> # rest"
    by (auto simp: res_iffs requireUniqueEntry_def split: if_splits option.splits)
  from "2.IH" [OF r] u p ovs show ?case
    by (auto simp: override_of_def requireRosResourcePattern_qos_def parseSubscriptionQosPolicy_def Let_def split: if_splits option.splits)
qed simp

text \<open>The other sources of a loaded stream configuration are the configured ones, all validated.\<close>

definition sources_of ::
  "gst_launch \<Rightarrow> (string \<Rightarrow> string \<Rightarrow> string) \<Rightarrow> string \<Rightarrow> media_params \<Rightarrow> stream_config \<Rightarrow> bool" where
  "sources_of launch build sink params config \<longleftrightarrow>
     distinct (keys (other_sources config)) \<and> set (keys (other_sources config)) = trim ` set (mp_other_ids params)
     \<and> al_all (source_ok launch build sink) (other_sources config)"

lemma video_sources_ok:
  assumes "video_loadConfig expand launch params = Inr config"
  shows "sources_of launch video_buildPipelineDescription kVideoAppSinkName params config"
proof -
  obtain sources where "load_other_sources launch ''video'' video_buildPipelineDescription kVideoAppSinkName
        (\<lambda>p. video_entry_options p (video_global_options (mp_publish params))) (mp_others params) [] [] (mp_other_ids params) = Inr sources"
      "other_sources config = sources"
    using assms by (auto simp: video_loadConfig_def Let_def res_iffs)
  from load_other_sources_ok [OF this(1)] this(2) show ?thesis by (simp add: sources_of_def)
qed

lemma audio_sources_ok:
  assumes "audio_loadConfig launch params = Inr config"
  shows "sources_of launch audio_buildPipelineDescription kAudioAppSinkName params config"
proof -
  obtain sources where "load_other_sources launch ''audio'' audio_buildPipelineDescription kAudioAppSinkName
        (\<lambda>p. audio_entry_options p (audio_global_options (mp_publish params))) (mp_others params) [] [] (mp_other_ids params) = Inr sources"
      "other_sources config = sources"
    using assms by (auto simp: audio_loadConfig_def Let_def res_iffs)
  from load_other_sources_ok [OF this(1)] this(2) show ?thesis by (simp add: sources_of_def)
qed


definition sample_config_env :: config_env where
  "sample_config_env = \<lparr>ce_expand = sample_expand, ce_launch = sample_launch,
     ce_reliability = (\<lambda>s. if s = ''reliable'' then Reliable else if s = ''best_effort'' then BestEffort else RelUnknown),
     ce_durability = (\<lambda>s. if s = ''volatile'' then Volatile else if s = ''transient_local'' then TransientLocal else DurUnknown),
     ce_thousand = (\<lambda>s. s * 1000)\<rparr>"

definition sample_bridge_params :: bridge_params where
  "sample_bridge_params = \<lparr>prm_url = ''wss://room'', prm_token = [], prm_watchdog_enabled = True, prm_recovery_timeout_seconds = 3 / 2,
     prm_access = (let r = \<lparr>allow = [''/*''], deny = []\<rparr> in \<lparr>publish_cfg = r, subscribe_cfg = r, service_cfg = r\<rparr>),
     prm_qos_ids = [''scan''], prm_qos_entries = [(''scan'', \<lparr>qp_pattern = ''/scan'', qp_reliability = '' best_effort'', qp_durability = ''auto''\<rparr>)],
     prm_video = sample_params, prm_audio = sample_params\<lparr>mp_other_ids := []\<rparr>\<rparr>"


end
