(* ===== verification/Runtime.thy ===== *)
theory Runtime
  imports Runtime_Config Callback_Gate Executor_Queue Topic_Publisher Lease_Properties Service_Caller Rpc_Router Watchdog
begin

text \<open>
  The runtime (runtime.cpp): the components of the bridge put together. Room callbacks pass the
  callback gate and hand their work to the executor queue; the executor runs it on the publisher, the
  lease manager or the service caller; the destructor shuts the components down in order. Each
  step is one critical section of a thread; a room callback is a thread that stands between two
  of its steps.
\<close>

section \<open>Model\<close>

text \<open>The closures that \<open>submitRosWork\<close> and the RPC router queue.\<close>

datatype ros_work = PublishWork string bytes | HeartbeatWork string bytes | CancelWork string | PruneWork | RpcWork

record user_packet =
  pkt_topic :: string
  pkt_participant :: "string option"
  pkt_data :: bytes

definition kPublishRequestTopic :: string where
  "kPublishRequestTopic = ''ros2.topic.pub''"

definition kHeartbeatTopic :: string where
  "kHeartbeatTopic = ''lkros.heartbeat''"

text \<open>\<open>Runtime::onUserPacketReceived\<close>: \<open>None\<close> is the packet dropped as unsupported.\<close>

definition dispatch_packet :: "user_packet \<Rightarrow> ros_work option" where
  "dispatch_packet p =
     (let requester = (case pkt_participant p of None \<Rightarrow> [] | Some identity \<Rightarrow> identity) in
      if pkt_topic p = kPublishRequestTopic then Some (PublishWork requester (pkt_data p))
      else if pkt_topic p = kHeartbeatTopic then Some (HeartbeatWork requester (pkt_data p))
      else None)"

datatype room_event = StateReport connection_state time | PacketReceived user_packet | ParticipantGone string

fun event_work :: "room_event \<Rightarrow> ros_work option" where
  "event_work (StateReport st now) = None"
| "event_work (PacketReceived p) = dispatch_packet p"
| "event_work (ParticipantGone identity) = Some (CancelWork identity)"

text \<open>
  Where a thread that calls into the runtime stands: inside a room callback that still has work to
  submit, between the push and the wake-up of \<open>submit\<close> (called by a room callback, by the prune timer
  or by an RPC handler), or before the end of the room callback.
\<close>

datatype callback_pc = Dispatching ros_work | Submitted | TimerSubmitted | RpcSubmitted | Returning

datatype stage = Serving | ClosingGate | StoppingWatchdog | ClosingQueue | LeasesDown | Unregistered | ConnectionStopped

record bridge =
  br_gate :: callback_gate
  br_calls :: "(thread \<times> callback_pc) list"
  br_queue :: exec_queue
  br_work :: "(task, ros_work) alist"
  br_publisher :: publisher_system
  br_leases :: lease_manager
  br_caller :: service_caller
  br_watchdog :: watchdog
  br_room :: room_connection
  br_registered :: bool
  br_stage :: stage
  br_events :: "room_event list"  \<comment> \<open>events that passed the gate\<close>
  br_handled :: "ros_work list"  \<comment> \<open>work run by the executor, oldest first\<close>

text \<open>The constructor, on a connection without rooms yet.\<close>

definition runtime_start :: "sdk_env \<Rightarrow> time \<Rightarrow> runtime_config \<Rightarrow> room_connection \<Rightarrow> bridge res" where
  "runtime_start env now config connection =
     (let (ok, reg, c) = registerRpcs env False connection in
      if \<not> ok then Inl (Runtime_error ''Failed to register required RPC methods'')
      else Inr \<lparr>br_gate = gate_init Concurrent, br_calls = [], br_queue = queue_init, br_work = [],
             br_publisher = system_init kDefaultMaxTopics, br_leases = lm_init, br_caller = caller_init,
             br_watchdog = watchdog_init (rcfg_watchdog_enabled config) (rcfg_recovery_timeout config) now,
             br_room = rc_start \<lparr>lk_url = rcfg_url config, lk_token = rcfg_access_token config\<rparr> c,
             br_registered = reg, br_stage = Serving, br_events = [], br_handled = []\<rparr>)"

text \<open>The constructor of the node: whatever the configuration or the runtime throws is thrown on.\<close>

definition node_start ::
  "config_env \<Rightarrow> string option \<Rightarrow> bridge_params res option \<Rightarrow> sdk_env \<Rightarrow> time \<Rightarrow> room_connection \<Rightarrow> bridge res" where
  "node_start env token_env parameters sdk now connection =
     (case loadRuntimeConfig env token_env parameters of
        Inl (stage, e) \<Rightarrow> Inl e
      | Inr config \<Rightarrow> runtime_start sdk now config connection)"

subsection \<open>Room callbacks\<close>

definition leave_gate :: "thread \<Rightarrow> bridge \<Rightarrow> bridge" where
  "leave_gate t s = s\<lparr>br_gate := gate_leave t (br_gate s)\<rparr>"

definition at_pc :: "thread \<Rightarrow> callback_pc \<Rightarrow> bridge \<Rightarrow> bool" where
  "at_pc t pc s \<longleftrightarrow> (t, pc) \<in> set (br_calls s)"

definition move_pc :: "thread \<Rightarrow> callback_pc \<Rightarrow> callback_pc \<Rightarrow> bridge \<Rightarrow> bridge" where
  "move_pc t pc pc' s = s\<lparr>br_calls := (t, pc') # remove1 (t, pc) (br_calls s)\<rparr>"

definition end_call :: "thread \<Rightarrow> callback_pc \<Rightarrow> bridge \<Rightarrow> bridge" where
  "end_call t pc s = s\<lparr>br_calls := remove1 (t, pc) (br_calls s)\<rparr>"

fun report_state :: "room_event \<Rightarrow> watchdog \<Rightarrow> watchdog" where
  "report_state (StateReport st now) w = onStateChanged st now w"
| "report_state _ w = w"

text \<open>The callbacks of \<open>makeRoomCallbacks\<close>, up to the submission of their work.\<close>

definition room_callback :: "thread \<Rightarrow> room_event \<Rightarrow> bridge \<Rightarrow> bridge" where
  "room_callback t ev s =
     (case tryEnter t (br_gate s) of
        None \<Rightarrow> s
      | Some g \<Rightarrow> s\<lparr>br_gate := g, br_events := br_events s @ [ev], br_watchdog := report_state ev (br_watchdog s),
                   br_calls := (t, case event_work ev of Some w \<Rightarrow> Dispatching w | None \<Rightarrow> Returning) # br_calls s\<rparr>)"

text \<open>\<open>submitRosWork\<close> up to the wake-up; \<open>i\<close> is the new task.\<close>

definition submitRosWork :: "thread \<Rightarrow> task \<Rightarrow> ros_work \<Rightarrow> bridge \<Rightarrow> bool \<times> bridge" where
  "submitRosWork t i w s =
     (case tryEnter t (br_gate s) of
        None \<Rightarrow> (False, s)
      | Some g \<Rightarrow>
          (let s1 = s\<lparr>br_gate := g, br_queue := submit i (br_queue s), br_work := (i, w) # br_work s\<rparr> in
           if q_shutdown (br_queue s) then (False, leave_gate t s1) else (True, s1)))"

definition callback_submit :: "thread \<Rightarrow> task \<Rightarrow> ros_work \<Rightarrow> bridge \<Rightarrow> bridge" where
  "callback_submit t i w s =
     (let (queued, s1) = submitRosWork t i w s in move_pc t (Dispatching w) (if queued then Submitted else Returning) s1)"

definition prune_timer :: "thread \<Rightarrow> task \<Rightarrow> bridge \<Rightarrow> bridge" where
  "prune_timer t i s =
     (let (queued, s1) = submitRosWork t i PruneWork s in
      if queued then s1\<lparr>br_calls := (t, TimerSubmitted) # br_calls s1\<rparr> else s1)"

text \<open>An RPC handler submits to the queue without the gate.\<close>

definition rpc_submit :: "thread \<Rightarrow> task \<Rightarrow> bridge \<Rightarrow> bridge" where
  "rpc_submit t i s =
     (let s1 = s\<lparr>br_queue := submit i (br_queue s), br_work := (i, RpcWork) # br_work s\<rparr> in
      if q_shutdown (br_queue s) then s1 else s1\<lparr>br_calls := (t, RpcSubmitted) # br_calls s1\<rparr>)"

definition wake_queue :: "thread \<Rightarrow> bool \<Rightarrow> bridge \<Rightarrow> bridge" where
  "wake_queue t ok s = s\<lparr>br_queue := wake t ok (br_queue s)\<rparr>"

subsection \<open>The executor\<close>

record work_env =
  we_json :: "bytes json_parser"
  we_evp :: evp_decode_block
  we_resolve :: "string \<Rightarrow> string res"
  we_graph :: "(string, string list) alist"
  we_create :: "string \<Rightarrow> string \<Rightarrow> nat res"
  we_send :: "nat \<Rightarrow> bytes \<Rightarrow> unit res"
  we_lease :: lm_env
  we_service :: service_env

text \<open>The publisher's \<open>publish\<close>, run to its end.\<close>

definition publish_now :: "lm_config \<Rightarrow> work_env \<Rightarrow> publish_request \<Rightarrow> publisher_system \<Rightarrow> publisher_system" where
  "publish_now cfg env request p =
     (case publish_check (cfg_expand cfg) (cfg_policy cfg) (we_resolve env) (we_graph env) request (pub p) of
        Inl e \<Rightarrow> p
      | Inr r \<Rightarrow> (case publish_send (we_create env) (we_send env) r (pub p) of
                    None \<Rightarrow> p
                  | Some h \<Rightarrow> p\<lparr>sent := sent p @ [r], pub := cache_publisher r h (pub p)\<rparr>))"

text \<open>A piece of work; an exception that leaves it ends in the future of its task.\<close>

fun run_work :: "lm_config \<Rightarrow> work_env \<Rightarrow> ros_work \<Rightarrow> bridge \<Rightarrow> bridge" where
  "run_work cfg env (PublishWork requester payload) s =
     (case handlePayload (we_json env) (we_evp env) requester payload of
        Inl e \<Rightarrow> s
      | Inr request \<Rightarrow> s\<lparr>br_publisher := publish_now cfg env request (br_publisher s)\<rparr>)"
| "run_work cfg env (HeartbeatWork requester payload) s =
     (case handleHeartbeatPayload (we_json env) cfg (we_lease env) requester payload (br_leases s) of
        Inl e \<Rightarrow> s
      | Inr m \<Rightarrow> s\<lparr>br_leases := m\<rparr>)"
| "run_work cfg env (CancelWork identity) s = s\<lparr>br_caller := cancelForRequester (we_service env) identity (br_caller s)\<rparr>"
| "run_work cfg env PruneWork s = s\<lparr>br_leases := pruneExpiredLeases (we_lease env) (br_leases s)\<rparr>"
| "run_work cfg env RpcWork s = s"

definition finish_work :: "task \<Rightarrow> ros_work \<Rightarrow> bridge \<Rightarrow> bridge" where
  "finish_work i w s = s\<lparr>br_queue := task_done i (br_queue s), br_handled := br_handled s @ [w]\<rparr>"

subsection \<open>The room\<close>

text \<open>The connection moves on and tells the runtime when its state changed.\<close>

definition room_moves :: "thread \<Rightarrow> time \<Rightarrow> room_connection \<Rightarrow> bridge \<Rightarrow> bridge" where
  "room_moves t now c s =
     (let s1 = s\<lparr>br_room := c\<rparr> in
      if notified c = notified (br_room s) then s1 else room_callback t (StateReport (last (notified c)) now) s1)"

subsection \<open>The destructor\<close>

definition destroy_close :: "bridge \<Rightarrow> bridge" where
  "destroy_close s = s\<lparr>br_gate := fst (closeAndWait (br_gate s)), br_stage := ClosingGate\<rparr>"

definition destroy_watchdog :: "bridge \<Rightarrow> bridge" where
  "destroy_watchdog s = s\<lparr>br_watchdog := watchdog_stop (br_watchdog s), br_stage := StoppingWatchdog\<rparr>"

definition destroy_queue :: "thread \<Rightarrow> bridge \<Rightarrow> bridge" where
  "destroy_queue d s = s\<lparr>br_queue := shutdown_flip d (br_queue s), br_stage := ClosingQueue\<rparr>"

definition destroy_leases :: "lm_env \<Rightarrow> bridge \<Rightarrow> bridge" where
  "destroy_leases env s = s\<lparr>br_leases := lm_shutdown_op env (br_leases s), br_stage := LeasesDown\<rparr>"

definition destroy_rpcs :: "sdk_env \<Rightarrow> bridge \<Rightarrow> bridge" where
  "destroy_rpcs env s =
     (let (reg, c) = unregisterRpcs env (br_registered s) (br_room s) in
      s\<lparr>br_registered := reg, br_room := c, br_stage := Unregistered\<rparr>)"

definition destroy_connection :: "bridge \<Rightarrow> bridge" where
  "destroy_connection s = s\<lparr>br_room := stop_request (br_room s), br_stage := ConnectionStopped\<rparr>"

section \<open>Interleavings\<close>

text \<open>
  The destructor runs on thread \<open>d\<close>, which runs no queue work. Threads of other callers are new
  when they enter, a task is new when it is submitted.
\<close>

abbreviation fresh_thread :: "thread \<Rightarrow> bridge \<Rightarrow> bool" where
  "fresh_thread t s \<equiv> t \<notin> fst ` set (br_calls s)"

abbreviation fresh_task :: "task \<Rightarrow> bridge \<Rightarrow> bool" where
  "fresh_task i s \<equiv> i \<notin> set (all_submitted (br_queue s))"

inductive brstep :: "lm_config \<Rightarrow> thread \<Rightarrow> bridge \<Rightarrow> bridge \<Rightarrow> bool" for cfg d where
  Room: "rcstep (br_room s) c \<Longrightarrow> fresh_thread t s \<Longrightarrow> brstep cfg d s (room_moves t now c s)"
| Packet: "Room_Connection.onUserPacketReceived p (br_room s) = Some p \<Longrightarrow> fresh_thread t s \<Longrightarrow>
    brstep cfg d s (room_callback t (PacketReceived p) s)"
| Gone: "onParticipantDisconnected (Some who) (br_room s) = Some identity \<Longrightarrow> fresh_thread t s \<Longrightarrow>
    brstep cfg d s (room_callback t (ParticipantGone identity) s)"
| Submit_work: "at_pc t (Dispatching w) s \<Longrightarrow> fresh_task i s \<Longrightarrow> brstep cfg d s (callback_submit t i w s)"
| Wake_callback: "at_pc t Submitted s \<Longrightarrow> brstep cfg d s (move_pc t Submitted Returning (leave_gate t (wake_queue t ok s)))"
| Return_callback: "at_pc t Returning s \<Longrightarrow> brstep cfg d s (end_call t Returning (leave_gate t s))"
| Timer: "fresh_thread t s \<Longrightarrow> fresh_task i s \<Longrightarrow> brstep cfg d s (prune_timer t i s)"
| Wake_timer: "at_pc t TimerSubmitted s \<Longrightarrow> brstep cfg d s (end_call t TimerSubmitted (leave_gate t (wake_queue t ok s)))"
| Rpc: "fresh_thread t s \<Longrightarrow> fresh_task i s \<Longrightarrow> brstep cfg d s (rpc_submit t i s)"
| Wake_rpc: "at_pc t RpcSubmitted s \<Longrightarrow> brstep cfg d s (end_call t RpcSubmitted (wake_queue t ok s))"
| Cancel_queued: "canceling (br_queue s) \<noteq> [] \<Longrightarrow> brstep cfg d s (s\<lparr>br_queue := cancel_next (br_queue s)\<rparr>)"
| Drain: "guard_triggered (br_queue s) \<Longrightarrow> t \<noteq> d \<Longrightarrow> brstep cfg d s (s\<lparr>br_queue := drain_enter t (br_queue s)\<rparr>)"
| Next_task: "drain_pc (br_queue s) = LoopHead \<Longrightarrow> brstep cfg d s (s\<lparr>br_queue := drain_next (br_queue s)\<rparr>)"
| Run: "drain_pc (br_queue s) = RunningTask i \<Longrightarrow> lookup (br_work s) i = Some w \<Longrightarrow> w \<noteq> RpcWork \<Longrightarrow>
    brstep cfg d s (finish_work i w (run_work cfg env w s))"
| Run_rpc: "drain_pc (br_queue s) = RunningTask i \<Longrightarrow> lookup (br_work s) i = Some RpcWork \<Longrightarrow>
    scstep\<^sup>=\<^sup>= (br_caller s) caller \<Longrightarrow> m = snd (dispatchEchoOnce env kind name requester (br_leases s)) \<or> m = br_leases s \<Longrightarrow>
    brstep cfg d s (finish_work i RpcWork (s\<lparr>br_caller := caller, br_leases := m\<rparr>))"
| End_drain: "drain_pc (br_queue s) = Leaving \<Longrightarrow> brstep cfg d s (s\<lparr>br_queue := drain_exit (br_queue s)\<rparr>)"
| Service: "brstep cfg d s (s\<lparr>br_caller := executeWaitable env responses (br_caller s)\<rparr>)"
| Message: "brstep cfg d s (s\<lparr>br_leases := deliver k now b (br_leases s)\<rparr>)"
| Watch: "brstep cfg d s (s\<lparr>br_watchdog := run_wake now (br_watchdog s)\<rparr>)"
| Destroy_close: "br_stage s = Serving \<Longrightarrow> brstep cfg d s (destroy_close s)"
| Destroy_watchdog: "br_stage s = ClosingGate \<Longrightarrow> wait_done d AllCallbacks (br_gate s) \<Longrightarrow> brstep cfg d s (destroy_watchdog s)"
| Destroy_queue: "br_stage s = StoppingWatchdog \<Longrightarrow> brstep cfg d s (destroy_queue d s)"
| Destroy_leases: "br_stage s = ClosingQueue \<Longrightarrow> shutdown_may_return d (br_queue s) \<Longrightarrow> brstep cfg d s (destroy_leases env s)"
| Destroy_rpcs: "br_stage s = LeasesDown \<Longrightarrow> brstep cfg d s (destroy_rpcs sdk s)"
| Destroy_connection: "br_stage s = Unregistered \<Longrightarrow> brstep cfg d s (destroy_connection s)"

inductive_cases brstepE: "brstep cfg d s s'"

section \<open>Threads inside the runtime\<close>

text \<open>How often a thread counts in the gate, and in the wake-ups the queue still expects.\<close>

fun gate_uses :: "callback_pc \<Rightarrow> nat" where
  "gate_uses (Dispatching w) = 1"
| "gate_uses Submitted = 2"
| "gate_uses TimerSubmitted = 1"
| "gate_uses RpcSubmitted = 0"
| "gate_uses Returning = 1"

fun wake_uses :: "callback_pc \<Rightarrow> nat" where
  "wake_uses (Dispatching w) = 0"
| "wake_uses Submitted = 1"
| "wake_uses TimerSubmitted = 1"
| "wake_uses RpcSubmitted = 1"
| "wake_uses Returning = 0"

definition total :: "(callback_pc \<Rightarrow> nat) \<Rightarrow> (thread \<times> callback_pc) list \<Rightarrow> nat" where
  "total f calls = sum_list (map (f \<circ> snd) calls)"

lemma total_simps [simp]: "total f [] = 0" "total f ((t, pc) # calls) = f pc + total f calls"
  by (simp_all add: total_def)

lemma total_remove1: "(t, pc) \<in> set calls \<Longrightarrow> total f calls = f pc + total f (remove1 (t, pc) calls)"
  using sum_list_map_remove1 [of "(t, pc)" calls "f \<circ> snd"] by (simp add: total_def)

definition calls_inv :: "bridge \<Rightarrow> bool" where
  "calls_inv s \<longleftrightarrow> concurrency (br_gate s) = Concurrent \<and> active_count (br_gate s) = total gate_uses (br_calls s)
     \<and> wakes_due (br_queue s) = total wake_uses (br_calls s)"

lemma gate_fields [simp]:
  "concurrency (gate_leave t g) = concurrency g" "active_count (gate_leave t g) = active_count g - 1"
  "gate_closed (gate_leave t g) = gate_closed g"
  "concurrency (gate_close g) = concurrency g" "active_count (gate_close g) = active_count g" "gate_closed (gate_close g)"
  by (simp_all add: gate_defs)

lemma tryEnter_Some:
  "tryEnter t g = Some g' \<Longrightarrow> concurrency g' = concurrency g \<and> active_count g' = active_count g + 1 \<and> \<not> gate_closed g \<and> gate_closed g' = gate_closed g"
  by (auto simp: tryEnter_def Let_def split: if_splits)

lemma wakes_due_ops [simp]:
  "wakes_due (wake t ok q) = wakes_due q - 1" "wakes_due (cancel_next q) = wakes_due q" "wakes_due (drain_enter t q) = wakes_due q"
  "wakes_due (drain_next q) = wakes_due q" "wakes_due (task_done i q) = wakes_due q" "wakes_due (drain_exit q) = wakes_due q"
  "wakes_due (shutdown_flip t q) = wakes_due q"
  "wakes_due (submit i q) = (if q_shutdown q then wakes_due q else wakes_due q + 1)"
  by (simp_all add: queue_ops split: list.splits)

lemmas pc_defs = at_pc_def move_pc_def end_call_def leave_gate_def wake_queue_def

text \<open>The calls of a submission, and what it leaves alone.\<close>

lemma submitRosWork_calls:
  assumes "submitRosWork t i w s = (queued, s1)"
  shows "br_calls s1 = br_calls s
    \<and> (calls_inv s \<longrightarrow> concurrency (br_gate s1) = Concurrent
        \<and> active_count (br_gate s1) = active_count (br_gate s) + (if queued then 1 else 0)
        \<and> wakes_due (br_queue s1) = wakes_due (br_queue s) + (if queued then 1 else 0))"
  using assms by (auto simp: submitRosWork_def calls_inv_def leave_gate_def Let_def dest: tryEnter_Some split: option.splits if_splits)

lemma room_callback_calls: "calls_inv s \<Longrightarrow> calls_inv (room_callback t ev s)"
  by (auto simp: room_callback_def calls_inv_def dest: tryEnter_Some split: option.splits)

lemma room_moves_calls:
  assumes "calls_inv s"
  shows "calls_inv (room_moves t now c s)"
proof -
  have "calls_inv (s\<lparr>br_room := c\<rparr>)" using assms by (simp add: calls_inv_def)
  then show ?thesis by (simp add: room_moves_def Let_def room_callback_calls)
qed

lemma callback_submit_calls:
  assumes "calls_inv s" "at_pc t (Dispatching w) s"
  shows "calls_inv (callback_submit t i w s)"
proof -
  obtain queued s1 where 1: "submitRosWork t i w s = (queued, s1)" by fastforce
  from submitRosWork_calls [OF 1] assms total_remove1 [of t "Dispatching w" "br_calls s" gate_uses]
    total_remove1 [of t "Dispatching w" "br_calls s" wake_uses]
  show ?thesis by (auto simp: callback_submit_def 1 pc_defs calls_inv_def)
qed

lemma prune_timer_calls:
  assumes "calls_inv s"
  shows "calls_inv (prune_timer t i s)"
proof -
  obtain queued s1 where 1: "submitRosWork t i PruneWork s = (queued, s1)" by fastforce
  from submitRosWork_calls [OF 1] assms show ?thesis by (auto simp: prune_timer_def 1 calls_inv_def)
qed

lemma run_work_frame [simp]:
  "br_calls (run_work cfg env w s) = br_calls s"
  "br_queue (run_work cfg env w s) = br_queue s"
  "br_gate (run_work cfg env w s) = br_gate s"
  "br_work (run_work cfg env w s) = br_work s"
  "br_handled (run_work cfg env w s) = br_handled s"
  "br_events (run_work cfg env w s) = br_events s"
  "br_room (run_work cfg env w s) = br_room s"
  "br_watchdog (run_work cfg env w s) = br_watchdog s"
  "br_stage (run_work cfg env w s) = br_stage s"
  by (cases w; simp split: sum.split)+

lemma calls_inv_step: "brstep cfg d s s' \<Longrightarrow> calls_inv s \<Longrightarrow> calls_inv s'"
proof (induction rule: brstep.induct)
  case (Room s c t now)
  then show ?case by (simp add: room_moves_calls)
next
  case (Packet p s t)
  then show ?case by (simp add: room_callback_calls)
next
  case (Gone who s identity t)
  then show ?case by (simp add: room_callback_calls)
next
  case (Submit_work t w s i)
  then show ?case by (simp add: callback_submit_calls)
next
  case (Timer t s i)
  then show ?case by (simp add: prune_timer_calls)
next
  case (Wake_callback t s ok)
  with total_remove1 [of t Submitted "br_calls s"] show ?case by (auto simp: calls_inv_def pc_defs)
next
  case (Return_callback t s)
  with total_remove1 [of t Returning "br_calls s"] show ?case by (auto simp: calls_inv_def pc_defs)
next
  case (Wake_timer t s ok)
  with total_remove1 [of t TimerSubmitted "br_calls s"] show ?case by (auto simp: calls_inv_def pc_defs)
next
  case (Wake_rpc t s ok)
  with total_remove1 [of t RpcSubmitted "br_calls s"] show ?case by (auto simp: calls_inv_def pc_defs)
qed (auto simp: calls_inv_def rpc_submit_def finish_work_def Let_def
    destroy_close_def destroy_watchdog_def destroy_queue_def destroy_leases_def destroy_rpcs_def destroy_connection_def closeAndWait_def
    split: prod.splits)

section \<open>The components inside the runtime\<close>

text \<open>
  A component of a larger system: \<open>view\<close> is its state there, and every step of the system from a
  good state is some steps of the component's own system. What the component reaches inside the
  system, it can reach on its own.
\<close>

locale component =
  fixes step :: "'s \<Rightarrow> 's \<Rightarrow> bool"
    and good :: "'s \<Rightarrow> bool"
    and own_step :: "'c \<Rightarrow> 'c \<Rightarrow> bool"
    and view :: "'s \<Rightarrow> 'c"
  assumes good_step: "step s t \<Longrightarrow> good s \<Longrightarrow> good t"
    and project: "step s t \<Longrightarrow> good s \<Longrightarrow> own_step\<^sup>*\<^sup>* (view s) (view t)"
begin

lemma step_reaches: "step s t \<Longrightarrow> good s \<Longrightarrow> own_step\<^sup>*\<^sup>* c (view s) \<Longrightarrow> own_step\<^sup>*\<^sup>* c (view t)"
  using project by (meson rtranclp_trans)

lemma reaches: "step\<^sup>*\<^sup>* s t \<Longrightarrow> good s \<Longrightarrow> own_step\<^sup>*\<^sup>* c (view s) \<Longrightarrow> good t \<and> own_step\<^sup>*\<^sup>* c (view t)"
  by (induction rule: rtranclp_induct) (auto intro: good_step step_reaches)

end

text \<open>Every step of the runtime is, for each component, some steps of that component's own system.\<close>

lemma submitRosWork_queue:
  "submitRosWork t i w s = (queued, s1) \<Longrightarrow> br_queue s1 = submit i (br_queue s) \<or> br_queue s1 = br_queue s"
  by (auto simp: submitRosWork_def leave_gate_def Let_def split: option.splits if_splits)

lemma room_callback_frame [simp]:
  "br_queue (room_callback t ev s) = br_queue s" "br_work (room_callback t ev s) = br_work s"
  "br_handled (room_callback t ev s) = br_handled s" "br_room (room_callback t ev s) = br_room s"
  "br_leases (room_callback t ev s) = br_leases s" "br_caller (room_callback t ev s) = br_caller s"
  "br_publisher (room_callback t ev s) = br_publisher s" "br_stage (room_callback t ev s) = br_stage s"
  "br_registered (room_callback t ev s) = br_registered s"
  by (simp_all add: room_callback_def split: option.split)

lemma room_moves_frame [simp]:
  "br_queue (room_moves t now c s) = br_queue s" "br_work (room_moves t now c s) = br_work s"
  "br_handled (room_moves t now c s) = br_handled s" "br_room (room_moves t now c s) = c"
  "br_leases (room_moves t now c s) = br_leases s" "br_caller (room_moves t now c s) = br_caller s"
  "br_publisher (room_moves t now c s) = br_publisher s" "br_stage (room_moves t now c s) = br_stage s"
  "br_registered (room_moves t now c s) = br_registered s"
  by (simp_all add: room_moves_def Let_def)

lemma submitRosWork_frame:
  assumes "submitRosWork t i w s = (queued, s1)"
  shows "br_handled s1 = br_handled s" "br_room s1 = br_room s" "br_leases s1 = br_leases s" "br_caller s1 = br_caller s"
    "br_publisher s1 = br_publisher s" "br_stage s1 = br_stage s" "br_watchdog s1 = br_watchdog s" "br_events s1 = br_events s"
  using assms by (auto simp: submitRosWork_def leave_gate_def Let_def split: option.splits if_splits)

lemma submit_ops_frame [simp]:
  "br_handled (callback_submit t i w s) = br_handled s" "br_handled (prune_timer t i s) = br_handled s"
  "br_room (callback_submit t i w s) = br_room s" "br_room (prune_timer t i s) = br_room s"
  "br_leases (callback_submit t i w s) = br_leases s" "br_leases (prune_timer t i s) = br_leases s"
  "br_caller (callback_submit t i w s) = br_caller s" "br_caller (prune_timer t i s) = br_caller s"
  "br_publisher (callback_submit t i w s) = br_publisher s" "br_publisher (prune_timer t i s) = br_publisher s"
  "br_stage (callback_submit t i w s) = br_stage s" "br_stage (prune_timer t i s) = br_stage s"
  "br_watchdog (callback_submit t i w s) = br_watchdog s" "br_watchdog (prune_timer t i s) = br_watchdog s"
  "br_events (callback_submit t i w s) = br_events s" "br_events (prune_timer t i s) = br_events s"
  by (simp_all add: callback_submit_def prune_timer_def move_pc_def split: prod.split)
    (auto dest: submitRosWork_frame)

lemma submit_ops_queue:
  "br_queue (callback_submit t i w s) = submit i (br_queue s) \<or> br_queue (callback_submit t i w s) = br_queue s"
  "br_queue (prune_timer t i s) = submit i (br_queue s) \<or> br_queue (prune_timer t i s) = br_queue s"
  by (auto simp: callback_submit_def prune_timer_def move_pc_def dest: submitRosWork_queue split: prod.split)

lemmas rt_defs = pc_defs finish_work_def rpc_submit_def Let_def
lemmas destroy_defs = destroy_close_def destroy_watchdog_def destroy_queue_def destroy_leases_def destroy_rpcs_def destroy_connection_def

lemma waker_due: "calls_inv s \<Longrightarrow> at_pc t pc s \<Longrightarrow> wake_uses pc > 0 \<Longrightarrow> wakes_due (br_queue s) > 0"
  using total_remove1 [of t pc "br_calls s" wake_uses] by (simp add: calls_inv_def at_pc_def)

lemma queue_projection: "brstep cfg d s s' \<Longrightarrow> calls_inv s \<Longrightarrow> qstep\<^sup>=\<^sup>= (br_queue s) (br_queue s')"
proof (induction rule: brstep.induct)
  case (Submit_work t w s i)
  then show ?case using submit_ops_queue(1) [of t i w s] by (auto intro: qstep.Submit)
next
  case (Timer t s i)
  then show ?case using submit_ops_queue(2) [of t i s] by (auto intro: qstep.Submit)
next
  case (Wake_callback t s ok)
  then show ?case using waker_due [of s t Submitted] by (auto simp: rt_defs intro: qstep.Wake)
next
  case (Wake_timer t s ok)
  then show ?case using waker_due [of s t TimerSubmitted] by (auto simp: rt_defs intro: qstep.Wake)
next
  case (Wake_rpc t s ok)
  then show ?case using waker_due [of s t RpcSubmitted] by (auto simp: rt_defs intro: qstep.Wake)
qed (auto simp: rt_defs destroy_defs split: prod.splits intro: qstep.intros)

lemma caller_projection: "brstep cfg d s s' \<Longrightarrow> scstep\<^sup>=\<^sup>= (br_caller s) (br_caller s')"
proof (induction rule: brstep.induct)
  case (Run s i w env)
  then show ?case by (cases w) (auto simp: rt_defs split: sum.split intro: scstep.Cancel_requester)
qed (auto simp: rt_defs destroy_defs split: prod.splits intro: scstep.Execute)

lemma lease_projection: "brstep cfg d s s' \<Longrightarrow> (lmstep cfg)\<^sup>=\<^sup>= (br_leases s) (br_leases s')"
proof (induction rule: brstep.induct)
  case (Run s i w env)
  then show ?case
    by (cases w) (auto simp: rt_defs split: sum.split intro: lmstep.Heartbeat lmstep.Prune_timer)
next
  case (Run_rpc s i caller m env kind name requester)
  then show ?case by (auto simp: rt_defs intro: lmstep.Echo)
qed (auto simp: rt_defs destroy_defs split: prod.splits intro: lmstep.Message lmstep.Shut_down)

lemma unregisterRpcs_steps: "rcstep\<^sup>*\<^sup>* c (snd (unregisterRpcs env reg c))"
proof -
  have "rcstep\<^sup>*\<^sup>* c (fold (\<lambda>m c. snd (unregisterRpc env m c)) ms' c)" for ms'
    by (induction ms' arbitrary: c) (auto intro: rcstep.Unregister converse_rtranclp_into_rtranclp)
  then show ?thesis by (simp add: unregisterRpcs_def)
qed

lemma register_methods_steps: "register_methods env hs c = (ok, c') \<Longrightarrow> rcstep\<^sup>*\<^sup>* c c'"
proof (induction hs arbitrary: c ok c')
  case (Cons h hs)
  obtain m i where h: "h = (m, i)" by fastforce
  obtain ok1 c1 ok2 c2 where 1: "registerRpc env m i c = (ok1, c1)" and 2: "register_methods env hs c1 = (ok2, c2)" by fastforce
  have "rcstep c c1" using rcstep.Register [of c env m i] 1 by simp
  moreover have "rcstep\<^sup>*\<^sup>* c1 c2" using Cons.IH 2 .
  moreover have "c' = c2" using Cons.prems by (simp add: h 1 2)
  ultimately show ?case by (simp add: converse_rtranclp_into_rtranclp)
qed simp

lemma room_projection: "brstep cfg d s s' \<Longrightarrow> rcstep\<^sup>*\<^sup>* (br_room s) (br_room s')"
proof (induction rule: brstep.induct)
  case (Destroy_rpcs s sdk)
  show ?case using unregisterRpcs_steps [of "br_room s" sdk "br_registered s"] by (simp add: destroy_rpcs_def case_prod_unfold Let_def)
next
  case (Destroy_connection s)
  show ?case by (auto simp: destroy_connection_def intro: rcstep.Stop_request)
qed (auto simp: rt_defs destroy_defs split: prod.splits)

lemma publish_now_steps:
  "(pub_step (cfg_expand cfg) (cfg_policy cfg))\<^sup>*\<^sup>* p (publish_now cfg env request p)"
proof (cases "publish_check (cfg_expand cfg) (cfg_policy cfg) (we_resolve env) (we_graph env) request (pub p)")
  case (Inr r)
  show ?thesis
  proof (cases "publish_send (we_create env) (we_send env) r (pub p)")
    case (Some h)
    let ?p1 = "p\<lparr>checked := r # checked p\<rparr>"
    let ?p2 = "p\<lparr>sent := sent p @ [r], to_cache := (r, h) # to_cache p\<rparr>"
    let ?step = "pub_step (cfg_expand cfg) (cfg_policy cfg)"
    have "?step p ?p1" using Inr by (rule pub_step.Check)
    moreover have "?step ?p1 ?p2" using pub_step.Send [of r ?p1 "we_create env" "we_send env" h] Some by simp
    moreover have "?step ?p2 (publish_now cfg env request p)"
      using pub_step.Store [of r h ?p2] Inr Some by (simp add: publish_now_def)
    ultimately show ?thesis by (meson converse_rtranclp_into_rtranclp rtranclp.rtrancl_refl)
  qed (simp add: publish_now_def Inr)
qed (simp add: publish_now_def)

lemma publisher_projection:
  "brstep cfg d s s' \<Longrightarrow> (pub_step (cfg_expand cfg) (cfg_policy cfg))\<^sup>*\<^sup>* (br_publisher s) (br_publisher s')"
proof (induction rule: brstep.induct)
  case (Run s i w env)
  then show ?case by (cases w) (auto simp: rt_defs publish_now_steps split: sum.split)
qed (auto simp: rt_defs destroy_defs split: prod.splits)

interpretation cq: component "brstep cfg d" calls_inv qstep br_queue for cfg d
  by unfold_locales (erule (1) calls_inv_step, drule queue_projection, auto)

interpretation cs: component "brstep cfg d" calls_inv scstep br_caller for cfg d
  by unfold_locales (erule (1) calls_inv_step, drule caller_projection, auto)

interpretation cl: component "brstep cfg d" calls_inv "lmstep cfg" br_leases for cfg d
  by unfold_locales (erule (1) calls_inv_step, drule lease_projection, auto)

interpretation cr: component "brstep cfg d" calls_inv rcstep br_room for cfg d
  by unfold_locales (erule (1) calls_inv_step, drule room_projection, auto)

interpretation cp: component "brstep cfg d" calls_inv "pub_step (cfg_expand cfg) (cfg_policy cfg)" br_publisher for cfg d
  by unfold_locales (erule (1) calls_inv_step, drule publisher_projection, auto)

section \<open>The work queue\<close>

lemma running_ops [simp]:
  "running (submit i q) = running q" "running (wake t ok q) = running q" "running (shutdown_flip t q) = running q"
  "running (cancel_next q) = running q" "running (task_done i q) = []" "running (drain_exit q) = []"
  by (simp_all add: running_def queue_ops split: list.split)

lemma started_ops [simp]:
  "started (submit i q) = started q" "started (wake t ok q) = started q" "started (shutdown_flip t q) = started q"
  "started (cancel_next q) = started q" "started (task_done i q) = started q" "started (drain_exit q) = started q"
  "started (drain_enter t q) = started q"
  by (simp_all add: queue_ops split: list.split)

lemma submitted_ops [simp]:
  "set (all_submitted (submit i q)) = insert i (set (all_submitted q))" "all_submitted (wake t ok q) = all_submitted q"
  "all_submitted (shutdown_flip t q) = all_submitted q" "all_submitted (cancel_next q) = all_submitted q"
  "all_submitted (task_done i q) = all_submitted q" "all_submitted (drain_exit q) = all_submitted q"
  "all_submitted (drain_enter t q) = all_submitted q" "all_submitted (drain_next q) = all_submitted q"
  by (auto simp: all_submitted_def queue_ops split: list.split)

lemma running_drain_enter: "queue_inv q \<Longrightarrow> running (drain_enter t q) = running q"
  by (auto simp: running_def queue_inv_def queue_ops)

lemma running_task: "drain_pc q = RunningTask i \<Longrightarrow> running q = [i]" "drain_pc q = Leaving \<Longrightarrow> running q = []"
  by (simp_all add: running_def)

lemma drain_next_started:
  "drain_pc q = LoopHead \<Longrightarrow> started (drain_next q) = started q @ running (drain_next q)"
  by (simp add: running_def queue_ops split: list.split)

text \<open>Where a piece of work comes from.\<close>

definition origin :: "bridge \<Rightarrow> ros_work \<Rightarrow> bool" where
  "origin s w \<longleftrightarrow> w = PruneWork \<or> w = RpcWork \<or> (\<exists>ev \<in> set (br_events s). event_work ev = Some w)"

definition handled_inv :: "bridge \<Rightarrow> bool" where
  "handled_inv s \<longleftrightarrow> set (keys (br_work s)) = set (all_submitted (br_queue s))
     \<and> (\<exists>fin. started (br_queue s) = fin @ running (br_queue s) \<and> map (lookup (br_work s)) fin = map Some (br_handled s))"

definition origin_inv :: "bridge \<Rightarrow> bool" where
  "origin_inv s \<longleftrightarrow> (\<forall>w \<in> snd ` set (br_work s). origin s w) \<and> (\<forall>t w. at_pc t (Dispatching w) s \<longrightarrow> origin s w)"

lemma origin_mono: "set (br_events s) \<subseteq> set (br_events s') \<Longrightarrow> origin s w \<Longrightarrow> origin s' w"
  by (auto simp: origin_def)

lemma handled_submit:
  assumes "handled_inv s" "queue_inv (br_queue s)" "fresh_task i s"
    and "br_queue s' = submit i (br_queue s)" "br_work s' = (i, w) # br_work s" "br_handled s' = br_handled s"
  shows "handled_inv s'"
proof -
  from assms(1) obtain fin where f: "started (br_queue s) = fin @ running (br_queue s)"
      "map (lookup (br_work s)) fin = map Some (br_handled s)" by (auto simp: handled_inv_def)
  have "set fin \<subseteq> set (all_submitted (br_queue s))"
    using f(1) assms(2) by (auto simp: queue_inv_def all_submitted_def)
  with assms(3) have "i \<notin> set fin" by blast
  then have "map (lookup (br_work s')) fin = map (lookup (br_work s)) fin" by (auto simp: assms(5))
  with f assms show ?thesis by (auto simp: handled_inv_def)
qed

lemma submitRosWork_cases:
  assumes "submitRosWork t i w s = (queued, s1)"
  shows "br_queue s1 = br_queue s \<and> br_work s1 = br_work s \<or> br_queue s1 = submit i (br_queue s) \<and> br_work s1 = (i, w) # br_work s"
  using assms by (auto simp: submitRosWork_def leave_gate_def Let_def split: option.splits if_splits)

lemma submit_ops_cases:
  "br_queue (callback_submit t i w s) = br_queue s \<and> br_work (callback_submit t i w s) = br_work s
   \<or> br_queue (callback_submit t i w s) = submit i (br_queue s) \<and> br_work (callback_submit t i w s) = (i, w) # br_work s"
  "br_queue (prune_timer t i s) = br_queue s \<and> br_work (prune_timer t i s) = br_work s
   \<or> br_queue (prune_timer t i s) = submit i (br_queue s) \<and> br_work (prune_timer t i s) = (i, PruneWork) # br_work s"
  by (simp_all add: callback_submit_def prune_timer_def move_pc_def split: prod.split)
    (auto dest: submitRosWork_cases)

lemma handled_same:
  "handled_inv s \<Longrightarrow> br_queue s' = br_queue s \<Longrightarrow> br_work s' = br_work s \<Longrightarrow> br_handled s' = br_handled s \<Longrightarrow> handled_inv s'"
  by (simp add: handled_inv_def)

lemma handled_inv_step:
  assumes "brstep cfg d s s'" "queue_inv (br_queue s)" "handled_inv s"
  shows "handled_inv s'"
  using assms
proof (induction rule: brstep.induct)
  case (Submit_work t w s i)
  from submit_ops_cases(1) [of t i w s] show ?case
    using Submit_work handled_submit [of s i "callback_submit t i w s" w] handled_same [of s "callback_submit t i w s"] by auto
next
  case (Timer t s i)
  from submit_ops_cases(2) [of t i s] show ?case
    using Timer handled_submit [of s i "prune_timer t i s" PruneWork] handled_same [of s "prune_timer t i s"] by auto
next
  case (Rpc t s i)
  then show ?case using handled_submit [of s i "rpc_submit t i s" RpcWork] by (simp add: rpc_submit_def Let_def)
next
  case (Drain s t)
  then show ?case by (simp add: handled_inv_def running_drain_enter)
next
  case (Next_task s)
  then have "running (br_queue s) = []" by (simp add: running_def)
  with Next_task show ?case by (auto simp: handled_inv_def drain_next_started)
next
  case (Run s i w env)
  then show ?case by (auto simp: handled_inv_def finish_work_def running_task)
next
  case (Run_rpc s i caller m env kind name requester)
  then show ?case by (auto simp: handled_inv_def finish_work_def running_task)
next
  case (End_drain s)
  then show ?case by (auto simp: handled_inv_def running_task)
qed (auto simp: handled_inv_def rt_defs destroy_defs split: prod.splits)

lemma origin_same: "br_events s' = br_events s \<Longrightarrow> origin s' w = origin s w"
  by (simp add: origin_def)

lemma room_callback_origin:
  assumes "origin_inv s"
  shows "origin_inv (room_callback t ev s)"
proof (cases "tryEnter t (br_gate s)")
  case (Some g)
  have mono: "origin s w \<Longrightarrow> origin (room_callback t ev s) w" for w
    by (rule origin_mono [of s]) (auto simp: room_callback_def Some)
  have "event_work ev = Some w \<Longrightarrow> origin (room_callback t ev s) w" for w
    by (auto simp: origin_def room_callback_def Some)
  moreover have "at_pc u (Dispatching w) (room_callback t ev s) \<Longrightarrow> at_pc u (Dispatching w) s \<or> event_work ev = Some w" for u w
    by (auto simp: room_callback_def at_pc_def Some split: option.splits)
  ultimately show ?thesis using assms mono by (simp add: origin_inv_def) blast
qed (use assms in \<open>simp add: room_callback_def\<close>)

lemma room_moves_origin:
  assumes "origin_inv s"
  shows "origin_inv (room_moves t now c s)"
proof -
  have "origin_inv (s\<lparr>br_room := c\<rparr>)" using assms by (simp add: origin_inv_def origin_def at_pc_def)
  then show ?thesis by (simp add: room_moves_def Let_def room_callback_origin)
qed

text \<open>A step that reports no event keeps the origins when its work and its dispatches were known.\<close>

lemma origin_inv_known:
  assumes "origin_inv s" "br_events s' = br_events s"
    and "\<And>i w. (i, w) \<in> set (br_work s') \<Longrightarrow> (i, w) \<in> set (br_work s) \<or> origin s w"
    and "\<And>t w. (t, Dispatching w) \<in> set (br_calls s') \<Longrightarrow> (t, Dispatching w) \<in> set (br_calls s)"
  shows "origin_inv s'"
  unfolding origin_inv_def origin_same [OF assms(2)]
proof (intro conjI ballI allI impI)
  fix w assume "w \<in> snd ` set (br_work s')"
  then obtain i where "(i, w) \<in> set (br_work s')" by force
  from assms(3) [OF this] assms(1) show "origin s w" by (force simp: origin_inv_def)
next
  fix t w assume "at_pc t (Dispatching w) s'"
  with assms(1) assms(4) [of t w] show "origin s w" by (simp add: origin_inv_def at_pc_def)
qed

lemma origin_inv_pc:
  assumes "origin_inv s" "br_events s' = br_events s" "br_work s' = br_work s"
    and "br_calls s' = remove1 c (br_calls s) \<or> br_calls s' = (t, Returning) # remove1 c (br_calls s)"
  shows "origin_inv s'"
  by (rule origin_inv_known [OF assms(1,2)]) (use assms(3,4) in \<open>auto dest: set_remove1_subset [THEN subsetD]\<close>)

lemma submitRosWork_known:
  assumes "submitRosWork t i w s = (queued, s1)"
  shows "br_calls s1 = br_calls s" "br_events s1 = br_events s" "set (br_work s1) \<subseteq> insert (i, w) (set (br_work s))"
  using assms by (auto simp: submitRosWork_def leave_gate_def Let_def split: option.splits if_splits)

lemma submit_ops_known:
  "set (br_work (callback_submit t i w s)) \<subseteq> insert (i, w) (set (br_work s))"
  "(u, Dispatching v) \<in> set (br_calls (callback_submit t i w s)) \<Longrightarrow> (u, Dispatching v) \<in> set (br_calls s)"
  "set (br_work (prune_timer t i s)) \<subseteq> insert (i, PruneWork) (set (br_work s))"
  "(u, Dispatching v) \<in> set (br_calls (prune_timer t i s)) \<Longrightarrow> (u, Dispatching v) \<in> set (br_calls s)"
proof -
  obtain q s1 where 1: "submitRosWork t i w s = (q, s1)" by fastforce
  obtain q' s2 where 2: "submitRosWork t i PruneWork s = (q', s2)" by fastforce
  note k = submitRosWork_known [OF 1] submitRosWork_known [OF 2]
  show "set (br_work (callback_submit t i w s)) \<subseteq> insert (i, w) (set (br_work s))"
    and "set (br_work (prune_timer t i s)) \<subseteq> insert (i, PruneWork) (set (br_work s))"
    using k by (auto simp: callback_submit_def prune_timer_def move_pc_def 1 2)
  show "(u, Dispatching v) \<in> set (br_calls (callback_submit t i w s)) \<Longrightarrow> (u, Dispatching v) \<in> set (br_calls s)"
    using k notin_set_remove1 by (fastforce simp: callback_submit_def move_pc_def 1 split: if_splits)
  show "(u, Dispatching v) \<in> set (br_calls (prune_timer t i s)) \<Longrightarrow> (u, Dispatching v) \<in> set (br_calls s)"
    using k by (auto simp: prune_timer_def 2 split: if_splits)
qed

lemma origin_inv_step: "brstep cfg d s s' \<Longrightarrow> origin_inv s \<Longrightarrow> origin_inv s'"
proof (induction rule: brstep.induct)
  case (Room s c t now)
  then show ?case by (simp add: room_moves_origin)
next
  case (Packet p s t)
  then show ?case by (simp add: room_callback_origin)
next
  case (Gone who s identity t)
  then show ?case by (simp add: room_callback_origin)
next
  case (Submit_work t w s i)
  then have "origin s w" by (simp add: origin_inv_def)
  then show ?case
    using Submit_work(3) submit_ops_known(1) [of t i w s] submit_ops_known(2) [of _ _ t i w s]
    by - (rule origin_inv_known [of s], auto)
next
  case (Timer t s i)
  have "origin s PruneWork" by (simp add: origin_def)
  then show ?case
    using Timer(3) submit_ops_known(3) [of t i s] submit_ops_known(4) [of _ _ t i s] by - (rule origin_inv_known [of s], auto)
next
  case (Rpc t s i)
  have "origin s RpcWork" by (simp add: origin_def)
  then show ?case
    using Rpc(3) by - (rule origin_inv_known [of s], auto simp: rpc_submit_def Let_def split: if_splits)
next
  case (Wake_callback t s ok)
  then show ?case by - (rule origin_inv_pc [of s _ "(t, Submitted)" t], simp_all add: rt_defs)
next
  case (Return_callback t s)
  then show ?case by - (rule origin_inv_pc [of s _ "(t, Returning)"], simp_all add: rt_defs)
next
  case (Wake_timer t s ok)
  then show ?case by - (rule origin_inv_pc [of s _ "(t, TimerSubmitted)"], simp_all add: rt_defs)
next
  case (Wake_rpc t s ok)
  then show ?case by - (rule origin_inv_pc [of s _ "(t, RpcSubmitted)"], simp_all add: rt_defs)
qed (simp_all add: origin_inv_def origin_def at_pc_def finish_work_def destroy_defs Let_def split: prod.splits)

section \<open>Reachable states\<close>

definition bridge_reachable :: "lm_config \<Rightarrow> thread \<Rightarrow> bridge \<Rightarrow> bool" where
  "bridge_reachable cfg d s \<longleftrightarrow>
     (\<exists>sdk now config s0. runtime_start sdk now config room_init = Inr s0 \<and> (brstep cfg d)\<^sup>*\<^sup>* s0 s)"

definition components_reachable :: "lm_config \<Rightarrow> bridge \<Rightarrow> bool" where
  "components_reachable cfg s \<longleftrightarrow> queue_reachable (br_queue s) \<and> caller_reachable (br_caller s) \<and> lm_reachable cfg (br_leases s)
     \<and> room_reachable (br_room s)
     \<and> (pub_step (cfg_expand cfg) (cfg_policy cfg))\<^sup>*\<^sup>* (system_init kDefaultMaxTopics) (br_publisher s)"

definition bridge_inv :: "lm_config \<Rightarrow> bridge \<Rightarrow> bool" where
  "bridge_inv cfg s \<longleftrightarrow> calls_inv s \<and> components_reachable cfg s \<and> handled_inv s \<and> origin_inv s"

lemma registerRpcs_steps: "registerRpcs env reg c = (ok, reg', c') \<Longrightarrow> rcstep\<^sup>*\<^sup>* c c'"
  by (auto simp: registerRpcs_def Let_def split: prod.splits intro: register_methods_steps)

lemma runtime_start_inv:
  assumes "runtime_start sdk now config room_init = Inr s0"
  shows "bridge_inv cfg s0 \<and> br_stage s0 = Serving \<and> drain_owner (br_queue s0) = None"
proof -
  obtain ok reg c where r: "registerRpcs sdk False room_init = (ok, reg, c)" by (metis prod_cases3)
  have "room_reachable (rc_start \<lparr>lk_url = rcfg_url config, lk_token = rcfg_access_token config\<rparr> c)"
    using rtranclp.rtrancl_into_rtrancl [OF registerRpcs_steps [OF r] rcstep.Start] .
  with assms show ?thesis
    by (auto simp: runtime_start_def r bridge_inv_def calls_inv_def components_reachable_def handled_inv_def origin_inv_def at_pc_def
        gate_init_def queue_init_def running_def all_submitted_def split: if_splits)
qed

lemma reachable_queue_inv: "components_reachable cfg s \<Longrightarrow> queue_inv (br_queue s)"
  by (simp add: components_reachable_def eq.reachable_good)

lemma bridge_inv_step:
  assumes "brstep cfg d s s'" "bridge_inv cfg s"
  shows "bridge_inv cfg s'"
proof -
  have "components_reachable cfg s'"
    using assms(2) cq.step_reaches [OF assms(1)] cs.step_reaches [OF assms(1)] cl.step_reaches [OF assms(1)]
      cr.step_reaches [OF assms(1)] cp.step_reaches [OF assms(1)] by (simp add: bridge_inv_def components_reachable_def)
  with assms show ?thesis
    using calls_inv_step handled_inv_step origin_inv_step reachable_queue_inv unfolding bridge_inv_def by blast
qed

lemma reachable_bridge_inv:
  assumes "bridge_reachable cfg d s"
  shows "bridge_inv cfg s"
proof -
  obtain sdk now config s0 where "runtime_start sdk now config room_init = Inr s0" and r: "(brstep cfg d)\<^sup>*\<^sup>* s0 s"
    using assms by (auto simp: bridge_reachable_def)
  then have "bridge_inv cfg s0" using runtime_start_inv by blast
  with r show ?thesis by (induction rule: rtranclp_induct) (auto intro: bridge_inv_step)
qed


text \<open>
  C8: Work is done in order and only on request: in every state the bridge can reach, the work the
  executor has run is, in order, the beginning of the work the queue accepted, followed by the
  work it is running and the work still queued or cancelled by shutdown; and each piece is a prune, an RPC, or
  the work of an event that passed the gate: a publish request, a heartbeat, or the cancellation
  for a participant that left.
\<close>

theorem works_run_in_order:
  assumes "bridge_reachable cfg d s"
  shows "map (lookup (br_work s)) (accepted (br_queue s)) = map Some (br_handled s) @
      map (lookup (br_work s)) (running (br_queue s) @ (if q_shutdown (br_queue s) then snapshot (br_queue s) else tasks (br_queue s)))
    \<and> (\<forall>w \<in> set (br_handled s). w = PruneWork \<or> w = RpcWork \<or> (\<exists>ev \<in> set (br_events s). event_work ev = Some w))"
proof -
  have inv: "handled_inv s" "origin_inv s" "queue_inv (br_queue s)"
    using reachable_bridge_inv [OF assms] by (auto simp: bridge_inv_def dest: reachable_queue_inv)
  then obtain fin where f: "started (br_queue s) = fin @ running (br_queue s)" "map (lookup (br_work s)) fin = map Some (br_handled s)"
    by (auto simp: handled_inv_def)
  have "origin s w" if "w \<in> set (br_handled s)" for w
  proof -
    have "Some w \<in> set (map (lookup (br_work s)) fin)" unfolding f(2) using that by simp
    then obtain i where "lookup (br_work s) i = Some w" by auto
    then have "w \<in> snd ` set (br_work s)" by (force dest: map_of_SomeD)
    with inv(2) show ?thesis unfolding origin_inv_def by blast
  qed
  moreover have "accepted (br_queue s) = started (br_queue s) @ (if q_shutdown (br_queue s) then snapshot (br_queue s) else tasks (br_queue s))"
    using inv(3) by (simp add: queue_inv_def)
  ultimately show ?thesis using f by (simp add: origin_def)
qed

section \<open>Shutdown\<close>

text \<open>What each stage of the destructor has achieved.\<close>

definition stage_inv :: "thread \<Rightarrow> bridge \<Rightarrow> bool" where
  "stage_inv d s \<longleftrightarrow> drain_owner (br_queue s) \<noteq> Some d
     \<and> (br_stage s \<noteq> Serving \<longrightarrow> gate_closed (br_gate s))
     \<and> (br_stage s \<notin> {Serving, ClosingGate} \<longrightarrow> active_count (br_gate s) = 0 \<and> wd_stop_requested (br_watchdog s))
     \<and> (br_stage s \<in> {ClosingQueue, LeasesDown, Unregistered, ConnectionStopped} \<longrightarrow> q_shutdown (br_queue s))
     \<and> (br_stage s \<in> {LeasesDown, Unregistered, ConnectionStopped} \<longrightarrow> \<not> draining (br_queue s) \<and> lm_shutdown (br_leases s))"

lemma room_callback_closed: "gate_closed (br_gate s) \<Longrightarrow> room_callback t ev s = s"
  by (simp add: room_callback_def tryEnter_def)

lemma submitRosWork_closed: "gate_closed (br_gate s) \<Longrightarrow> submitRosWork t i w s = (False, s)"
  by (simp add: submitRosWork_def tryEnter_def)

lemma shutdown_ops [simp]:
  "q_shutdown (submit i q) = q_shutdown q" "q_shutdown (cancel_next q) = q_shutdown q" "q_shutdown (drain_enter t q) = q_shutdown q"
  "q_shutdown (drain_next q) = q_shutdown q" "q_shutdown (task_done i q) = q_shutdown q" "q_shutdown (drain_exit q) = q_shutdown q"
  "q_shutdown (shutdown_flip t q)"
  by (simp_all add: queue_ops split: list.split)

lemma wake_down: "q_shutdown q \<Longrightarrow> wake t ok q = q\<lparr>wakes_due := wakes_due q - 1\<rparr>"
  by (simp add: wake_def Let_def)

lemma drain_ops [simp]:
  "draining (submit i q) = draining q" "draining (wake t ok q) = draining q" "draining (cancel_next q) = draining q"
  "draining (drain_next q) = draining q" "draining (task_done i q) = draining q" "draining (shutdown_flip t q) = draining q"
  "drain_owner (submit i q) = drain_owner q" "drain_owner (wake t ok q) = drain_owner q" "drain_owner (cancel_next q) = drain_owner q"
  "drain_owner (drain_next q) = drain_owner q" "drain_owner (task_done i q) = drain_owner q" "drain_owner (shutdown_flip t q) = drain_owner q"
  "drain_owner (drain_exit q) = None" "\<not> draining (drain_exit q)"
  by (simp_all add: queue_ops split: list.split)

lemma drain_enter_down: "q_shutdown q \<Longrightarrow> drain_enter t q = q\<lparr>guard_triggered := False\<rparr>"
  by (simp add: drain_enter_def Let_def)

lemma drain_enter_owner: "t \<noteq> d \<Longrightarrow> drain_owner q \<noteq> Some d \<Longrightarrow> drain_owner (drain_enter t q) \<noteq> Some d"
  by (simp add: drain_enter_def Let_def)

lemma lm_shutdown_step: "lmstep cfg m m' \<Longrightarrow> lm_inv m \<Longrightarrow> lm_shutdown m \<Longrightarrow> lm_shutdown m'"
  using ld.down_step [of cfg m m'] by (simp add: lm_down_def)

lemma reachable_lm_shutdown:
  assumes "brstep cfg d s s'" "components_reachable cfg s" "lm_shutdown (br_leases s)"
  shows "lm_shutdown (br_leases s')"
  using lease_projection [OF assms(1)] assms(2,3) lm_shutdown_step reachable_lm_inv by (auto simp: components_reachable_def)

lemma idle_not_draining: "idle_for d q \<Longrightarrow> drain_owner q \<noteq> Some d \<Longrightarrow> \<not> draining q"
  by (simp add: idle_for_def)

lemma watchdog_stops [simp]:
  "wd_stop_requested (run_wake now w) = wd_stop_requested w" "wd_stop_requested (watchdog_stop w)"
  "wd_stop_requested (onStateChanged st now w) = wd_stop_requested w"
  by (simp_all add: run_wake_def watchdog_stop_def onStateChanged_def clearOutage_def startOutageTimer_def split: option.split)

lemma report_state_stops [simp]: "wd_stop_requested (report_state ev w) = wd_stop_requested w"
  by (cases ev) simp_all

text \<open>What a step that is not one of the destructor's may do to a closing bridge.\<close>

definition closes_on :: "bridge \<Rightarrow> bridge \<Rightarrow> bool" where
  "closes_on s s' \<longleftrightarrow> br_stage s' = br_stage s \<and> (gate_closed (br_gate s) \<longrightarrow> gate_closed (br_gate s') \<and> (active_count (br_gate s) = 0 \<longrightarrow> active_count (br_gate s') = 0))
     \<and> wd_stop_requested (br_watchdog s') = wd_stop_requested (br_watchdog s)
     \<and> (q_shutdown (br_queue s) \<longrightarrow> q_shutdown (br_queue s') \<and> (\<not> draining (br_queue s) \<longrightarrow> \<not> draining (br_queue s')))"

lemma room_callback_closes: "closes_on s (room_callback t ev s)"
  by (cases "gate_closed (br_gate s)")
    (auto simp: closes_on_def room_callback_closed, auto simp: room_callback_def dest: tryEnter_Some split: option.splits)

lemma room_moves_closes: "closes_on s (room_moves t now c s)"
  using room_callback_closes [of "s\<lparr>br_room := c\<rparr>" t "StateReport (last (notified c)) now"]
  by (auto simp: room_moves_def closes_on_def Let_def)

lemma submitRosWork_closes: "submitRosWork t i w s = (queued, s1) \<Longrightarrow> closes_on s s1"
  by (cases "gate_closed (br_gate s)")
    (auto simp: submitRosWork_closed closes_on_def, auto simp: submitRosWork_def leave_gate_def Let_def dest: tryEnter_Some split: option.splits if_splits)

lemma wake_shutdown: "q_shutdown q \<Longrightarrow> q_shutdown (wake t ok q)"
  by (simp add: wake_down)

lemma submit_ops_close: "closes_on s (callback_submit t i w s)" "closes_on s (prune_timer t i s)"
proof -
  obtain q s1 where 1: "submitRosWork t i w s = (q, s1)" by fastforce
  obtain q' s2 where 2: "submitRosWork t i PruneWork s = (q', s2)" by fastforce
  show "closes_on s (callback_submit t i w s)"
    using submitRosWork_closes [OF 1] by (simp add: callback_submit_def move_pc_def 1 closes_on_def)
  show "closes_on s (prune_timer t i s)"
    using submitRosWork_closes [OF 2] by (simp add: prune_timer_def 2 closes_on_def)
qed

lemma destroy_rpcs_eq:
  "destroy_rpcs env s = s\<lparr>br_registered := fst (unregisterRpcs env (br_registered s) (br_room s)),
     br_room := snd (unregisterRpcs env (br_registered s) (br_room s)), br_stage := Unregistered\<rparr>"
  by (simp add: destroy_rpcs_def case_prod_unfold Let_def)

lemmas destroy_eqs = destroy_close_def destroy_watchdog_def destroy_queue_def destroy_leases_def destroy_rpcs_eq destroy_connection_def

definition destroys :: "thread \<Rightarrow> bridge \<Rightarrow> bridge \<Rightarrow> bool" where
  "destroys d s s' \<longleftrightarrow> br_stage s = Serving \<and> s' = destroy_close s
     \<or> br_stage s = ClosingGate \<and> wait_done d AllCallbacks (br_gate s) \<and> s' = destroy_watchdog s
     \<or> br_stage s = StoppingWatchdog \<and> s' = destroy_queue d s
     \<or> (\<exists>env. br_stage s = ClosingQueue \<and> shutdown_may_return d (br_queue s) \<and> s' = destroy_leases env s)
     \<or> (\<exists>sdk. br_stage s = LeasesDown \<and> s' = destroy_rpcs sdk s)
     \<or> br_stage s = Unregistered \<and> s' = destroy_connection s"

lemma brstep_closes: "brstep cfg d s s' \<Longrightarrow> closes_on s s' \<or> destroys d s s'"
proof (induction rule: brstep.induct)
  case (Drain s t)
  then show ?case by (auto simp: closes_on_def drain_enter_down)
qed (auto simp: room_callback_closes room_moves_closes submit_ops_close,
     auto simp: closes_on_def destroys_def rt_defs wake_shutdown)

lemma brstep_owner: "brstep cfg d s s' \<Longrightarrow> drain_owner (br_queue s) \<noteq> Some d \<Longrightarrow> drain_owner (br_queue s') \<noteq> Some d"
proof (induction rule: brstep.induct)
  case (Submit_work t w s i)
  then show ?case using submit_ops_queue(1) [of t i w s] by auto
next
  case (Timer t s i)
  then show ?case using submit_ops_queue(2) [of t i s] by auto
qed (auto simp: rt_defs destroy_defs drain_enter_owner split: prod.splits)

lemma lm_shutdown_op_shut [simp]: "lm_shutdown (lm_shutdown_op env m)"
  by (simp add: lm_shutdown_op_def)

lemma destroy_stage_inv:
  assumes "stage_inv d s"
  shows "br_stage s = Serving \<Longrightarrow> stage_inv d (destroy_close s)"
    and "br_stage s = ClosingGate \<Longrightarrow> wait_done d AllCallbacks (br_gate s) \<Longrightarrow> stage_inv d (destroy_watchdog s)"
    and "br_stage s = StoppingWatchdog \<Longrightarrow> stage_inv d (destroy_queue d s)"
    and "br_stage s = ClosingQueue \<Longrightarrow> shutdown_may_return d (br_queue s) \<Longrightarrow> stage_inv d (destroy_leases env s)"
    and "br_stage s = LeasesDown \<Longrightarrow> stage_inv d (destroy_rpcs sdk s)"
    and "br_stage s = Unregistered \<Longrightarrow> stage_inv d (destroy_connection s)"
  using assms
  by (simp_all add: stage_inv_def destroy_eqs closeAndWait_def wait_done_def activeCallbacksToWaitFor_def shutdown_may_return_def idle_for_def)

lemma destroy_stages [simp]:
  "br_stage (destroy_close s) = ClosingGate" "br_stage (destroy_watchdog s) = StoppingWatchdog" "br_stage (destroy_queue d s) = ClosingQueue"
  "br_stage (destroy_leases env s) = LeasesDown" "br_stage (destroy_rpcs sdk s) = Unregistered" "br_stage (destroy_connection s) = ConnectionStopped"
  by (simp_all add: destroy_eqs)

lemma stage_inv_step:
  assumes "brstep cfg d s s'" "bridge_inv cfg s" "stage_inv d s"
  shows "stage_inv d s'"
proof -
  have own: "drain_owner (br_queue s') \<noteq> Some d" using brstep_owner [OF assms(1)] assms(3) by (simp add: stage_inv_def)
  have lm: "lm_shutdown (br_leases s) \<Longrightarrow> lm_shutdown (br_leases s')"
    using reachable_lm_shutdown [OF assms(1)] assms(2) by (simp add: bridge_inv_def)
  from brstep_closes [OF assms(1)] show ?thesis
  proof
    assume "closes_on s s'"
    with own lm assms(3) show ?thesis by (auto simp: stage_inv_def closes_on_def)
  next
    assume "destroys d s s'"
    then show ?thesis unfolding destroys_def using destroy_stage_inv [OF assms(3)] by blast
  qed
qed

lemma reachable_stage_inv:
  assumes "bridge_reachable cfg d s"
  shows "stage_inv d s"
proof -
  obtain sdk now config s0 where s0: "runtime_start sdk now config room_init = Inr s0" and r: "(brstep cfg d)\<^sup>*\<^sup>* s0 s"
    using assms by (auto simp: bridge_reachable_def)
  from r have "bridge_reachable cfg d s \<and> stage_inv d s"
  proof (induction rule: rtranclp_induct)
    case base
    show ?case using runtime_start_inv [OF s0] s0 by (auto simp: bridge_reachable_def stage_inv_def)
  next
    case (step y z)
    then have "bridge_reachable cfg d z" unfolding bridge_reachable_def by (meson rtranclp.rtrancl_into_rtrancl)
    with step show ?case using stage_inv_step [OF step.hyps(2)] reachable_bridge_inv by blast
  qed
  then show ?thesis ..
qed

text \<open>
  Once the leases are gone nothing more happens to the outside: what was done before is all that
  is ever done.
\<close>

definition past :: "bridge \<Rightarrow> ros_work list \<times> publisher_system \<times> room_event list \<times> bool" where
  "past s = (br_handled s, br_publisher s, br_events s, wd_exited (br_watchdog s))"

abbreviation after_leases :: "bridge \<Rightarrow> bool" where
  "after_leases s \<equiv> br_stage s \<in> {LeasesDown, Unregistered, ConnectionStopped}"

lemma wake_stopped: "wd_stop_requested w \<Longrightarrow> wd_exited (run_wake now w) = wd_exited w"
  by (simp add: run_wake_def)

lemma past_kept:
  assumes "brstep cfg d s s'" "drain_pc (br_queue s) = NotDraining" "gate_closed (br_gate s)" "wd_stop_requested (br_watchdog s)"
    and "br_stage s \<noteq> ClosingGate"
  shows "past s' = past s"
  using assms
proof (induction rule: brstep.induct)
  case (Room s c t now)
  then show ?case by (simp add: room_moves_def Let_def room_callback_closed past_def)
next
  case (Submit_work t w s i)
  then show ?case by (simp add: callback_submit_def move_pc_def submitRosWork_closed past_def)
next
  case (Timer t s i)
  then show ?case by (simp add: prune_timer_def submitRosWork_closed past_def)
next
  case (Watch s now)
  then show ?case by (simp add: past_def wake_stopped)
qed (simp_all add: room_callback_closed past_def rt_defs destroy_eqs)

lemma after_leases_kept: "brstep cfg d s s' \<Longrightarrow> after_leases s \<Longrightarrow> after_leases s'"
  by (drule brstep_closes) (auto simp: closes_on_def destroys_def)

definition quiet :: "ros_work list \<times> publisher_system \<times> room_event list \<times> bool \<Rightarrow> lm_config \<Rightarrow> thread \<Rightarrow> bridge \<Rightarrow> bool" where
  "quiet p cfg d s \<longleftrightarrow> past s = p \<and> bridge_inv cfg s \<and> stage_inv d s \<and> after_leases s"

lemma quiet_facts:
  assumes "queue_inv (br_queue s)" "stage_inv d s" "after_leases s"
  shows "drain_pc (br_queue s) = NotDraining" "gate_closed (br_gate s)" "wd_stop_requested (br_watchdog s)" "br_stage s \<noteq> ClosingGate"
    "lm_shutdown (br_leases s)"
proof -
  show ng: "br_stage s \<noteq> ClosingGate" using assms(3) by auto
  have ns: "br_stage s \<noteq> Serving" using assms(3) by auto
  with assms(2) show "gate_closed (br_gate s)" by (simp add: stage_inv_def)
  from assms(2) ns ng show "wd_stop_requested (br_watchdog s)" by (simp add: stage_inv_def)
  from assms(2,3) have "\<not> draining (br_queue s)" and lm: "lm_shutdown (br_leases s)" unfolding stage_inv_def by blast+
  then show "drain_pc (br_queue s) = NotDraining" using assms(1) by (simp add: queue_inv_def)
  show "lm_shutdown (br_leases s)" by (rule lm)
qed

interpretation bd: terminal_shutdown "brstep cfg d" "quiet p cfg d" for p cfg d
proof
  fix s s' assume step: "brstep cfg d s s'" and q: "quiet p cfg d s"
  then have inv: "bridge_inv cfg s" "stage_inv d s" "after_leases s" "past s = p" unfolding quiet_def by blast+
  then have "queue_inv (br_queue s)" using reachable_queue_inv by (auto simp: bridge_inv_def)
  from past_kept [OF step quiet_facts(1-4) [OF this inv(2,3)]] inv(4) have "past s' = p" by (rule trans)
  then show "quiet p cfg d s'"
    using bridge_inv_step [OF step inv(1)] stage_inv_step [OF step inv(1,2)] after_leases_kept [OF step inv(3)]
    unfolding quiet_def by blast
qed

text \<open>
  C14: Destruction is quiet: once the destructor has closed the gate, stopped the watchdog, closed the
  queue and shut the leases down, in every later state, whatever callbacks, timers and RPCs are still
  attempted, no event passes the gate, no work is run, nothing is published, no subscription is
  held and the watchdog does not end the process.
\<close>

theorem destruction_is_quiet:
  assumes "bridge_reachable cfg d s" "after_leases s" "(brstep cfg d)\<^sup>*\<^sup>* s s'"
  shows "br_events s' = br_events s \<and> br_handled s' = br_handled s \<and> br_publisher s' = br_publisher s
    \<and> wd_exited (br_watchdog s') = wd_exited (br_watchdog s) \<and> subscriptions (br_leases s') = []
    \<and> tryEnter t (br_gate s') = None \<and> running (br_queue s') = []"
proof -
  have "quiet (past s) cfg d s"
    using assms(1,2) reachable_bridge_inv reachable_stage_inv unfolding quiet_def by blast
  from bd.down_forever [OF assms(3) this]
  have q: "past s' = past s" "bridge_inv cfg s'" "stage_inv d s'" "after_leases s'" unfolding quiet_def by blast+
  then have qi: "queue_inv (br_queue s')" and lr: "lm_reachable cfg (br_leases s')"
    using reachable_queue_inv by (auto simp: bridge_inv_def components_reachable_def)
  note f = quiet_facts [OF qi q(3,4)]
  have "subscriptions (br_leases s') = []" using reachable_lm_inv [OF lr] f(5) by (simp add: lm_inv_def)
  with q(1) f(1,2) show ?thesis by (simp add: past_def tryEnter_def running_def)
qed

section \<open>A run\<close>

text \<open>
  The bridge connects to room 7; participant alice leaves, the executor cancels her calls, and
  the bridge is destroyed. Thread 0 runs the destructor, thread 1 the callbacks, thread 2 the executor.
\<close>

definition run_sdk :: sdk_env where
  "run_sdk = \<lparr>sdk_alive = True, sdk_unregister = True, sdk_register = (\<lambda>m. True)\<rparr>"

definition run_config :: runtime_config where
  "run_config = \<lparr>rcfg_url = ''wss://room'', rcfg_access_token = ''tok'', rcfg_watchdog_enabled = True, rcfg_recovery_timeout = ms 75000,
     rcfg_policy = cfg_policy sample_cfg, rcfg_qos = [], rcfg_video = video_makeDefaultConfig, rcfg_audio = audio_makeDefaultConfig\<rparr>"

definition run_env :: work_env where
  "run_env = \<lparr>we_json = (\<lambda>b. None), we_evp = (\<lambda>s n. None), we_resolve = Inr, we_graph = [], we_create = (\<lambda>t y. Inr 1),
     we_send = (\<lambda>h b. Inr ()), we_lease = robot_env 0, we_service = sample_env\<rparr>"

definition room_now :: "(room_connection \<Rightarrow> room_connection) \<Rightarrow> bridge \<Rightarrow> bridge" where
  "room_now f s = room_moves 1 0 (f (br_room s)) s"

definition run_start :: bridge where
  "run_start = (case runtime_start run_sdk 0 run_config room_init of Inr s \<Rightarrow> s)"

definition run_room :: "nat \<Rightarrow> bridge" where
  "run_room n = fold room_now (take n [run_initialize True, connect_room (connectRoom (Inr True) True 7), connect_activate run_sdk 7, connect_finish]) run_start"

definition run_connected :: bridge where
  "run_connected = end_call 1 Returning (leave_gate 1 (run_room 4))"

definition run_gone :: bridge where
  "run_gone = room_callback 1 (ParticipantGone ''alice'') run_connected"

definition run_submitted :: bridge where
  "run_submitted = callback_submit 1 10 (CancelWork ''alice'') run_gone"

definition run_woken :: bridge where
  "run_woken = move_pc 1 Submitted Returning (leave_gate 1 (wake_queue 1 True run_submitted))"

definition run_returned :: bridge where
  "run_returned = end_call 1 Returning (leave_gate 1 run_woken)"

definition run_drained :: bridge where
  "run_drained = (let s = run_returned\<lparr>br_queue := drain_enter 2 (br_queue run_returned)\<rparr> in s\<lparr>br_queue := drain_next (br_queue s)\<rparr>)"

definition run_handled :: bridge where
  "run_handled = finish_work 10 (CancelWork ''alice'') (run_work sample_cfg run_env (CancelWork ''alice'') run_drained)"

definition run_idle :: bridge where
  "run_idle = (let s = run_handled\<lparr>br_queue := drain_next (br_queue run_handled)\<rparr> in s\<lparr>br_queue := drain_exit (br_queue s)\<rparr>)"

definition run_closed :: bridge where
  "run_closed = destroy_queue 0 (destroy_watchdog (destroy_close run_idle))"

definition run_down :: bridge where
  "run_down = destroy_leases (robot_env 0) run_closed"

abbreviation run_steps :: "bridge \<Rightarrow> bridge \<Rightarrow> bool" where
  "run_steps \<equiv> (brstep sample_cfg 0)\<^sup>*\<^sup>*"

lemma run_room_step:
  assumes "n < 4" "rcstep (br_room (run_room n)) (([run_initialize True, connect_room (connectRoom (Inr True) True 7), connect_activate run_sdk 7, connect_finish] ! n) (br_room (run_room n)))"
    and "fresh_thread 1 (run_room n)"
  shows "brstep sample_cfg 0 (run_room n) (run_room (Suc n))"
proof -
  have "run_room (Suc n) = room_now ([run_initialize True, connect_room (connectRoom (Inr True) True 7), connect_activate run_sdk 7, connect_finish] ! n) (run_room n)"
    unfolding run_room_def by (subst take_Suc_conv_app_nth) (use assms(1) in simp_all)
  then show ?thesis using brstep.Room [OF assms(2,3)] by (simp add: room_now_def)
qed

lemma run_to_connected: "run_steps run_start run_connected"
proof -
  have "rc_task (br_room (run_room 0)) = Initializing" "fst ` set (br_calls (run_room 0)) = {}" by code_simp+
  then have 0: "brstep sample_cfg 0 (run_room 0) (run_room (Suc 0))" by - (rule run_room_step, simp_all add: rcstep.Run_initialize)
  have "rc_task (br_room (run_room 1)) = Connecting" "fst ` set (br_calls (run_room 1)) = {}" by code_simp+
  then have 1: "brstep sample_cfg 0 (run_room 1) (run_room (Suc 1))" by - (rule run_room_step, simp_all add: rcstep.Connect_room)
  have "rc_task (br_room (run_room 2)) = RoomReady 7" "fst ` set (br_calls (run_room 2)) = {}" by code_simp+
  then have 2: "brstep sample_cfg 0 (run_room 2) (run_room (Suc 2))" by - (rule run_room_step, simp_all add: rcstep.Activate)
  have "rc_task (br_room (run_room 3)) = Activated" "fst ` set (br_calls (run_room 3)) = {}" by code_simp+
  then have 3: "brstep sample_cfg 0 (run_room 3) (run_room (Suc 3))" by - (rule run_room_step, simp_all add: rcstep.Finish)
  have "at_pc 1 Returning (run_room 4)" by code_simp
  then have "brstep sample_cfg 0 (run_room 4) run_connected" unfolding run_connected_def by (rule brstep.Return_callback)
  moreover have "run_room 0 = run_start" by (simp add: run_room_def)
  ultimately show ?thesis using 0 1 2 3 by (simp add: numeral_eq_Suc)
qed

lemma run_to_handled: "run_steps run_connected run_handled"
proof -
  have "onParticipantDisconnected (Some ''alice'') (br_room run_connected) = Some ''alice''" "fst ` set (br_calls run_connected) = {}" by code_simp+
  then have 1: "brstep sample_cfg 0 run_connected run_gone" unfolding run_gone_def by - (rule brstep.Gone, simp_all)
  have "at_pc 1 (Dispatching (CancelWork ''alice'')) run_gone" "fresh_task 10 run_gone" by code_simp+
  then have 2: "brstep sample_cfg 0 run_gone run_submitted" unfolding run_submitted_def by (rule brstep.Submit_work)
  have "at_pc 1 Submitted run_submitted" by code_simp
  then have 3: "brstep sample_cfg 0 run_submitted run_woken" unfolding run_woken_def by (rule brstep.Wake_callback)
  have "at_pc 1 Returning run_woken" by code_simp
  then have 4: "brstep sample_cfg 0 run_woken run_returned" unfolding run_returned_def by (rule brstep.Return_callback)
  let ?s = "run_returned\<lparr>br_queue := drain_enter 2 (br_queue run_returned)\<rparr>"
  have "guard_triggered (br_queue run_returned)" by code_simp
  then have 5: "brstep sample_cfg 0 run_returned ?s" by (rule brstep.Drain) simp
  have "drain_pc (br_queue ?s) = LoopHead" by code_simp
  then have 6: "brstep sample_cfg 0 ?s run_drained" unfolding run_drained_def Let_def by (rule brstep.Next_task)
  have "drain_pc (br_queue run_drained) = RunningTask 10" "lookup (br_work run_drained) 10 = Some (CancelWork ''alice'')" by code_simp+
  then have 7: "brstep sample_cfg 0 run_drained run_handled" unfolding run_handled_def by (rule brstep.Run) simp
  from 1 2 3 4 5 6 7 show ?thesis by (meson converse_rtranclp_into_rtranclp rtranclp.rtrancl_refl)
qed

lemma run_to_down: "run_steps run_handled run_down"
proof -
  let ?s = "run_handled\<lparr>br_queue := drain_next (br_queue run_handled)\<rparr>"
  have "drain_pc (br_queue run_handled) = LoopHead" by code_simp
  then have 1: "brstep sample_cfg 0 run_handled ?s" by (rule brstep.Next_task)
  have "drain_pc (br_queue ?s) = Leaving" by code_simp
  then have 2: "brstep sample_cfg 0 ?s run_idle" unfolding run_idle_def Let_def by (rule brstep.End_drain)
  have "br_stage run_idle = Serving" by code_simp
  then have 3: "brstep sample_cfg 0 run_idle (destroy_close run_idle)" by (rule brstep.Destroy_close)
  have "wait_done 0 AllCallbacks (br_gate (destroy_close run_idle))" by code_simp
  then have 4: "brstep sample_cfg 0 (destroy_close run_idle) (destroy_watchdog (destroy_close run_idle))" by (intro brstep.Destroy_watchdog) simp_all
  have 5: "brstep sample_cfg 0 (destroy_watchdog (destroy_close run_idle)) run_closed" unfolding run_closed_def by (rule brstep.Destroy_queue) simp
  have "shutdown_may_return 0 (br_queue run_closed)" "br_stage run_closed = ClosingQueue" by code_simp+
  then have 6: "brstep sample_cfg 0 run_closed run_down" unfolding run_down_def by (intro brstep.Destroy_leases)
  from 1 2 3 4 5 6 show ?thesis by (meson converse_rtranclp_into_rtranclp rtranclp.rtrancl_refl)
qed

lemma run_reachable: "bridge_reachable sample_cfg 0 run_handled" "bridge_reachable sample_cfg 0 run_down"
proof -
  have "sum.isl (runtime_start run_sdk 0 run_config room_init) = False" by code_simp
  then have "runtime_start run_sdk 0 run_config room_init = Inr run_start"
    by (cases "runtime_start run_sdk 0 run_config room_init") (simp_all add: run_start_def)
  then show "bridge_reachable sample_cfg 0 run_handled" "bridge_reachable sample_cfg 0 run_down"
    using run_to_connected run_to_handled run_to_down unfolding bridge_reachable_def by (meson rtranclp_trans)+
qed


theorem works_run_in_order_witness:
  "br_handled run_handled = [CancelWork ''alice''] \<and> accepted (br_queue run_handled) = [10]
   \<and> (\<exists>ev \<in> set (br_events run_handled). event_work ev = Some (CancelWork ''alice''))"
proof -
  have "br_handled run_handled = [CancelWork ''alice'']" "accepted (br_queue run_handled) = [10]" by code_simp+
  with works_run_in_order [OF run_reachable(1)] show ?thesis by simp
qed

theorem destruction_is_quiet_witness:
  "after_leases run_down \<and> tryEnter 1 (br_gate run_down) = None \<and> running (br_queue run_down) = [] \<and> subscriptions (br_leases run_down) = []"
proof -
  have "after_leases run_down" by code_simp
  with destruction_is_quiet [OF run_reachable(2) this, of run_down 1] show ?thesis by simp
qed

end
