(* ===== verification/Service_Waitable.thy ===== *)
theory Service_Waitable
  imports Service_Caller Callback_Gate
begin

text \<open>
  \<open>ServiceWaitable\<close> of ros_service_caller.cpp: what the executor waits for on behalf of the service caller.
  Caller threads publish a snapshot of the clients and the earliest deadline and wake the executor;
  the executor takes the snapshot over when it next runs the waitable. Every entry point
  passes the use counter of \<open>Callback_Gate\<close>.

  The rcl timer is an argument: its calls on a state of type \<open>'tm\<close>. So is the answer of
  \<open>rcl_wait_set_add_client\<close>.
\<close>

section \<open>Model\<close>

datatype rcl_ret = RetOk | RetTimerCanceled | RetError

record 'tm timer_ops =
  timer_init :: "rcl_ret \<times> 'tm"
  timer_cancel :: "'tm \<Rightarrow> rcl_ret \<times> 'tm"
  timer_exchange_period :: "int \<Rightarrow> 'tm \<Rightarrow> rcl_ret \<times> 'tm"
  timer_reset :: "time \<Rightarrow> 'tm \<Rightarrow> rcl_ret \<times> 'tm"
  timer_is_ready :: "time \<Rightarrow> 'tm \<Rightarrow> rcl_ret \<times> bool"
  timer_call :: "time \<Rightarrow> 'tm \<Rightarrow> rcl_ret \<times> 'tm"

text \<open>\<open>sw_delivered\<close> and \<open>sw_wakes\<close> count what the ready callback was told and the calls of \<open>wake\<close>.\<close>

record 'tm service_waitable =
  sw_use :: "64 word"
  sw_clients :: "nat list"
  sw_pending :: "nat list option"
  sw_timer :: 'tm
  sw_guard :: bool
  sw_on_ready :: bool
  sw_pending_wakes :: "64 word"
  sw_delivered :: "64 word"
  sw_wakes :: nat

text \<open>The constructor: a timer that does not run yet.\<close>

definition waitable_init :: "'tm timer_ops \<Rightarrow> 'tm service_waitable res" where
  "waitable_init ops =
     (case timer_init ops of
        (RetOk, tm) \<Rightarrow>
          (case timer_cancel ops tm of
             (RetOk, tm') \<Rightarrow> Inr \<lparr>sw_use = 0, sw_clients = [], sw_pending = None, sw_timer = tm', sw_guard = False,
                 sw_on_ready = False, sw_pending_wakes = 0, sw_delivered = 0, sw_wakes = 0\<rparr>
           | _ \<Rightarrow> Inl (Runtime_error ''Failed to cancel initial service deadline timer''))
      | _ \<Rightarrow> Inl (Runtime_error ''Failed to initialize service deadline timer''))"

text \<open>An entry point between \<open>beginUse\<close> and \<open>endUse\<close>.\<close>

definition with_use ::
  "'a \<Rightarrow> ('tm service_waitable \<Rightarrow> 'a \<times> 'tm service_waitable) \<Rightarrow> 'tm service_waitable \<Rightarrow> 'a \<times> 'tm service_waitable" where
  "with_use refused f w =
     (case beginUse (sw_use w) of
        None \<Rightarrow> (refused, w)
      | Some u \<Rightarrow> (let (r, w') = f (w\<lparr>sw_use := u\<rparr>) in (r, w'\<lparr>sw_use := endUse (sw_use w')\<rparr>)))"

definition get_number_of_ready_clients :: "'tm service_waitable \<Rightarrow> nat \<times> 'tm service_waitable" where
  "get_number_of_ready_clients = with_use 0 (\<lambda>w. (kMaxCachedServiceClients, w))"

definition get_number_of_ready_timers :: "'tm service_waitable \<Rightarrow> nat \<times> 'tm service_waitable" where
  "get_number_of_ready_timers = with_use 0 (\<lambda>w. (1, w))"

definition get_number_of_ready_guard_conditions :: "'tm service_waitable \<Rightarrow> nat \<times> 'tm service_waitable" where
  "get_number_of_ready_guard_conditions = with_use 0 (\<lambda>w. (1, w))"

text \<open>A new ready callback is told about the wakes that found none; \<open>False\<close> is the null callback.\<close>

definition set_on_ready_callback :: "bool \<Rightarrow> 'tm service_waitable \<Rightarrow> unit \<times> 'tm service_waitable" where
  "set_on_ready_callback callback = with_use () (\<lambda>w.
     let w1 = w\<lparr>sw_on_ready := callback\<rparr> in
     if \<not> callback then ((), w1)
     else (let pending = sw_pending_wakes w1; w2 = w1\<lparr>sw_pending_wakes := 0\<rparr> in
           if pending = 0 then ((), w2) else ((), w2\<lparr>sw_delivered := sw_delivered w2 + pending\<rparr>)))"

definition clear_on_ready_callback :: "'tm service_waitable \<Rightarrow> unit \<times> 'tm service_waitable" where
  "clear_on_ready_callback = with_use () (\<lambda>w. ((), w\<lparr>sw_on_ready := False\<rparr>))"

definition setClients :: "nat list \<Rightarrow> 'tm service_waitable \<Rightarrow> unit \<times> 'tm service_waitable" where
  "setClients clients = with_use () (\<lambda>w. ((), w\<lparr>sw_pending := Some clients\<rparr>))"

definition setDeadline :: "'tm timer_ops \<Rightarrow> time \<Rightarrow> time option \<Rightarrow> 'tm service_waitable \<Rightarrow> unit res \<times> 'tm service_waitable" where
  "setDeadline ops now deadline = with_use (Inr ()) (\<lambda>w.
     case deadline of
       None \<Rightarrow>
         (let (ret, tm) = timer_cancel ops (sw_timer w); w1 = w\<lparr>sw_timer := tm\<rparr> in
          if ret \<noteq> RetOk then (Inl (Runtime_error ''Failed to cancel service deadline timer''), w1) else (Inr (), w1))
     | Some d \<Rightarrow>
         (let duration = (if d - now < 1 then 1 else d - now);
              (ret, tm) = timer_exchange_period ops duration (sw_timer w); w1 = w\<lparr>sw_timer := tm\<rparr> in
          if ret \<noteq> RetOk then (Inl (Runtime_error ''Failed to update service deadline timer period''), w1)
          else (let (ret', tm') = timer_reset ops now (sw_timer w1); w2 = w1\<lparr>sw_timer := tm'\<rparr> in
                if ret' \<noteq> RetOk then (Inl (Runtime_error ''Failed to reset service deadline timer''), w2)
                else (Inr (), w2))))"

definition wake_waitable :: "'tm service_waitable \<Rightarrow> unit \<times> 'tm service_waitable" where
  "wake_waitable = with_use () (\<lambda>w.
     let w1 = w\<lparr>sw_guard := True, sw_wakes := sw_wakes w + 1\<rparr> in
     if \<not> sw_on_ready w1 then ((), w1\<lparr>sw_pending_wakes := sw_pending_wakes w1 + 1\<rparr>)
     else ((), w1\<lparr>sw_delivered := sw_delivered w1 + 1\<rparr>))"

text \<open>
  A wait set as far as the waitable reads it: client, timer and guard slots, empty when not
  ready. The waitable's own timer and guard condition are \<open>Some True\<close>.
\<close>

record wait_set =
  ws_clients :: "nat option list"
  ws_timers :: "bool option list"
  ws_guards :: "bool option list"

text \<open>\<open>add_ok n c\<close>: adding client \<open>c\<close> to a wait set that holds \<open>n\<close> clients succeeds.\<close>

fun add_clients :: "(nat \<Rightarrow> nat \<Rightarrow> bool) \<Rightarrow> nat list \<Rightarrow> wait_set \<Rightarrow> unit res \<times> wait_set" where
  "add_clients add_ok [] ws = (Inr (), ws)"
| "add_clients add_ok (c # cs) ws =
     (if \<not> add_ok (length (ws_clients ws)) c then (Inl (Runtime_error ''Failed to add service client to wait set''), ws)
      else add_clients add_ok cs (ws\<lparr>ws_clients := ws_clients ws @ [Some c]\<rparr>))"

definition addToWaitSet ::
  "(nat \<Rightarrow> nat \<Rightarrow> bool) \<Rightarrow> bool \<Rightarrow> wait_set option \<Rightarrow> 'tm service_waitable \<Rightarrow> wait_set res" where
  "addToWaitSet add_ok timer_ok ws w =
     (case ws of
        None \<Rightarrow> Inl (Invalid_argument ''wait set is null'')
      | Some s \<Rightarrow>
          (case add_clients add_ok (sw_clients w) s of
             (Inl e, s1) \<Rightarrow> Inl e
           | (Inr _, s1) \<Rightarrow>
               if \<not> timer_ok then Inl (Runtime_error ''Failed to add service deadline timer to wait set'')
               else Inr (s1\<lparr>ws_timers := ws_timers s1 @ [Some True], ws_guards := ws_guards s1 @ [Some True]\<rparr>)))"

definition isReady :: "wait_set option \<Rightarrow> 'tm service_waitable \<Rightarrow> bool" where
  "isReady ws w =
     (case ws of
        None \<Rightarrow> False
      | Some s \<Rightarrow> list_ex (\<lambda>slot. case slot of None \<Rightarrow> False | Some c \<Rightarrow> c \<in> set (sw_clients w)) (ws_clients s)
          \<or> Some True \<in> set (ws_timers s) \<or> Some True \<in> set (ws_guards s))"

text \<open>The overrides the executor calls; a stopped waitable adds nothing and is never ready.\<close>

definition add_to_wait_set ::
  "(nat \<Rightarrow> nat \<Rightarrow> bool) \<Rightarrow> bool \<Rightarrow> wait_set \<Rightarrow> 'tm service_waitable \<Rightarrow> wait_set res \<times> 'tm service_waitable" where
  "add_to_wait_set add_ok timer_ok ws = with_use (Inr ws) (\<lambda>w. (addToWaitSet add_ok timer_ok (Some ws) w, w))"

definition is_ready :: "wait_set \<Rightarrow> 'tm service_waitable \<Rightarrow> bool \<times> 'tm service_waitable" where
  "is_ready ws = with_use False (\<lambda>w. (isReady (Some ws) w, w))"

definition applyPendingClients :: "'tm service_waitable \<Rightarrow> 'tm service_waitable" where
  "applyPendingClients w = (case sw_pending w of None \<Rightarrow> w | Some cs \<Rightarrow> w\<lparr>sw_clients := cs, sw_pending := None\<rparr>)"

definition callReadyDeadlineTimer :: "'tm timer_ops \<Rightarrow> time \<Rightarrow> 'tm service_waitable \<Rightarrow> unit res \<times> 'tm service_waitable" where
  "callReadyDeadlineTimer ops now w =
     (case timer_is_ready ops now (sw_timer w) of
        (RetTimerCanceled, ready) \<Rightarrow> (Inr (), w)
      | (RetError, ready) \<Rightarrow> (Inl (Runtime_error ''Failed to check service deadline timer readiness''), w)
      | (RetOk, ready) \<Rightarrow>
          if \<not> ready then (Inr (), w)
          else (case timer_call ops now (sw_timer w) of
                  (RetError, tm) \<Rightarrow> (Inl (Runtime_error ''Failed to consume service deadline timer''), w\<lparr>sw_timer := tm\<rparr>)
                | (_, tm) \<Rightarrow> (Inr (), w\<lparr>sw_timer := tm\<rparr>)))"

definition stopAndWait :: "'tm service_waitable \<Rightarrow> 'tm service_waitable" where
  "stopAndWait w = w\<lparr>sw_use := stop_use (sw_use w)\<rparr>"

text \<open>\<open>syncWaitableLocked\<close> on the waitable, up to its wake.\<close>

definition publish_wait :: "'tm timer_ops \<Rightarrow> time \<Rightarrow> service_caller \<Rightarrow> 'tm service_waitable \<Rightarrow> unit res \<times> 'tm service_waitable" where
  "publish_wait ops now s w =
     setDeadline ops now (earliest_deadline (inflight_calls s) None) (snd (setClients (map snd (cached_clients s)) w))"

section \<open>Caller, waitable and executor\<close>

text \<open>Where the executor stands in \<open>execute\<close>.\<close>

datatype exec_pc = ExecIdle | ExecApply | ExecTimer | ExecRun

text \<open>
  \<open>cy_waking\<close>: a thread that holds \<open>state_mutex\<close> has published and not yet woken the executor. \<open>cy_now\<close> is
  the time of the last publication.
\<close>

record 'tm caller_system =
  cy_caller :: service_caller
  cy_wait :: "'tm service_waitable"
  cy_waking :: bool
  cy_exec :: exec_pc
  cy_now :: time

text \<open>
  A call or a cancellation under \<open>state_mutex\<close> that took the caller to \<open>c\<close>: the waitable is told when
  the operation got as far as its \<open>syncWaitableLocked\<close>.
\<close>

definition caller_moves :: "'tm timer_ops \<Rightarrow> time \<Rightarrow> service_caller \<Rightarrow> 'tm caller_system \<Rightarrow> 'tm caller_system" where
  "caller_moves ops now c y =
     (if wake_count c = wake_count (cy_caller y) then y\<lparr>cy_caller := c\<rparr>
      else y\<lparr>cy_caller := c, cy_wait := snd (publish_wait ops now c (cy_wait y)), cy_waking := True, cy_now := now\<rparr>)"

text \<open>\<open>executeWaitable\<close> took the caller to \<open>c\<close>: it synchronizes without a wake, unless the gate is closed.\<close>

definition executor_runs ::
  "'tm timer_ops \<Rightarrow> time \<Rightarrow> service_caller \<Rightarrow> 'tm caller_system \<Rightarrow> 'tm caller_system" where
  "executor_runs ops now c y =
     (if sc_closed c \<or> \<not> sc_attached c then y\<lparr>cy_caller := c, cy_exec := ExecIdle\<rparr>
      else y\<lparr>cy_caller := c, cy_exec := ExecIdle, cy_wait := snd (publish_wait ops now c (cy_wait y)), cy_now := now\<rparr>)"

text \<open>
  Steps while the timer calls succeed. The executor consumes the guard condition, or is woken by
  a client or the timer; then it applies the published clients, serves the timer and runs.
\<close>

inductive cystep :: "'tm timer_ops \<Rightarrow> 'tm caller_system \<Rightarrow> 'tm caller_system \<Rightarrow> bool" for ops where
  Sys_call: "\<not> cy_waking y \<Longrightarrow> env_sync env = Inr () \<Longrightarrow> p \<notin> set (call_promises (cy_caller y)) \<Longrightarrow>
    (closed_at_entry \<longrightarrow> sc_closed (cy_caller y)) \<Longrightarrow> c = snd (call env closed_at_entry requester p request (cy_caller y)) \<Longrightarrow>
    fst (publish_wait ops now c (cy_wait y)) = Inr () \<Longrightarrow> cystep ops y (caller_moves ops now c y)"
| Sys_cancel: "\<not> cy_waking y \<Longrightarrow> env_sync env = Inr () \<Longrightarrow> c = cancelForRequester env requester (cy_caller y) \<Longrightarrow>
    fst (publish_wait ops now c (cy_wait y)) = Inr () \<Longrightarrow> cystep ops y (caller_moves ops now c y)"
| Sys_wake: "cy_waking y \<Longrightarrow> cystep ops y (y\<lparr>cy_wait := snd (wake_waitable (cy_wait y)), cy_waking := False\<rparr>)"
| Sys_guard: "cy_exec y = ExecIdle \<Longrightarrow> beginUse (sw_use (cy_wait y)) \<noteq> None \<Longrightarrow> sw_guard (cy_wait y) \<Longrightarrow>
    cystep ops y (y\<lparr>cy_wait := (cy_wait y)\<lparr>sw_guard := False\<rparr>, cy_exec := ExecApply\<rparr>)"
| Sys_ready: "cy_exec y = ExecIdle \<Longrightarrow> fst (is_ready ws (cy_wait y)) \<Longrightarrow> cystep ops y (y\<lparr>cy_exec := ExecApply\<rparr>)"
| Sys_apply: "cy_exec y = ExecApply \<Longrightarrow> cystep ops y (y\<lparr>cy_wait := applyPendingClients (cy_wait y), cy_exec := ExecTimer\<rparr>)"
| Sys_timer: "cy_exec y = ExecTimer \<Longrightarrow> callReadyDeadlineTimer ops now (cy_wait y) = (Inr (), w) \<Longrightarrow>
    cystep ops y (y\<lparr>cy_wait := w, cy_exec := ExecRun\<rparr>)"
| Sys_run: "cy_exec y = ExecRun \<Longrightarrow> \<not> cy_waking y \<Longrightarrow> env_sync env = Inr () \<Longrightarrow>
    c = executeWaitable env responses (cy_caller y) \<Longrightarrow> fst (publish_wait ops now c (cy_wait y)) = Inr () \<Longrightarrow>
    cystep ops y (executor_runs ops now c y)"
| Sys_callback: "cystep ops y (y\<lparr>cy_wait := snd (set_on_ready_callback callback (cy_wait y))\<rparr>)"
| Sys_clear: "cystep ops y (y\<lparr>cy_wait := snd (clear_on_ready_callback (cy_wait y))\<rparr>)"
| Sys_close: "cystep ops y (y\<lparr>cy_caller := close_caller (cy_caller y)\<rparr>)"
| Sys_detach: "sc_closed (cy_caller y) \<Longrightarrow>
    cystep ops y (y\<lparr>cy_caller := detachWaitable (cy_caller y), cy_wait := stopAndWait (cy_wait y)\<rparr>)"
| Sys_fail: "sc_closed (cy_caller y) \<Longrightarrow> \<not> sc_attached (cy_caller y) \<Longrightarrow> \<not> cy_waking y \<Longrightarrow>
    cystep ops y (y\<lparr>cy_caller := shutdown_calls (cy_caller y)\<rparr>)"

definition system_start :: "'tm service_waitable \<Rightarrow> 'tm caller_system" where
  "system_start w = \<lparr>cy_caller = caller_init, cy_wait = w, cy_waking = False, cy_exec = ExecIdle, cy_now = 0\<rparr>"

section \<open>What the caller does to the wait\<close>

definition handles :: "service_caller \<Rightarrow> nat set" where
  "handles s = snd ` set (cached_clients s)"

definition inflight_clients :: "service_caller \<Rightarrow> nat set" where
  "inflight_clients s = fst ` fst ` set (inflight_calls s)"

lemma update_new: "k \<notin> set (keys al) \<Longrightarrow> AList.update k v al = al @ [(k, v)]"
  by (induction al) auto

lemma getClient_handles:
  assumes "getClient env service itype s = (r, t)"
  shows "handles s \<subseteq> handles t" "\<And>c. r = Inr c \<Longrightarrow> c \<in> handles t"
    "sc_attached t = sc_attached s" "sc_closed t = sc_closed s" "wake_count t = wake_count s"
  using assms
  by (auto simp: getClient_def handles_def Let_def update_new map_of_eq_None_iff split: option.splits if_splits prod.splits sum.splits
      dest: map_of_SomeD intro: rev_image_eqI)

lemma start_request_handles:
  assumes "start_request env request itype s = (r, t)"
  shows "handles s \<subseteq> handles t" "\<And>k. r = Inr k \<Longrightarrow> fst k \<in> handles t"
    "sc_attached t = sc_attached s" "sc_closed t = sc_closed s" "wake_count t = wake_count s"
proof -
  obtain c u where g: "getClient env (sreq_name request) itype s = (c, u)" by fastforce
  have "t = u" and k: "\<And>k. r = Inr k \<Longrightarrow> \<exists>n. c = Inr (fst k) \<and> k = (fst k, n)"
    using assms by (auto simp: start_request_def g split: sum.splits)
  with getClient_handles [OF g] show "handles s \<subseteq> handles t" "\<And>k. r = Inr k \<Longrightarrow> fst k \<in> handles t"
    "sc_attached t = sc_attached s" "sc_closed t = sc_closed s" "wake_count t = wake_count s" by blast+
qed

lemma inflight_clients_mono: "set (inflight_calls t) \<subseteq> set (inflight_calls s) \<Longrightarrow> inflight_clients t \<subseteq> inflight_clients s"
  unfolding inflight_clients_def by (intro image_mono)

text \<open>What a call or a cancellation changes: nothing the wait depends on, or it synchronizes.\<close>

definition waits_on :: "service_caller \<Rightarrow> service_caller \<Rightarrow> bool" where
  "waits_on s t \<longleftrightarrow> sc_attached t = sc_attached s \<and> sc_closed t = sc_closed s \<and> handles s \<subseteq> handles t
     \<and> (wake_count t = wake_count s \<and> set (inflight_calls t) \<subseteq> set (inflight_calls s)
        \<or> wake_count t = wake_count s + 1 \<and> inflight_clients t \<subseteq> inflight_clients s \<union> handles t)"

lemma waits_on_clients:
  "waits_on s t \<Longrightarrow> inflight_clients t \<subseteq> inflight_clients s \<union> handles t"
  "waits_on s t \<Longrightarrow> wake_count t = wake_count s \<Longrightarrow> inflight_clients t \<subseteq> inflight_clients s"
  using inflight_clients_mono [of t s] by (auto simp: waits_on_def)

lemma waits_on_refl: "waits_on s s"
  by (simp add: waits_on_def)

lemma update_key_set: "fst ` set (AList.update k v al) = insert k (fst ` set al)"
  by (induction al) auto

lemma inflight_clients_subset: "fst ` set (inflight_calls t) \<subseteq> fst ` set (inflight_calls s) \<Longrightarrow> inflight_clients t \<subseteq> inflight_clients s"
  unfolding inflight_clients_def by (rule image_mono)

lemma call_locked_waits:
  assumes "call_locked env requester p request itype s = (r, t)" "env_sync env = Inr ()" "sc_attached s"
  shows "waits_on s t"
proof (cases "sc_closed s \<or> (\<exists>e. reserveInflightSlot requester (inflight_counts s) = Inl e)")
  case True
  then have "t = s" using assms(1) by (cases "sc_closed s"; auto simp: call_locked_def)
  then show ?thesis by (simp add: waits_on_refl)
next
  case False
  then obtain counts where res: "reserveInflightSlot requester (inflight_counts s) = Inr counts"
    by (cases "reserveInflightSlot requester (inflight_counts s)") auto
  obtain key u where st: "start_request env request itype (s\<lparr>inflight_counts := counts\<rparr>) = (key, u)" by fastforce
  have h: "handles s \<subseteq> handles u" "\<And>k. key = Inr k \<Longrightarrow> fst k \<in> handles u" "sc_attached u" "sc_closed u = sc_closed s"
      "wake_count u = wake_count s" "inflight_calls u = inflight_calls s"
    using start_request_handles [OF st] start_request_frame(1) [OF st] assms(3) by (simp_all add: handles_def)
  show ?thesis
  proof (cases "\<exists>k. key = Inr k \<and> lookup (inflight_calls u) k = None")
    case True
    then obtain k where k: "key = Inr k" "lookup (inflight_calls u) k = None" by blast
    let ?c = "\<lparr>ic_service = sreq_name request, ic_type = itype, ic_requester = requester, ic_promise = p,
        ic_deadline = env_now env + call_timeout request\<rparr>"
    have t: "t = snd (syncWaitableLocked env True (u\<lparr>inflight_calls := AList.update k ?c (inflight_calls u)\<rparr>))"
      using assms(1) False k
      by (cases "syncWaitableLocked env True (u\<lparr>inflight_calls := AList.update k ?c (inflight_calls u)\<rparr>)")
        (auto simp: call_locked_def res st split: sum.splits)
    have "inflight_clients t \<subseteq> insert (fst k) (inflight_clients s)"
      by (simp add: t sync_frame inflight_clients_def update_key_set h(6))
    then show ?thesis using h(1,3,4,5) h(2) [OF k(1)] assms(2,3)
      by (auto simp: waits_on_def t syncWaitableLocked_def handles_def)
  next
    case no: False
    then have "t = u\<lparr>inflight_counts := releaseInflightSlot requester (inflight_counts u)\<rparr>"
      using assms(1) False by (auto simp: call_locked_def res st Let_def split: sum.splits if_splits)
    then show ?thesis using h assms(3) by (auto simp: waits_on_def handles_def inflight_clients_def)
  qed
qed

lemma call_waits:
  assumes "env_sync env = Inr ()" "sc_attached s"
  shows "waits_on s (snd (call env closed_at_entry requester p request s))"
proof -
  let ?s = "s\<lparr>call_promises := p # call_promises s\<rparr>"
  have pr: "waits_on a (set_promise q o' u) = waits_on a u" for a q o' u
    by (simp add: waits_on_def set_promise_def handles_def inflight_clients_def)
  have eq: "waits_on s u = waits_on ?s u" for u
    by (simp add: waits_on_def handles_def inflight_clients_def)
  have cl: "waits_on ?s (snd (call_locked env requester p request itype ?s))" for itype
    using call_locked_waits [of env requester p request itype ?s] assms by (cases "call_locked env requester p request itype ?s") simp
  show ?thesis unfolding eq
  proof (cases "if sreq_type request = [] then requireSingleType (env_graph env) (sreq_name request) ''service'' else Inr (sreq_type request)")
    case (Inr itype)
    with cl [of itype] show "waits_on ?s (snd (call env closed_at_entry requester p request s))"
      by (cases "call_locked env requester p request itype ?s") (auto simp: call_def Let_def pr waits_on_refl split: option.split)
  qed (simp add: call_def Let_def pr waits_on_refl)
qed

lemma delete_set: "set (AList.delete k al) \<subseteq> set al"
  by (auto simp: AList.delete_eq)

text \<open>Settling calls only removes inflight calls.\<close>

definition fewer_calls :: "service_caller \<Rightarrow> service_caller \<Rightarrow> bool" where
  "fewer_calls s t \<longleftrightarrow> set (inflight_calls t) \<subseteq> set (inflight_calls s) \<and> cached_clients t = cached_clients s
     \<and> sc_attached t = sc_attached s \<and> sc_closed t = sc_closed s \<and> wake_count t = wake_count s"

lemma fewer_refl: "fewer_calls s s"
  by (simp add: fewer_calls_def)

lemma fewer_trans: "fewer_calls s t \<Longrightarrow> fewer_calls t u \<Longrightarrow> fewer_calls s u"
  by (auto simp: fewer_calls_def)

lemma settle_call_fewer: "fewer_calls s (settle_call k c r s)"
  using delete_set by (simp add: fewer_calls_def settle_call_def set_promise_def Let_def)

lemma fail_calls_fewer: "fewer_calls s (fail_calls P e kcs s)"
proof (induction P e kcs s rule: fail_calls.induct)
  case (2 P e k c kcs s)
  then show ?case using settle_call_fewer fewer_trans by (cases "P c") fastforce+
qed (simp add: fewer_refl)

lemma drainResponses_fewer: "fewer_calls s (drainResponses rs s)"
proof (induction rs s rule: drainResponses.induct)
  case (2 k response rs s)
  then show ?case
    by (cases "lookup (inflight_calls s) k") (simp_all add: fewer_trans [OF settle_call_fewer])
qed (simp add: fewer_refl)

lemma fewer_inflight: "fewer_calls s t \<Longrightarrow> inflight_clients t \<subseteq> inflight_clients s \<and> handles t = handles s"
  by (auto simp: fewer_calls_def inflight_clients_def handles_def)

lemma sync_wait:
  "handles (snd (syncWaitableLocked env wk s)) = handles s" "inflight_clients (snd (syncWaitableLocked env wk s)) = inflight_clients s"
  "sc_attached (snd (syncWaitableLocked env wk s)) = sc_attached s"
  "env_sync env = Inr () \<Longrightarrow> sc_attached s \<Longrightarrow> wake_count (snd (syncWaitableLocked env wk s)) = wake_count s + (if wk then 1 else 0)"
  by (simp_all add: handles_def inflight_clients_def syncWaitableLocked_def Let_def split: sum.split)

lemma call_locked_attached: "call_locked env requester p request itype s = (r, t) \<Longrightarrow> sc_attached t = sc_attached s"
  by (auto simp: call_locked_def sync_wait Let_def split: if_splits sum.splits prod.splits dest!: start_request_handles(3))
    (metis snd_conv sync_wait(3) service_caller.select_convs(2) service_caller.surjective service_caller.update_convs(5))+

lemma call_attached: "sc_attached (snd (call env c0 requester p request s)) = sc_attached s"
  by (auto simp: call_def Let_def set_promise_def split: sum.splits prod.splits option.splits dest: call_locked_attached)

lemma cancel_attached: "sc_attached (cancelForRequester env requester s) = sc_attached s"
  by (simp add: cancelForRequester_def failMatchingCalls_frame sync_wait)

lemma cancel_waits:
  assumes "env_sync env = Inr ()" "sc_attached s"
  shows "waits_on s (cancelForRequester env requester s)"
proof (cases "requester = []")
  case False
  let ?t = "failMatchingCalls (\<lambda>c. ic_requester c = requester) ''Requester identity disconnected.'' s"
  have f: "fewer_calls s ?t" by (simp add: failMatchingCalls_def fail_calls_fewer)
  then have "sc_attached ?t" "sc_closed ?t = sc_closed s" "wake_count ?t = wake_count s" using assms(2) by (simp_all add: fewer_calls_def)
  with fewer_inflight [OF f] False assms show ?thesis
    by (auto simp: waits_on_def cancelForRequester_def sync_wait sync_frame)
qed (simp add: cancelForRequester_def waits_on_refl)

lemma execute_waits:
  "inflight_clients (executeWaitable env rs s) \<subseteq> inflight_clients s" "handles (executeWaitable env rs s) = handles s"
  "sc_attached (executeWaitable env rs s) = sc_attached s" "sc_closed (executeWaitable env rs s) = sc_closed s"
proof -
  let ?t = "failMatchingCalls (\<lambda>c. env_now env \<ge> ic_deadline c) ''Service call timed out.'' (drainResponses rs s)"
  have f: "fewer_calls s ?t" unfolding failMatchingCalls_def by (rule fewer_trans [OF drainResponses_fewer fail_calls_fewer])
  then have "sc_attached ?t = sc_attached s" "sc_closed ?t = sc_closed s" by (simp_all add: fewer_calls_def)
  with fewer_inflight [OF f] show "inflight_clients (executeWaitable env rs s) \<subseteq> inflight_clients s" "handles (executeWaitable env rs s) = handles s"
    "sc_attached (executeWaitable env rs s) = sc_attached s" "sc_closed (executeWaitable env rs s) = sc_closed s"
    by (simp_all add: executeWaitable_def sync_wait sync_frame)
qed

section \<open>The waitable's fields\<close>

abbreviation sw_open :: "'tm service_waitable \<Rightarrow> bool" where
  "sw_open w \<equiv> sw_use w AND kUseStopped = 0"

lemma setClients_open: "sw_open w \<Longrightarrow> snd (setClients cs w) = w\<lparr>sw_pending := Some cs\<rparr>"
  by (simp add: setClients_def with_use_def beginUse_def endUse_def)

lemma setDeadline_frame:
  "sw_use (snd (setDeadline ops now d w)) = sw_use w" "sw_clients (snd (setDeadline ops now d w)) = sw_clients w"
  "sw_pending (snd (setDeadline ops now d w)) = sw_pending w" "sw_guard (snd (setDeadline ops now d w)) = sw_guard w"
  "sw_on_ready (snd (setDeadline ops now d w)) = sw_on_ready w" "sw_pending_wakes (snd (setDeadline ops now d w)) = sw_pending_wakes w"
  "sw_delivered (snd (setDeadline ops now d w)) = sw_delivered w" "sw_wakes (snd (setDeadline ops now d w)) = sw_wakes w"
  by (cases d; simp add: setDeadline_def with_use_def beginUse_def endUse_def Let_def split: prod.split)+

lemma publish_wait_open:
  assumes "sw_open w"
  shows "sw_use (snd (publish_wait ops now s w)) = sw_use w" "sw_clients (snd (publish_wait ops now s w)) = sw_clients w"
    "sw_pending (snd (publish_wait ops now s w)) = Some (map snd (cached_clients s))" "sw_guard (snd (publish_wait ops now s w)) = sw_guard w"
  using assms by (simp_all add: publish_wait_def setDeadline_frame setClients_open)

lemma wake_open:
  assumes "sw_open w"
  shows "sw_use (snd (wake_waitable w)) = sw_use w" "sw_clients (snd (wake_waitable w)) = sw_clients w"
    "sw_pending (snd (wake_waitable w)) = sw_pending w" "sw_guard (snd (wake_waitable w))"
  using assms by (simp_all add: wake_waitable_def with_use_def beginUse_def endUse_def Let_def)

lemma callback_frame:
  "sw_use (snd (set_on_ready_callback b w)) = sw_use w" "sw_clients (snd (set_on_ready_callback b w)) = sw_clients w"
  "sw_pending (snd (set_on_ready_callback b w)) = sw_pending w" "sw_guard (snd (set_on_ready_callback b w)) = sw_guard w"
  "sw_use (snd (clear_on_ready_callback w)) = sw_use w" "sw_clients (snd (clear_on_ready_callback w)) = sw_clients w"
  "sw_pending (snd (clear_on_ready_callback w)) = sw_pending w" "sw_guard (snd (clear_on_ready_callback w)) = sw_guard w"
  by (auto simp: set_on_ready_callback_def clear_on_ready_callback_def with_use_def beginUse_def endUse_def Let_def split: option.split)

lemma timer_call_frame:
  assumes "callReadyDeadlineTimer ops now w = (r, w')"
  shows "sw_use w' = sw_use w" "sw_clients w' = sw_clients w" "sw_pending w' = sw_pending w" "sw_guard w' = sw_guard w"
  using assms by (auto simp: callReadyDeadlineTimer_def split: prod.splits rcl_ret.splits if_splits)

section \<open>What the executor waits for\<close>

text \<open>
  \<open>watched cs c w p\<close>: the executor waits for the clients of all inflight calls, or a snapshot that
  has them is published and its application is under way (\<open>p\<close>) or signalled.
\<close>

definition watched :: "service_caller \<Rightarrow> 'tm service_waitable \<Rightarrow> bool \<Rightarrow> bool" where
  "watched c w p \<longleftrightarrow> sw_open w \<and> inflight_clients c \<subseteq> handles c \<and> length (sw_clients w) \<le> kMaxCachedServiceClients
     \<and> (\<forall>cs. sw_pending w = Some cs \<longrightarrow> inflight_clients c \<subseteq> set cs \<and> length cs \<le> kMaxCachedServiceClients)
     \<and> (inflight_clients c \<subseteq> set (sw_clients w) \<or> sw_pending w \<noteq> None \<and> (sw_guard w \<or> p))"

definition watch_inv :: "'tm caller_system \<Rightarrow> bool" where
  "watch_inv y \<longleftrightarrow> caller_reachable (cy_caller y)
     \<and> (sc_attached (cy_caller y) \<longrightarrow> watched (cy_caller y) (cy_wait y) (cy_waking y \<or> cy_exec y = ExecApply))"

lemma watched_frame:
  assumes "watched c w p" "sw_use w' = sw_use w" "sw_clients w' = sw_clients w" "sw_pending w' = sw_pending w"
    "sw_guard w \<longrightarrow> sw_guard w' \<or> p'" "p \<longrightarrow> sw_guard w' \<or> p'"
    "inflight_clients c' \<subseteq> inflight_clients c" "handles c \<subseteq> handles c'"
  shows "watched c' w' p'"
  using assms by (fastforce simp: watched_def)

lemma watched_publish:
  assumes "watched c w p" "inflight_clients c' \<subseteq> handles c'" "length (cached_clients c') \<le> kMaxCachedServiceClients"
    "p' \<or> inflight_clients c' \<subseteq> inflight_clients c \<and> \<not> p"
  shows "watched c' (snd (publish_wait ops now c' w)) p'"
  using assms by (auto simp: watched_def publish_wait_open handles_def)

lemma watched_apply: "watched c w p \<Longrightarrow> watched c (applyPendingClients w) p'"
  by (auto simp: watched_def applyPendingClients_def split: option.split)

lemma reachable_cache: "caller_reachable s \<Longrightarrow> length (cached_clients s) \<le> kMaxCachedServiceClients"
  by (drule sc.reachable_good) (simp add: caller_inv_def)

lemma caller_moves_inv:
  assumes "watch_inv y" "\<not> cy_waking y" "scstep (cy_caller y) c" "sc_attached (cy_caller y) \<Longrightarrow> waits_on (cy_caller y) c"
    "sc_attached c = sc_attached (cy_caller y)"
  shows "watch_inv (caller_moves ops now c y)"
proof -
  have r: "caller_reachable c" using assms(1,3) by (auto simp: watch_inv_def intro: rtranclp.rtrancl_into_rtrancl)
  moreover have "watched c (cy_wait (caller_moves ops now c y)) (cy_waking (caller_moves ops now c y) \<or> cy_exec y = ExecApply)"
    if a: "sc_attached c"
  proof -
    have w: "watched (cy_caller y) (cy_wait y) (cy_exec y = ExecApply)" and m: "waits_on (cy_caller y) c"
      using assms a by (simp_all add: watch_inv_def)
    then have "inflight_clients c \<subseteq> handles c" "handles (cy_caller y) \<subseteq> handles c"
      using waits_on_clients(1) [OF m] by (auto simp: waits_on_def watched_def)
    with w waits_on_clients(2) [OF m] assms(2) show ?thesis
      by (auto simp: caller_moves_def intro!: watched_publish [OF w _ reachable_cache [OF r]] intro: watched_frame [OF w])
  qed
  ultimately show ?thesis by (auto simp: watch_inv_def caller_moves_def)
qed

lemma watch_init: "waitable_init ops = Inr w \<Longrightarrow> watch_inv (system_start w)"
  by (auto simp: waitable_init_def watch_inv_def system_start_def watched_def inflight_clients_def caller_init_def
      kMaxCachedServiceClients_def split: prod.splits rcl_ret.splits)

lemma watch_frame:
  assumes "watch_inv y" "cy_caller y' = cy_caller y"
    "\<And>p. watched (cy_caller y) (cy_wait y) (cy_waking y \<or> cy_exec y = ExecApply) \<Longrightarrow>
       watched (cy_caller y) (cy_wait y') (cy_waking y' \<or> cy_exec y' = ExecApply)"
  shows "watch_inv y'"
  using assms by (simp add: watch_inv_def)

lemma executor_runs_inv:
  assumes "watch_inv y" "\<not> cy_waking y" "cy_exec y = ExecRun" "c = executeWaitable env responses (cy_caller y)"
  shows "watch_inv (executor_runs ops now c y)"
proof -
  have r: "caller_reachable c" using assms(1,4) Execute by (auto simp: watch_inv_def intro: rtranclp.rtrancl_into_rtrancl)
  have c: "inflight_clients c \<subseteq> inflight_clients (cy_caller y)" "handles c = handles (cy_caller y)"
    "sc_attached c = sc_attached (cy_caller y)" unfolding assms(4) by (rule execute_waits)+
  show ?thesis
  proof (cases "sc_attached c")
    case True
    then have w: "watched (cy_caller y) (cy_wait y) False" using assms c by (simp add: watch_inv_def)
    then have "inflight_clients c \<subseteq> handles c" using c by (auto simp: watched_def)
    then have "watched c (snd (publish_wait ops now c (cy_wait y))) False" "watched c (cy_wait y) False"
      using w c reachable_cache [OF r] by (auto intro: watched_publish watched_frame)
    then show ?thesis using r assms(2) True by (simp add: executor_runs_def watch_inv_def)
  qed (use r assms(2) in \<open>auto simp: executor_runs_def watch_inv_def\<close>)
qed

lemma watch_step:
  assumes "cystep ops y y'" "watch_inv y"
  shows "watch_inv y'"
  using assms
proof (induction rule: cystep.induct)
  case (Sys_call y env p closed_at_entry c requester request now)
  then show ?case using Call call_waits call_attached by (intro caller_moves_inv) blast+
next
  case (Sys_cancel y env c requester now)
  then show ?case using Cancel_requester cancel_waits cancel_attached by (intro caller_moves_inv) blast+
next
  case (Sys_wake y)
  then show ?case by (elim watch_frame) (simp_all add: watched_def wake_open)
next
  case (Sys_guard y)
  show ?case by (rule watch_frame [OF Sys_guard(4)]) (auto simp: watched_def)
next
  case (Sys_ready y ws)
  show ?case by (rule watch_frame [OF Sys_ready(3)]) (auto simp: watched_def)
next
  case (Sys_apply y)
  show ?case by (rule watch_frame [OF Sys_apply(2)]) (auto intro: watched_apply)
next
  case (Sys_timer y now w)
  show ?case using Sys_timer(1) timer_call_frame [OF Sys_timer(2)] by (intro watch_frame [OF Sys_timer(3)]) (auto simp: watched_def)
next
  case (Sys_run y env c responses now)
  then show ?case by (intro executor_runs_inv)
next
  case (Sys_close y)
  then show ?case using scstep.Close_gate [of "cy_caller y"]
    by (auto simp: watch_inv_def close_caller_def watched_def inflight_clients_def handles_def intro: rtranclp.rtrancl_into_rtrancl)
next
  case (Sys_detach y)
  then show ?case using Detach [of "cy_caller y"]
    by (auto simp: watch_inv_def detachWaitable_def intro: rtranclp.rtrancl_into_rtrancl)
next
  case (Sys_fail y)
  then show ?case using Fail_all [of "cy_caller y"]
    by (auto simp: watch_inv_def shutdown_calls_def failMatchingCalls_frame intro: rtranclp.rtrancl_into_rtrancl)
qed (auto simp: watch_inv_def watched_def callback_frame)

lemma watch_reachable: "waitable_init ops = Inr w \<Longrightarrow> (cystep ops)\<^sup>*\<^sup>* (system_start w) y \<Longrightarrow> watch_inv y"
  by (rotate_tac, induction rule: rtranclp_induct) (auto intro: watch_init watch_step)

section \<open>The deadline timer\<close>

text \<open>
  What rcl documents of a timer: \<open>next\<close> is when it fires next, \<open>None\<close> when it is cancelled. Exchanging the
  period takes effect with the next reset, and a timer is ready from that time on.
\<close>

definition timer_documented :: "'tm timer_ops \<Rightarrow> ('tm \<Rightarrow> int) \<Rightarrow> ('tm \<Rightarrow> time option) \<Rightarrow> bool" where
  "timer_documented ops period next \<longleftrightarrow>
     (\<forall>p tm tm'. timer_exchange_period ops p tm = (RetOk, tm') \<longrightarrow> period tm' = p)
     \<and> (\<forall>now tm tm'. timer_reset ops now tm = (RetOk, tm') \<longrightarrow> next tm' = Some (now + period tm))
     \<and> (\<forall>t tm n. next tm = Some n \<longrightarrow> timer_is_ready ops t tm = (RetOk, n \<le> t))"

definition armed :: "('tm \<Rightarrow> time option) \<Rightarrow> service_caller \<Rightarrow> 'tm service_waitable \<Rightarrow> time \<Rightarrow> bool" where
  "armed next c w now \<longleftrightarrow>
     (\<forall>kc \<in> set (inflight_calls c). \<exists>n. next (sw_timer w) = Some n \<and> n \<le> max (ic_deadline (snd kc)) (now + 1))"

definition armed_inv :: "('tm \<Rightarrow> time option) \<Rightarrow> 'tm caller_system \<Rightarrow> bool" where
  "armed_inv next y \<longleftrightarrow> (sc_attached (cy_caller y) \<and> \<not> sc_closed (cy_caller y) \<and> cy_exec y \<noteq> ExecRun \<longrightarrow>
     armed next (cy_caller y) (cy_wait y) (cy_now y))"

lemma armed_frame: "armed next c w now \<Longrightarrow> set (inflight_calls c') \<subseteq> set (inflight_calls c) \<Longrightarrow> sw_timer w' = sw_timer w \<Longrightarrow> armed next c' w' now"
  by (auto simp: armed_def)

lemma setDeadline_arms:
  assumes "timer_documented ops period next" "sw_open w" "fst (setDeadline ops now (Some d) w) = Inr ()"
  shows "next (sw_timer (snd (setDeadline ops now (Some d) w))) = Some (max d (now + 1))"
  using assms by (auto simp: setDeadline_def with_use_def beginUse_def timer_documented_def Let_def split: prod.splits if_splits)

lemma publish_arms:
  assumes "timer_documented ops period next" "sw_open w" "fst (publish_wait ops now c w) = Inr ()"
  shows "armed next c (snd (publish_wait ops now c w)) now"
proof (cases "earliest_deadline (inflight_calls c) None")
  case (Some d)
  have "next (sw_timer (snd (publish_wait ops now c w))) = Some (max d (now + 1))"
    using assms setDeadline_arms [of ops period "next" "snd (setClients (map snd (cached_clients c)) w)" now d]
    by (simp add: publish_wait_def Some setClients_open)
  moreover have "d \<le> ic_deadline (snd kc)" if "kc \<in> set (inflight_calls c)" for kc
    using earliest_deadline_least [OF Some] that by fastforce
  ultimately show ?thesis using max.mono [OF _ order_refl, of d] by (auto simp: armed_def)
qed (simp add: earliest_deadline_None armed_def)

lemma other_timer_frame:
  "sw_timer (snd (wake_waitable w)) = sw_timer w" "sw_timer (applyPendingClients w) = sw_timer w"
  "sw_timer (snd (set_on_ready_callback b w)) = sw_timer w" "sw_timer (snd (clear_on_ready_callback w)) = sw_timer w"
  by (auto simp: wake_waitable_def applyPendingClients_def set_on_ready_callback_def clear_on_ready_callback_def with_use_def Let_def
      split: option.split)

lemma armed_moves:
  assumes "timer_documented ops period next" "watch_inv y" "armed_inv next y" "fst (publish_wait ops now c (cy_wait y)) = Inr ()"
    "sc_attached (cy_caller y) \<Longrightarrow> waits_on (cy_caller y) c" "sc_attached c = sc_attached (cy_caller y)"
  shows "armed_inv next (caller_moves ops now c y)"
proof (cases "sc_attached c")
  case True
  then have w: "waits_on (cy_caller y) c" and o: "sw_open (cy_wait y)" using assms(2,5,6) by (simp_all add: watch_inv_def watched_def)
  show ?thesis
  proof (cases "wake_count c = wake_count (cy_caller y)")
    case True
    with w assms(3) armed_frame [of "next" "cy_caller y" "cy_wait y" "cy_now y" c] show ?thesis
      by (auto simp: armed_inv_def caller_moves_def waits_on_def)
  next
    case False
    then show ?thesis using publish_arms [OF assms(1) o assms(4)] by (simp add: armed_inv_def caller_moves_def)
  qed
qed (simp add: armed_inv_def caller_moves_def)

lemma armed_step:
  assumes "cystep ops y y'" "timer_documented ops period next" "watch_inv y" "armed_inv next y"
  shows "armed_inv next y'"
  using assms
proof (induction rule: cystep.induct)
  case (Sys_call y env p closed_at_entry c requester request now)
  then show ?case using call_waits call_attached by (intro armed_moves) blast+
next
  case (Sys_cancel y env c requester now)
  then show ?case using cancel_waits cancel_attached by (intro armed_moves) blast+
next
  case (Sys_run y env c responses now)
  then show ?case using publish_arms [OF Sys_run(6) _ Sys_run(5)]
    by (auto simp: armed_inv_def executor_runs_def execute_waits watch_inv_def watched_def)
qed (auto simp: armed_inv_def armed_def other_timer_frame close_caller_def detachWaitable_def shutdown_calls_def failMatchingCalls_frame)

lemma armed_reachable:
  assumes "timer_documented ops period next" "waitable_init ops = Inr w" "(cystep ops)\<^sup>*\<^sup>* (system_start w) y"
  shows "armed_inv next y"
  using assms(3)
proof (induction rule: rtranclp_induct)
  case base
  show ?case by (simp add: armed_inv_def armed_def system_start_def caller_init_def)
next
  case (step y z)
  then show ?case using armed_step [OF step(2) assms(1) watch_reachable [OF assms(2) step(1)]] by blast
qed

section \<open>Properties\<close>

lemma add_clients_fits:
  "length (ws_clients ws) + length cs \<le> m \<Longrightarrow>
     add_clients (\<lambda>n c. n < m) cs ws = (Inr (), ws\<lparr>ws_clients := ws_clients ws @ map Some cs\<rparr>)"
  by (induction cs arbitrary: ws) auto

lemma watched_fits:
  assumes "watched c w p"
  shows "fst (add_to_wait_set (\<lambda>n c. n < fst (get_number_of_ready_clients w)) True \<lparr>ws_clients = [], ws_timers = [], ws_guards = []\<rparr> w)
    = Inr \<lparr>ws_clients = map Some (sw_clients w), ws_timers = [Some True], ws_guards = [Some True]\<rparr>"
proof -
  have "fst (get_number_of_ready_clients w) = kMaxCachedServiceClients" "length (sw_clients w) \<le> kMaxCachedServiceClients"
    using assms by (simp_all add: watched_def get_number_of_ready_clients_def with_use_def beginUse_def)
  then show ?thesis using assms
    by (simp add: add_to_wait_set_def addToWaitSet_def add_clients_fits watched_def with_use_def beginUse_def)
qed



definition wakes_kept :: "'tm service_waitable \<Rightarrow> bool" where
  "wakes_kept w \<longleftrightarrow> sw_delivered w + sw_pending_wakes w = of_nat (sw_wakes w)"

lemma wakes_kept_ops:
  assumes "wakes_kept w"
  shows "wakes_kept (snd (wake_waitable w))" "wakes_kept (snd (set_on_ready_callback b w))" "wakes_kept (snd (clear_on_ready_callback w))"
    "wakes_kept (snd (publish_wait ops now s w))" "wakes_kept (applyPendingClients w)" "wakes_kept (stopAndWait w)"
    "wakes_kept (w\<lparr>sw_guard := g\<rparr>)" "callReadyDeadlineTimer ops now w = (r, w') \<Longrightarrow> wakes_kept w'"
  using assms
  by (auto simp: wakes_kept_def wake_waitable_def set_on_ready_callback_def clear_on_ready_callback_def publish_wait_def setDeadline_frame
      setClients_def applyPendingClients_def stopAndWait_def callReadyDeadlineTimer_def with_use_def Let_def algebra_simps
      split: option.split prod.splits rcl_ret.splits if_splits)

text \<open>
  Every wake of an open waitable was told to a ready callback or is counted for the next one, up to
  the wrap-around of the 64-bit counter.
\<close>

theorem wakes_accounted:
  assumes "waitable_init ops = Inr w" "(cystep ops)\<^sup>*\<^sup>* (system_start w) y"
  shows "sw_delivered (cy_wait y) + sw_pending_wakes (cy_wait y) = of_nat (sw_wakes (cy_wait y))"
proof -
  have step: "wakes_kept (cy_wait z)" if "cystep ops y z" "wakes_kept (cy_wait y)" for y z
    using that by (induction rule: cystep.induct) (auto simp: wakes_kept_ops caller_moves_def executor_runs_def)
  have init: "wakes_kept w" using assms(1) by (auto simp: waitable_init_def wakes_kept_def split: prod.splits rcl_ret.splits)
  from assms(2) have "wakes_kept (cy_wait y)"
    by (induction rule: rtranclp_induct) (simp_all add: system_start_def init step)
  then show ?thesis by (simp add: wakes_kept_def)
qed

section \<open>Witnesses\<close>

text \<open>A timer as its period and the time it fires next.\<close>

definition pair_timer :: "(int \<times> time option) timer_ops" where
  "pair_timer = \<lparr>timer_init = (RetOk, (1, Some 1)), timer_cancel = (\<lambda>(p, n). (RetOk, (p, None))),
     timer_exchange_period = (\<lambda>p' (p, n). (RetOk, (p', n))), timer_reset = (\<lambda>now (p, n). (RetOk, (p, Some (now + p)))),
     timer_is_ready = (\<lambda>t (p, n). case n of None \<Rightarrow> (RetTimerCanceled, False) | Some m \<Rightarrow> (RetOk, m \<le> t)),
     timer_call = (\<lambda>t (p, n). case n of None \<Rightarrow> (RetTimerCanceled, (p, None)) | Some m \<Rightarrow> (RetOk, (p, Some (m + p))))\<rparr>"

lemma pair_timer_documented: "timer_documented pair_timer fst snd"
  by (simp add: timer_documented_def pair_timer_def)

definition pair_waitable :: "(int \<times> time option) service_waitable" where
  "pair_waitable = \<lparr>sw_use = 0, sw_clients = [], sw_pending = None, sw_timer = (1, None), sw_guard = False,
     sw_on_ready = False, sw_pending_wakes = 0, sw_delivered = 0, sw_wakes = 0\<rparr>"

lemma pair_waitable_init: "waitable_init pair_timer = Inr pair_waitable"
  by (simp add: waitable_init_def pair_timer_def pair_waitable_def)

definition sample_system :: "(int \<times> time option) caller_system" where
  "sample_system = caller_moves pair_timer 1001 sample_caller (system_start pair_waitable)"

lemma sample_system_reachable: "(cystep pair_timer)\<^sup>*\<^sup>* (system_start pair_waitable) sample_system"
  unfolding sample_system_def sample_caller_def
  by (intro r_into_rtranclp cystep.Sys_call [where env = sample_env and closed_at_entry = False and requester = "''alice''" and p = 3
        and request = sample_request]) (simp_all add: system_start_def caller_init_def sample_env_def, code_simp)

lemma sample_system_fields:
  "sc_attached (cy_caller sample_system)" "\<not> sc_closed (cy_caller sample_system)" "cy_exec sample_system = ExecIdle" "cy_now sample_system = 1001"
  "inflight_calls (cy_caller sample_system) = [((5, 9), sample_call)]" "sw_clients (cy_wait sample_system) = []"
  by code_simp+



end
