(* ===== verification/Type_Support.thy ===== *)
theory Type_Support
  imports Caches "HOL-Library.Multiset"
begin

text \<open>
  Loading of type supports: src/src/ros_interfaces/message_type_support.cpp and
  service_type_support.cpp. The dynamic libraries of rclcpp and rcpputils and the handles they contain
  are arguments; the multiset of open libraries is the state, and the constructors unwind as C++
  does: when a member's initializer throws, the members before it are destroyed.
\<close>

section \<open>Model\<close>

definition kSerializationTypeSupportIdentifier :: string where
  "kSerializationTypeSupportIdentifier = ''rosidl_typesupport_cpp''"

definition kIntrospectionTypeSupportIdentifier :: string where
  "kIntrospectionTypeSupportIdentifier = ''rosidl_typesupport_introspection_cpp''"

definition kServiceTypeSupportSymbolPrefix :: string where
  "kServiceTypeSupportSymbolPrefix = ''__get_service_type_support_handle__''"

text \<open>
  Libraries, handles and member descriptions are numbers; a null pointer is \<open>None\<close>. \<open>le_data\<close> is the
  \<open>data\<close> pointer of an introspection handle, \<open>le_serializer\<close> the serializer's constructor.
\<close>

record library_env =
  le_library :: "string \<Rightarrow> string \<Rightarrow> nat res"
  le_message_handle :: "string \<Rightarrow> string \<Rightarrow> nat \<Rightarrow> nat option res"
  le_data :: "nat \<Rightarrow> nat option"
  le_serializer :: "nat option \<Rightarrow> unit res"
  le_symbol :: "nat \<Rightarrow> string \<Rightarrow> nat option option"

type_synonym libraries = "nat multiset"

text \<open>A library member and the initializers after it.\<close>

definition with_library ::
  "library_env \<Rightarrow> string \<Rightarrow> string \<Rightarrow> (nat \<Rightarrow> libraries \<Rightarrow> 'a res \<times> libraries) \<Rightarrow> libraries \<Rightarrow> 'a res \<times> libraries" where
  "with_library env type ident rest st =
     (case le_library env type ident of
        Inl e \<Rightarrow> (Inl e, st)
      | Inr l \<Rightarrow> (case rest l (add_mset l st) of (Inl e, st') \<Rightarrow> (Inl e, st' - {#l#}) | (Inr x, st') \<Rightarrow> (Inr x, st')))"

record message_type_support =
  serialization_library :: nat
  introspection_library :: nat
  serialization_handle :: "nat option"
  introspection_handle :: "nat option"
  ts_members :: nat

definition requireMembers :: "library_env \<Rightarrow> nat option \<Rightarrow> nat res" where
  "requireMembers env introspection =
     (case introspection of
        None \<Rightarrow> Inl (Runtime_error ''Introspection type support handle is null'')
      | Some h \<Rightarrow> (case le_data env h of
                     None \<Rightarrow> Inl (Runtime_error ''Introspection type support handle is null'')
                   | Some m \<Rightarrow> Inr m))"

definition message_type_support_new ::
  "library_env \<Rightarrow> string \<Rightarrow> libraries \<Rightarrow> message_type_support res \<times> libraries" where
  "message_type_support_new env type =
     with_library env type kSerializationTypeSupportIdentifier (\<lambda>sl.
     with_library env type kIntrospectionTypeSupportIdentifier (\<lambda>il st.
       case le_message_handle env type kSerializationTypeSupportIdentifier sl of
         Inl e \<Rightarrow> (Inl e, st)
       | Inr sh \<Rightarrow>
           (case le_message_handle env type kIntrospectionTypeSupportIdentifier il of
              Inl e \<Rightarrow> (Inl e, st)
            | Inr ih \<Rightarrow>
                (case requireMembers env ih of
                   Inl e \<Rightarrow> (Inl e, st)
                 | Inr m \<Rightarrow>
                     (case le_serializer env sh of
                        Inl e \<Rightarrow> (Inl e, st)
                      | Inr _ \<Rightarrow> (Inr \<lparr>serialization_library = sl, introspection_library = il,
                          serialization_handle = sh, introspection_handle = ih, ts_members = m\<rparr>, st))))))"

definition message_libraries :: "message_type_support \<Rightarrow> libraries" where
  "message_libraries m = {#serialization_library m, introspection_library m#}"

text \<open>The name of the function that a service's library exports.\<close>

definition service_symbol :: "string \<Rightarrow> string \<Rightarrow> string" where
  "service_symbol type ident =
     ident @ kServiceTypeSupportSymbolPrefix @ concat (map (\<lambda>ch. if ch = CHR ''/'' then ''__'' else [ch]) type)"

definition getHandle :: "library_env \<Rightarrow> string \<Rightarrow> string \<Rightarrow> nat \<Rightarrow> nat option res" where
  "getHandle env type ident l =
     (let symbol = service_symbol type ident in
      case le_symbol env l symbol of
        None \<Rightarrow> Inl (Runtime_error (''Service typesupport symbol not found: '' @ symbol))
      | Some h \<Rightarrow> Inr h)"

record service_type_support =
  sts_library :: nat
  sts_handle :: "nat option"
  sts_request :: message_type_support
  sts_response :: message_type_support

definition service_type_support_new ::
  "library_env \<Rightarrow> string \<Rightarrow> libraries \<Rightarrow> service_type_support res \<times> libraries" where
  "service_type_support_new env type =
     with_library env type kSerializationTypeSupportIdentifier (\<lambda>l st.
       case getHandle env type kSerializationTypeSupportIdentifier l of
         Inl e \<Rightarrow> (Inl e, st)
       | Inr h \<Rightarrow>
           (case message_type_support_new env (type @ ''_Request'') st of
              (Inl e, st1) \<Rightarrow> (Inl e, st1)
            | (Inr req, st1) \<Rightarrow>
                (case message_type_support_new env (type @ ''_Response'') st1 of
                   (Inl e, st2) \<Rightarrow> (Inl e, st2 - message_libraries req)
                 | (Inr resp, st2) \<Rightarrow>
                     (Inr \<lparr>sts_library = l, sts_handle = h, sts_request = req, sts_response = resp\<rparr>, st2))))"

definition service_libraries :: "service_type_support \<Rightarrow> libraries" where
  "service_libraries s = add_mset (sts_library s) (message_libraries (sts_request s) + message_libraries (sts_response s))"

text \<open>\<open>ServiceTypeSupportCache::get\<close> on these constructors; the second component is what is open.\<close>

definition support_cache_get ::
  "nat \<Rightarrow> library_env \<Rightarrow> string \<Rightarrow> service_type_support type_support_cache \<times> libraries
     \<Rightarrow> service_type_support res \<times> (service_type_support type_support_cache \<times> libraries)" where
  "support_cache_get capacity env type cs =
     (let (r, c') = type_support_get capacity (\<lambda>t. fst (service_type_support_new env t (snd cs))) type (fst cs) in
      (r, c', if lookup (ts_entries (fst cs)) type = None \<and> failure_find type (ts_failures (fst cs)) = None
              then snd (service_type_support_new env type (snd cs)) else snd cs))"

definition cache_libraries :: "service_type_support type_support_cache \<Rightarrow> libraries" where
  "cache_libraries c = \<Sum>\<^sub># (image_mset (\<lambda>(t, s). service_libraries s) (mset (ts_entries c)))"

text \<open>Every access of a run, each against libraries of its own moment.\<close>

fun support_cache_run ::
  "nat \<Rightarrow> (library_env \<times> string) list \<Rightarrow> service_type_support type_support_cache \<times> libraries
     \<Rightarrow> service_type_support type_support_cache \<times> libraries" where
  "support_cache_run capacity [] cs = cs"
| "support_cache_run capacity ((env, type) # gets) cs =
     support_cache_run capacity gets (snd (support_cache_get capacity env type cs))"

section \<open>Unwinding\<close>

lemma message_support_unwinds:
  assumes "message_type_support_new env type st = (r, st')"
  shows "case r of Inl e \<Rightarrow> st' = st | Inr m \<Rightarrow> st' = message_libraries m + st"
  using assms
  by (auto simp: message_type_support_new_def with_library_def message_libraries_def split: sum.splits prod.splits)

lemma service_support_unwinds:
  assumes "service_type_support_new env type st = (r, st')"
  shows "case r of Inl e \<Rightarrow> st' = st | Inr s \<Rightarrow> st' = service_libraries s + st"
  using assms
  by (auto simp: service_type_support_new_def with_library_def service_libraries_def
      split: sum.splits prod.splits dest!: message_support_unwinds)

lemma update_fresh: "lookup al k = None \<Longrightarrow> mset (AList.update k v al) = add_mset (k, v) (mset al)"
  by (induction al) (auto split: if_splits)

lemma support_cache_get_libraries:
  assumes "support_cache_get capacity env type (c, st) = (r, c', st')" "st = cache_libraries c"
  shows "st' = cache_libraries c'"
proof (cases "lookup (ts_entries c) type = None \<and> failure_find type (ts_failures c) = None")
  case True
  obtain s u where n: "service_type_support_new env type st = (s, u)" by fastforce
  have c': "st' = u" "\<And>e. s = Inl e \<Longrightarrow> ts_entries c' = ts_entries c"
    "\<And>h. s = Inr h \<Longrightarrow> ts_entries c' = AList.update type h (ts_entries c)"
    using True assms(1) by (auto simp: support_cache_get_def type_support_get_def n Let_def split: sum.splits if_splits)
  show ?thesis using service_support_unwinds [OF n] True assms(2)
    by (cases s) (simp_all add: c' cache_libraries_def update_fresh)
next
  case False
  then show ?thesis using assms
    by (auto simp: support_cache_get_def type_support_get_def cache_libraries_def Let_def split: option.splits if_splits)
qed

section \<open>Symbols\<close>

text \<open>
  rosidl's rule for package and type names: no two underscores in a row and none beside a slash.
\<close>

fun separated :: "string \<Rightarrow> bool" where
  "separated (a # b # cs) \<longleftrightarrow> \<not> (a \<in> {CHR ''/'', CHR ''_''} \<and> b \<in> {CHR ''/'', CHR ''_''}) \<and> separated (b # cs)"
| "separated cs \<longleftrightarrow> True"

abbreviation mangle :: "string \<Rightarrow> string" where
  "mangle s \<equiv> concat (map (\<lambda>ch. if ch = CHR ''/'' then ''__'' else [ch]) s)"

lemma separated_tl: "separated (a # s) \<Longrightarrow> separated s"
  by (cases s) auto

lemma mangle_underscore: "mangle s = CHR ''_'' # u \<Longrightarrow> \<exists>b s'. s = b # s' \<and> b \<in> {CHR ''/'', CHR ''_''}"
  by (cases s) (auto split: if_splits)

lemma mangle_underscores: "separated (b # t) \<Longrightarrow> b \<noteq> CHR ''/'' \<Longrightarrow> mangle (b # t) \<noteq> CHR ''_'' # CHR ''_'' # u"
  using mangle_underscore [of t u] by auto

lemma mangle_inj: "separated s \<Longrightarrow> separated t \<Longrightarrow> mangle s = mangle t \<Longrightarrow> s = t"
proof (induction s arbitrary: t)
  case (Cons a s)
  then obtain b t' where t: "t = b # t'" by (cases t) (auto split: if_splits)
  have "a = CHR ''/'' \<longleftrightarrow> b = CHR ''/''"
    using Cons.prems mangle_underscores [of b t' "mangle s"] mangle_underscores [of a s "mangle t'"]
    by (cases "a = CHR ''/''"; cases "b = CHR ''/''") (simp_all add: t)
  then have e: "a = b" "mangle s = mangle t'" using Cons.prems(3) by (cases "a = CHR ''/''"; simp add: t)+
  have "s = t'" using Cons.prems(1,2) e(2) by (intro Cons.IH) (simp_all only: t separated_tl)
  then show ?case by (simp add: t e(1))
next
  case Nil
  then show ?case by (cases t) (simp_all split: if_splits)
qed

section \<open>Message buffers\<close>

text \<open>
  The heap as the sizes of its blocks. The constructor allocates and runs the message's init
  function, whose exception passes without the destructor; the body of the scope follows, then the
  destructor on every path.
\<close>

definition with_message_buffer :: "nat \<Rightarrow> unit res \<Rightarrow> (nat multiset \<Rightarrow> 'a res \<times> nat multiset) \<Rightarrow> nat multiset \<Rightarrow> 'a res \<times> nat multiset" where
  "with_message_buffer size_of init body heap =
     (let allocated = add_mset size_of heap in
      case init of
        Inl e \<Rightarrow> (Inl e, allocated)
      | Inr _ \<Rightarrow> (let (r, h) = body allocated in (r, h - {#size_of#})))"

text \<open>A scope with a buffer gives its memory back exactly when the init function does not throw.\<close>

theorem buffer_scope_balanced:
  assumes "\<And>h. snd (body h) = h"
  shows "snd (with_message_buffer size_of init body heap) = heap \<longleftrightarrow> (\<exists>u. init = Inr u)"
  using assms [of "add_mset size_of heap"]
  by (cases init; cases "body (add_mset size_of heap)") (simp_all add: with_message_buffer_def)

section \<open>Properties\<close>

lemma support_cache_run_libraries:
  "st = cache_libraries c \<Longrightarrow> support_cache_run capacity gets (c, st) = (c', st') \<Longrightarrow> st' = cache_libraries c'"
proof (induction gets arbitrary: c st)
  case (Cons g gets)
  obtain env type where g: "g = (env, type)" by force
  obtain r d u where d: "support_cache_get capacity env type (c, st) = (r, d, u)" by (cases "support_cache_get capacity env type (c, st)") auto
  from Cons.IH [OF support_cache_get_libraries [OF d Cons.prems(1)]] Cons.prems(2) show ?case by (simp add: g d)
qed simp

text \<open>
  C29: After any sequence of lookups, successful or failing in any library, handle, symbol or
  serializer, the open libraries are exactly the five of every cached type support: none leaks from a failed construction and
  none is closed while its handles are cached.
\<close>

theorem libraries_match_cache:
  "snd (support_cache_run capacity gets (\<lparr>ts_entries = [], ts_failures = []\<rparr>, {#}))
     = cache_libraries (fst (support_cache_run capacity gets (\<lparr>ts_entries = [], ts_failures = []\<rparr>, {#})))"
  by (rule support_cache_run_libraries [OF _ prod.collapse [symmetric]]) (simp add: cache_libraries_def)

text \<open>
  Two service types named by rosidl's rules never look up the same symbol.
\<close>

theorem service_symbol_injective:
  assumes "separated s" "separated t" "service_symbol s ident = service_symbol t ident"
  shows "s = t"
  using assms by - (rule mangle_inj, simp_all add: service_symbol_def)

theorem service_symbol_injective_witness:
  "service_symbol ''a/srv/B'' ''x'' \<noteq> service_symbol ''a/srv_b/B'' ''x''"
proof
  assume "service_symbol ''a/srv/B'' ''x'' = service_symbol ''a/srv_b/B'' ''x''"
  then have "''a/srv/B'' = ''a/srv_b/B''" by (rule service_symbol_injective [rotated 2]) simp_all
  then show False by simp
qed

end
