(* ===== verification/Pipeline_Session.thy ===== *)
theory Pipeline_Session
  imports Media_Pipeline
begin

text \<open>
  The life of a pipeline object across starts and stops (\<open>start\<close>, \<open>stop\<close> and the raw callbacks of
  src/src/audio/gstreamer_pipeline.cpp; the video pipeline is the same code): the owner's
  stages interleaved with callbacks that GStreamer dispatches from its own threads.
\<close>

section \<open>Model\<close>

text \<open>Where the owner stands: outside, in a failed \<open>start\<close> that has to stop, or inside \<open>stop\<close>.\<close>

datatype owner_pc = AtRest | MustStop | SinkCleared | BusCleared | NullReached | Draining

text \<open>
  \<open>ps_sink\<close> and \<open>ps_bus\<close>: the callbacks are installed on the appsink and on the bus. \<open>ps_dispatched\<close>
  counts raw callbacks that a GStreamer thread has called and that have not reached
  \<open>beginCallback\<close>, \<open>ps_inside\<close> those between \<open>beginCallback\<close> and \<open>endCallback\<close>.
\<close>

record pipeline_session =
  ps_pipe :: media_pipeline
  ps_sink :: bool
  ps_bus :: bool
  ps_dispatched :: nat
  ps_inside :: nat
  ps_owner :: owner_pc

definition session_init :: pipeline_session where
  "session_init = \<lparr>ps_pipe = pipeline_init, ps_sink = False, ps_bus = False, ps_dispatched = 0, ps_inside = 0, ps_owner = AtRest\<rparr>"

text \<open>\<open>start\<close> once its own \<open>stop\<close> is done.\<close>

definition session_start :: "gst_launch \<Rightarrow> bool \<Rightarrow> string \<Rightarrow> pipeline_session \<Rightarrow> unit res \<times> pipeline_session" where
  "session_start launch playing description s =
     (let p = ps_pipe s; p1 = p\<lparr>pl_word := resumeCallbacks (pl_word p)\<rparr> in
      case audio_prepare launch description of
        Inl e \<Rightarrow> (Inl e, s\<lparr>ps_pipe := p1\<rparr>)
      | Inr es \<Rightarrow>
          (let s1 = s\<lparr>ps_pipe := p1\<lparr>pl_bin := Some es, pl_appsrc := False\<rparr>, ps_sink := True, ps_bus := True\<rparr> in
           if playing then (Inr (), s1)
           else (Inl (Runtime_error ''Failed to set audio pipeline to PLAYING.''), s1\<lparr>ps_owner := MustStop\<rparr>)))"

text \<open>The stages of \<open>stop\<close>.\<close>

definition stop_clear_sink :: "pipeline_session \<Rightarrow> pipeline_session" where
  "stop_clear_sink s = (if pl_bin (ps_pipe s) = None then s\<lparr>ps_owner := AtRest\<rparr> else s\<lparr>ps_sink := False, ps_owner := SinkCleared\<rparr>)"

definition stop_clear_bus :: "pipeline_session \<Rightarrow> pipeline_session" where
  "stop_clear_bus s = s\<lparr>ps_bus := False, ps_owner := BusCleared\<rparr>"

definition stop_to_null :: "pipeline_session \<Rightarrow> pipeline_session" where
  "stop_to_null s = s\<lparr>ps_owner := NullReached\<rparr>"

definition stop_flag :: "pipeline_session \<Rightarrow> pipeline_session" where
  "stop_flag s = s\<lparr>ps_pipe := (ps_pipe s)\<lparr>pl_word := stop_use (pl_word (ps_pipe s))\<rparr>, ps_owner := Draining\<rparr>"

definition stop_release :: "pipeline_session \<Rightarrow> pipeline_session" where
  "stop_release s = s\<lparr>ps_pipe := (ps_pipe s)\<lparr>pl_bin := None, pl_appsrc := False\<rparr>, ps_owner := AtRest\<rparr>"

definition callback_enter :: "pipeline_session \<Rightarrow> pipeline_session" where
  "callback_enter s =
     (case beginUse (pl_word (ps_pipe s)) of
        None \<Rightarrow> s\<lparr>ps_dispatched := ps_dispatched s - 1\<rparr>
      | Some u \<Rightarrow> s\<lparr>ps_dispatched := ps_dispatched s - 1, ps_inside := ps_inside s + 1, ps_pipe := (ps_pipe s)\<lparr>pl_word := u\<rparr>\<rparr>)"

definition callback_leave :: "pipeline_session \<Rightarrow> pipeline_session" where
  "callback_leave s = s\<lparr>ps_inside := ps_inside s - 1, ps_pipe := (ps_pipe s)\<lparr>pl_word := endUse (pl_word (ps_pipe s))\<rparr>\<rparr>"

text \<open>
  What GStreamer documents of the state NULL: its threads have stopped, so that no callback that was
  dispatched before is still on its way.
\<close>

inductive psstep :: "pipeline_session \<Rightarrow> pipeline_session \<Rightarrow> bool" where
  Start: "ps_owner s = AtRest \<Longrightarrow> pl_bin (ps_pipe s) = None \<Longrightarrow> psstep s (snd (session_start launch playing description s))"
| Clear_sink: "ps_owner s \<in> {AtRest, MustStop} \<Longrightarrow> psstep s (stop_clear_sink s)"
| Clear_bus: "ps_owner s = SinkCleared \<Longrightarrow> psstep s (stop_clear_bus s)"
| To_null: "ps_owner s = BusCleared \<Longrightarrow> ps_dispatched s = 0 \<Longrightarrow> psstep s (stop_to_null s)"
| Flag: "ps_owner s = NullReached \<Longrightarrow> psstep s (stop_flag s)"
| Release: "ps_owner s = Draining \<Longrightarrow> use_count (pl_word (ps_pipe s)) = 0 \<Longrightarrow> psstep s (stop_release s)"
| Dispatch: "ps_sink s \<or> ps_bus s \<Longrightarrow> psstep s (s\<lparr>ps_dispatched := ps_dispatched s + 1\<rparr>)"
| Enter_raw: "ps_dispatched s > 0 \<Longrightarrow> ps_inside s < 2 ^ 63 - 1 \<Longrightarrow> psstep s (callback_enter s)"
| Leave_raw: "ps_inside s > 0 \<Longrightarrow> psstep s (callback_leave s)"

text \<open>The audio pipeline's sample callback on a pulled sample.\<close>

definition audio_onSample ::
  "64 word \<Rightarrow> audio_sample option \<Rightarrow> bool \<Rightarrow> (audio_frame \<Rightarrow> unit res) \<Rightarrow> flow \<times> audio_frame media_call list \<times> 64 word" where
  "audio_onSample word sample is_shutdown capture = onSample word (map_option unpackAudioFrame sample) 0 is_shutdown capture"

section \<open>The callback word\<close>

definition session_inv :: "pipeline_session \<Rightarrow> bool" where
  "session_inv s \<longleftrightarrow> use_count (pl_word (ps_pipe s)) = ps_inside s
     \<and> (ps_owner s \<in> {BusCleared, NullReached, Draining} \<longrightarrow> \<not> ps_sink s \<and> \<not> ps_bus s)
     \<and> (ps_owner s = SinkCleared \<longrightarrow> \<not> ps_sink s)
     \<and> (ps_owner s \<in> {NullReached, Draining} \<longrightarrow> ps_dispatched s = 0)
     \<and> (ps_owner s = Draining \<longrightarrow> use_stopped (pl_word (ps_pipe s)))
     \<and> (ps_owner s \<noteq> AtRest \<longrightarrow> pl_bin (ps_pipe s) \<noteq> None)
     \<and> (pl_bin (ps_pipe s) = None \<longrightarrow> \<not> ps_sink s \<and> \<not> ps_bus s \<and> ps_dispatched s = 0 \<and> ps_inside s = 0)"

lemma session_init_inv: "session_inv session_init"
  by (simp add: session_inv_def session_init_def pipeline_init_def use_count_def)

lemma session_step_inv: "psstep s t \<Longrightarrow> session_inv s \<Longrightarrow> session_inv t"
proof (induction rule: psstep.induct)
  case (Start s launch playing description)
  then show ?case
    by (auto simp: session_inv_def session_start_def resumeCallbacks_def use_count_def Let_def split: sum.split)
next
  case (Flag s)
  then show ?case using stop_use_stops [of "pl_word (ps_pipe s)"] by (auto simp: session_inv_def stop_flag_def)
next
  case (Enter_raw s)
  then show ?case using beginUse_counts [of "pl_word (ps_pipe s)"]
    by (auto simp: session_inv_def callback_enter_def split: option.split)
next
  case (Leave_raw s)
  then have "use_count (pl_word (ps_pipe s)) > 0" by (simp add: session_inv_def)
  moreover from Leave_raw obtain es where "pl_bin (ps_pipe s) = Some es" by (cases "pl_bin (ps_pipe s)") (simp_all add: session_inv_def)
  ultimately show ?case using endUse_counts Leave_raw by (simp add: session_inv_def callback_leave_def)
qed (auto simp: session_inv_def stop_clear_sink_def stop_clear_bus_def stop_to_null_def stop_release_def)

lemma session_reachable_inv: "psstep\<^sup>*\<^sup>* session_init s \<Longrightarrow> session_inv s"
  by (induction rule: rtranclp_induct) (auto intro: session_init_inv session_step_inv)

text \<open>With nobody inside, the stages of \<open>stop\<close> amount to the atomic \<open>pipeline_stop\<close>, and \<open>start\<close> to \<open>audio_pipeline_start\<close>.\<close>

lemma stop_stages_atomic:
  assumes "pl_bin (ps_pipe s) \<noteq> None"
  shows "ps_pipe (stop_release (stop_flag (stop_to_null (stop_clear_bus (stop_clear_sink s))))) = pipeline_stop (ps_pipe s)"
  using assms by (auto simp: stop_release_def stop_flag_def stop_to_null_def stop_clear_bus_def stop_clear_sink_def pipeline_stop_def)

lemma session_start_atomic:
  assumes "pl_bin (ps_pipe s) = None" "playing"
  shows "ps_pipe (snd (session_start launch playing description s)) = snd (audio_pipeline_start launch playing description (ps_pipe s))
    \<and> fst (session_start launch playing description s) = fst (audio_pipeline_start launch playing description (ps_pipe s))"
  using assms by (auto simp: session_start_def audio_pipeline_start_def play_def pipeline_stop_def Let_def split: sum.split)

lemma drain_completes:
  "session_inv s \<Longrightarrow> ps_owner s = Draining \<Longrightarrow> \<exists>t. psstep\<^sup>*\<^sup>* s t \<and> \<not> isActive (ps_pipe t)"
proof (induction "ps_inside s" arbitrary: s)
  case 0
  then have "psstep s (stop_release s)" by (intro Release) (simp_all add: session_inv_def)
  then show ?case by (intro exI [of _ "stop_release s"]) (auto simp: stop_release_def isActive_def)
next
  case (Suc n)
  have step: "psstep s (callback_leave s)" using Suc.hyps(2) by (intro Leave_raw) simp
  then have "session_inv (callback_leave s)" using Suc.prems(1) by (rule session_step_inv)
  moreover have "n = ps_inside (callback_leave s)" "ps_owner (callback_leave s) = Draining"
    using Suc.hyps(2) Suc.prems(2) by (simp_all add: callback_leave_def)
  ultimately obtain t where "psstep\<^sup>*\<^sup>* (callback_leave s) t" "\<not> isActive (ps_pipe t)" using Suc.hyps(1) by blast
  with step show ?case by (blast intro: converse_rtranclp_into_rtranclp)
qed

section \<open>Properties\<close>

text \<open>
  C21: Over all interleavings of starts, stops and raw callbacks, the callback word counts exactly the
  callbacks that are inside, so that reopening it in \<open>start\<close> forgets none; when the pipeline has been released no callback
  is inside or on its way; and a stop that waits admits no callback any more and ends as soon as those inside have left.
\<close>

theorem callbacks_end_with_pipeline:
  assumes "psstep\<^sup>*\<^sup>* session_init s"
  shows "use_count (pl_word (ps_pipe s)) = ps_inside s
    \<and> (isActive (ps_pipe s) \<or> ps_inside s = 0 \<and> ps_dispatched s = 0 \<and> \<not> ps_sink s \<and> \<not> ps_bus s)
    \<and> (ps_owner s = Draining \<longrightarrow> beginUse (pl_word (ps_pipe s)) = None \<and> (\<exists>t. psstep\<^sup>*\<^sup>* s t \<and> \<not> isActive (ps_pipe t)))"
  using session_reachable_inv [OF assms] drain_completes [of s]
  by (auto simp: session_inv_def isActive_def beginUse_def use_stopped_def)

definition running_session :: pipeline_session where
  "running_session = callback_enter ((snd (session_start sample_launch True kAudioAppSinkName session_init))\<lparr>ps_dispatched := 1\<rparr>)"

definition stopping_session :: pipeline_session where
  "stopping_session = stop_flag (stop_to_null (stop_clear_bus (stop_clear_sink running_session)))"

lemma running_session_fields: "ps_owner running_session = AtRest" "pl_bin (ps_pipe running_session) \<noteq> None" "ps_dispatched running_session = 0"
  by code_simp+

lemma running_session_reachable: "psstep\<^sup>*\<^sup>* session_init running_session"
proof -
  let ?s = "snd (session_start sample_launch True kAudioAppSinkName session_init)"
  have f: "ps_sink ?s" "ps_dispatched ?s = 0" "ps_inside ?s = 0" by code_simp+
  have "psstep session_init ?s" by (rule Start) (simp_all add: session_init_def pipeline_init_def)
  moreover have "psstep ?s (?s\<lparr>ps_dispatched := 1\<rparr>)" using Dispatch [of ?s] f by simp
  moreover have "psstep (?s\<lparr>ps_dispatched := 1\<rparr>) running_session" unfolding running_session_def by (rule Enter_raw) (simp_all add: f)
  ultimately show ?thesis by (meson converse_rtranclp_into_rtranclp r_into_rtranclp)
qed

lemma stopping_session_reachable: "psstep\<^sup>*\<^sup>* session_init stopping_session"
proof -
  let ?a = "stop_clear_sink running_session" and ?b = "stop_clear_bus (stop_clear_sink running_session)"
  have "psstep running_session ?a" by (rule Clear_sink) (simp add: running_session_fields)
  moreover have "psstep ?a ?b" by (rule Clear_bus) (simp add: stop_clear_sink_def running_session_fields)
  moreover have "psstep ?b (stop_to_null ?b)"
    by (rule To_null) (simp_all add: stop_clear_bus_def stop_clear_sink_def running_session_fields)
  moreover have "psstep (stop_to_null ?b) stopping_session"
    unfolding stopping_session_def by (rule Flag) (simp add: stop_to_null_def)
  ultimately show ?thesis using running_session_reachable by (meson rtranclp.rtrancl_into_rtrancl)
qed

theorem callbacks_end_with_pipeline_witness:
  "use_count (pl_word (ps_pipe stopping_session)) = ps_inside stopping_session
     \<and> beginUse (pl_word (ps_pipe stopping_session)) = None \<and> (\<exists>t. psstep\<^sup>*\<^sup>* stopping_session t \<and> \<not> isActive (ps_pipe t))"
proof -
  have "ps_owner stopping_session = Draining" by (simp add: stopping_session_def stop_flag_def)
  with callbacks_end_with_pipeline [OF stopping_session_reachable] show ?thesis by blast
qed

text \<open>
  A sample of signed 16-bit frames that arrives while the callbacks are open and the stream is not
  shutting down is handed over with exactly its samples and leaves the callback word as it was; in every other case
  no frame is handed over.
\<close>

theorem audio_sample_delivered:
  "OnFrame f t \<in> set (fst (snd (audio_onSample word sample is_shutdown capture)))
     \<longleftrightarrow> beginUse word \<noteq> None \<and> \<not> is_shutdown \<and> t = 0 \<and> (\<exists>s. sample = Some s \<and> unpackAudioFrame s = Inr f)"
  by (cases "beginUse word"; cases sample)
    (auto simp: audio_onSample_def onSample_def split: sum.splits)

end
