(* ===== verification/Data_Session.thy ===== *)
theory Data_Session
  imports Data_Track Callback_Gate Settlement
begin

text \<open>
  The life of one \<open>Publication\<close> of src/src/data_track_publisher.cpp: message callbacks on the
  executor's threads against the destructor. A callback passes the gate, decides under
  \<open>state_mutex_\<close> whether its frame is due, and sends the frame after the mutex is released.
\<close>

section \<open>Model\<close>

datatype destructor_pc = Living | GateShut | Unsubscribed | Destroyed

text \<open>
  \<open>ds_threads\<close> are the callbacks inside the gate and \<open>ds_sends\<close> the frames they have decided to send.
  \<open>ds_pushed\<close> records the frames sent and whether the track was published then,
  \<open>ds_last\<close> the last message taken under the mutex.
\<close>

record data_session =
  ds_gate :: callback_gate
  ds_threads :: "nat list"
  ds_pub :: publication
  ds_sends :: "(nat \<times> bytes) list"
  ds_track :: bool
  ds_pc :: destructor_pc
  ds_pushed :: "(bytes \<times> bool) list"
  ds_last :: "bytes option"

text \<open>After the constructor: \<open>setTransientLocal\<close> was called before the subscription exists.\<close>

definition setTransientLocal :: "bool \<Rightarrow> publication \<Rightarrow> publication" where
  "setTransientLocal b p = p\<lparr>is_transient_local := b\<rparr>"

definition publication_new :: "int \<Rightarrow> publication" where
  "publication_new interval = \<lparr>pb_interval_ms = interval, last_push_at = None, is_transient_local = False, cached_cdr = None\<rparr>"

definition data_session_new :: "int \<Rightarrow> bool \<Rightarrow> data_session" where
  "data_session_new interval transient =
     \<lparr>ds_gate = gate_init Concurrent, ds_threads = [], ds_pub = setTransientLocal transient (publication_new interval),
      ds_sends = [], ds_track = True, ds_pc = Living, ds_pushed = [], ds_last = None\<rparr>"

definition setIntervalMs :: "int \<Rightarrow> data_session \<Rightarrow> data_session" where
  "setIntervalMs n s = s\<lparr>ds_pub := (ds_pub s)\<lparr>pb_interval_ms := n\<rparr>\<rparr>"

definition cachedCdr :: "data_session \<Rightarrow> bytes option" where
  "cachedCdr s = cached_cdr (ds_pub s)"

text \<open>The message callback: the gate's \<open>run\<close>, the section under the mutex, the send, the exit.\<close>

definition message_enter :: "nat \<Rightarrow> data_session \<Rightarrow> data_session" where
  "message_enter t s =
     (case tryEnter t (ds_gate s) of None \<Rightarrow> s | Some g \<Rightarrow> s\<lparr>ds_gate := g, ds_threads := t # ds_threads s\<rparr>)"

definition message_locked :: "nat \<Rightarrow> time \<Rightarrow> bytes \<Rightarrow> data_session \<Rightarrow> data_session" where
  "message_locked t now m s =
     (let (p, due) = push now m (ds_pub s); s1 = s\<lparr>ds_pub := p, ds_last := Some m\<rparr> in
      if due then s1\<lparr>ds_sends := (t, m) # ds_sends s1\<rparr> else s1)"

definition message_send :: "nat \<times> bytes \<Rightarrow> data_session \<Rightarrow> data_session" where
  "message_send f s = s\<lparr>ds_sends := remove1 f (ds_sends s), ds_pushed := ds_pushed s @ [(snd f, ds_track s)]\<rparr>"

definition message_leave :: "nat \<Rightarrow> data_session \<Rightarrow> data_session" where
  "message_leave t s = s\<lparr>ds_gate := gate_leave t (ds_gate s), ds_threads := remove1 t (ds_threads s)\<rparr>"

text \<open>The destructor: close the gate, wait and drop the subscription, unpublish.\<close>

definition destructor_close :: "data_session \<Rightarrow> data_session" where
  "destructor_close s = s\<lparr>ds_gate := fst (closeAndWait (ds_gate s)), ds_pc := GateShut\<rparr>"

definition destructor_unsubscribe :: "data_session \<Rightarrow> data_session" where
  "destructor_unsubscribe s = s\<lparr>ds_pc := Unsubscribed\<rparr>"

text \<open>\<open>unpublish\<close>: a failing SDK call keeps the track.\<close>

definition unpublish :: "bool \<Rightarrow> data_session \<Rightarrow> data_session" where
  "unpublish ok s = (if \<not> ds_track s then s else if ok then s\<lparr>ds_track := False\<rparr> else s)"

definition destructor_unpublish :: "bool \<Rightarrow> data_session \<Rightarrow> data_session" where
  "destructor_unpublish ok s = (unpublish ok s)\<lparr>ds_pc := Destroyed\<rparr>"

text \<open>A callback may be dispatched at any moment, also after the subscription was dropped.\<close>

inductive dsstep :: "data_session \<Rightarrow> data_session \<Rightarrow> bool" where
  Message_enter: "t \<notin> set (ds_threads s) \<Longrightarrow> dsstep s (message_enter t s)"
| Message_locked: "t \<in> set (ds_threads s) \<Longrightarrow> dsstep s (message_locked t now m s)"
| Message_send: "f \<in> set (ds_sends s) \<Longrightarrow> dsstep s (message_send f s)"
| Message_leave: "t \<in> set (ds_threads s) \<Longrightarrow> t \<notin> fst ` set (ds_sends s) \<Longrightarrow> dsstep s (message_leave t s)"
| Interval: "dsstep s (setIntervalMs n s)"
| Destructor_close: "ds_pc s = Living \<Longrightarrow> dsstep s (destructor_close s)"
| Destructor_unsubscribe: "ds_pc s = GateShut \<Longrightarrow> wait_done t AllCallbacks (ds_gate s) \<Longrightarrow> dsstep s (destructor_unsubscribe s)"
| Destructor_unpublish: "ds_pc s = Unsubscribed \<Longrightarrow> dsstep s (destructor_unpublish ok s)"

section \<open>Invariant\<close>

definition data_inv :: "bool \<Rightarrow> data_session \<Rightarrow> bool" where
  "data_inv transient s \<longleftrightarrow> active_count (ds_gate s) = length (ds_threads s) \<and> concurrency (ds_gate s) = Concurrent
     \<and> fst ` set (ds_sends s) \<subseteq> set (ds_threads s)
     \<and> (ds_pc s \<noteq> Living \<longrightarrow> gate_closed (ds_gate s))
     \<and> (ds_pc s \<in> {Unsubscribed, Destroyed} \<longrightarrow> ds_threads s = [])
     \<and> (ds_pc s \<noteq> Destroyed \<longrightarrow> ds_track s)
     \<and> (\<forall>f \<in> set (ds_pushed s). snd f)
     \<and> is_transient_local (ds_pub s) = transient
     \<and> cached_cdr (ds_pub s) = (if transient then ds_last s else None)"

lemma data_init_inv: "data_inv transient (data_session_new interval transient)"
  by (simp add: data_inv_def data_session_new_def gate_init_def setTransientLocal_def publication_new_def)

lemma remove1_others: "fst ` set ss \<subseteq> set ts \<Longrightarrow> t \<notin> fst ` set ss \<Longrightarrow> fst ` set ss \<subseteq> set (remove1 t ts)"
  by (auto intro: in_set_remove1 [THEN iffD2])

lemma message_locked_fields:
  "ds_gate (message_locked t now m s) = ds_gate s" "ds_threads (message_locked t now m s) = ds_threads s"
  "ds_track (message_locked t now m s) = ds_track s" "ds_pc (message_locked t now m s) = ds_pc s"
  "ds_pushed (message_locked t now m s) = ds_pushed s" "ds_last (message_locked t now m s) = Some m"
  "fst ` set (ds_sends (message_locked t now m s)) \<subseteq> insert t (fst ` set (ds_sends s))"
  "ds_pub (message_locked t now m s) = fst (push now m (ds_pub s))"
  by (auto simp: message_locked_def Let_def split: prod.split)

lemma data_step_inv: "dsstep s s' \<Longrightarrow> data_inv transient s \<Longrightarrow> data_inv transient s'"
proof (induction rule: dsstep.induct)
  case (Message_enter t s)
  then show ?case by (auto simp: data_inv_def message_enter_def gate_defs split: option.split)
next
  case (Message_locked t s now m)
  then show ?case using message_locked_fields(7) [of t now m s]
    by (auto simp: data_inv_def message_locked_fields(1-6,8) push_cache)
next
  case (Message_send f s)
  then have "ds_track s" by (cases "ds_pc s") (auto simp: data_inv_def)
  moreover have "fst ` set (remove1 f (ds_sends s)) \<subseteq> fst ` set (ds_sends s)" by (intro image_mono set_remove1_subset)
  ultimately show ?case using Message_send(2) by (auto simp: data_inv_def message_send_def)
next
  case (Message_leave t s)
  then show ?case using remove1_others [of "ds_sends s" "ds_threads s" t]
    by (auto simp: data_inv_def message_leave_def gate_defs length_remove1)
next
  case (Destructor_unpublish s ok)
  then show ?case by (auto simp: data_inv_def destructor_unpublish_def unpublish_def)
qed (auto simp: data_inv_def setIntervalMs_def destructor_close_def closeAndWait_def destructor_unsubscribe_def gate_close_def
    wait_done_def activeCallbacksToWaitFor_def)

lemma data_reachable_inv: "dsstep\<^sup>*\<^sup>* (data_session_new interval transient) s \<Longrightarrow> data_inv transient s"
  by (induction rule: rtranclp_induct) (auto intro: data_init_inv data_step_inv)

text \<open>Once the destructor has waited, nobody is inside and nothing more is sent.\<close>

definition data_quiet :: "(bytes \<times> bool) list \<Rightarrow> data_session \<Rightarrow> bool" where
  "data_quiet frames s \<longleftrightarrow> ds_pc s \<in> {Unsubscribed, Destroyed} \<and> gate_closed (ds_gate s) \<and> ds_threads s = [] \<and> ds_sends s = []
     \<and> ds_pushed s = frames"

interpretation dq: terminal_shutdown dsstep "data_quiet frames" for frames
proof
  show "dsstep s t \<Longrightarrow> data_quiet frames s \<Longrightarrow> data_quiet frames t" for s t
    by (induction rule: dsstep.induct)
      (auto simp: data_quiet_def message_enter_def cg.closed_rejects setIntervalMs_def destructor_unpublish_def unpublish_def)
qed

section \<open>Properties\<close>

text \<open>
  C18: Over all interleavings of message callbacks with the destructor, every frame is sent while its
  track is published; the cached message of a transient-local topic is the last one received, sent or
  suppressed; and once the destructor has waited for the callbacks, nothing is sent any more.
\<close>

theorem frames_reach_published_track:
  assumes "dsstep\<^sup>*\<^sup>* (data_session_new interval transient) s"
  shows "(\<forall>(m, published) \<in> set (ds_pushed s). published)
    \<and> cachedCdr s = (if transient then ds_last s else None)
    \<and> (ds_pc s \<in> {Unsubscribed, Destroyed} \<longrightarrow> (\<forall>t. dsstep\<^sup>*\<^sup>* s t \<longrightarrow> ds_pushed t = ds_pushed s \<and> ds_threads t = []))"
proof -
  have i: "data_inv transient s" by (rule data_reachable_inv [OF assms])
  have "ds_pushed t = ds_pushed s \<and> ds_threads t = []" if d: "ds_pc s \<in> {Unsubscribed, Destroyed}" and r: "dsstep\<^sup>*\<^sup>* s t" for t
  proof -
    have "data_quiet (ds_pushed s) s" using i d by (cases "ds_pc s") (auto simp: data_inv_def data_quiet_def)
    from dq.down_forever [OF r this] show ?thesis by (simp add: data_quiet_def)
  qed
  moreover have "\<forall>(m, published) \<in> set (ds_pushed s). published" "cachedCdr s = (if transient then ds_last s else None)"
    using i unfolding data_inv_def cachedCdr_def by (simp_all add: case_prod_beta)
  ultimately show ?thesis by blast
qed

definition sample_session :: data_session where
  "sample_session = message_send (3, [7]) (message_locked 3 100 [7] (message_enter 3 (data_session_new 0 True)))"

theorem frames_reach_published_track_witness:
  "ds_pushed sample_session = [([7], True)] \<and> cachedCdr sample_session = Some [7]"
proof -
  let ?a = "message_enter 3 (data_session_new 0 True)" and ?b = "message_locked 3 100 [7] (message_enter 3 (data_session_new 0 True))"
  have "dsstep (data_session_new 0 True) ?a" by (rule Message_enter) (simp add: data_session_new_def)
  moreover have "dsstep ?a ?b" by (rule Message_locked) code_simp
  moreover have "dsstep ?b sample_session" unfolding sample_session_def by (rule Message_send) code_simp
  ultimately have r: "dsstep\<^sup>*\<^sup>* (data_session_new 0 True) sample_session" by (meson converse_rtranclp_into_rtranclp r_into_rtranclp)
  have "ds_pushed sample_session = [([7], True)]" "ds_last sample_session = Some [7]" by code_simp+
  with frames_reach_published_track [OF r] show ?thesis by simp
qed

end
