(* ===== verification/Log_Lines.thy ===== *)
theory Log_Lines
  imports Protocol_Requests
begin

text \<open>
  Whole log lines of src/src/utils/log_event.hpp: the fields not in \<open>Text_Utils\<close>, lines as the callers
  chain them, and the key=value parser that the header's comment has in mind.
\<close>

section \<open>Model\<close>

definition kUnknownExceptionValue :: string where
  "kUnknownExceptionValue = ''unknown_exception''"

text \<open>\<open>render\<close> is the name of an enum value.\<close>

definition fieldEnum :: "('e \<Rightarrow> string) \<Rightarrow> string \<Rightarrow> 'e \<Rightarrow> string \<Rightarrow> string" where
  "fieldEnum render key value msg = msg @ '' '' @ key @ ''='' @ render value"

definition fieldEnumOr :: "('e \<Rightarrow> string) \<Rightarrow> string \<Rightarrow> 'e option \<Rightarrow> string \<Rightarrow> string \<Rightarrow> string" where
  "fieldEnumOr render key value fallback msg =
     (case value of Some v \<Rightarrow> fieldEnum render key v msg | None \<Rightarrow> msg @ '' '' @ key @ ''='' @ fallback)"

text \<open>An exception pointer: null, a standard exception, or anything else.\<close>

datatype exception_ptr = NoException | StdException exn | ForeignException

definition fieldException :: "string \<Rightarrow> exception_ptr \<Rightarrow> string \<Rightarrow> string" where
  "fieldException key error msg =
     (case error of
        NoException \<Rightarrow> log_field key kUnknownExceptionValue msg
      | StdException e \<Rightarrow> log_field key (what e) msg
      | ForeignException \<Rightarrow> log_field key kUnknownExceptionValue msg)"

text \<open>The line of \<open>appendUnsupportedStatus\<close>; \<open>pending\<close> is the number rendered.\<close>

definition unsupported_line :: "string \<Rightarrow> string option \<Rightarrow> string \<Rightarrow> bool \<Rightarrow> string \<Rightarrow> string" where
  "unsupported_line kind name requester several pending =
     fieldIf several ''count'' pending
       (log_field ''requester_identity'' requester
         (fieldOrQuoted ''name'' name ''<absent>''
           (fieldQuoted ''kind'' kind (log_event ''unsupported_heartbeat_kind''))))"

text \<open>\<open>logRejectedCall\<close> of ros_service_caller.cpp.\<close>

definition logRejectedCall :: "service_call_request \<Rightarrow> string \<Rightarrow> string \<Rightarrow> string \<Rightarrow> exn \<Rightarrow> bool \<Rightarrow> string" where
  "logRejectedCall request requester itype why e log_error =
     (let logged_type = (if itype = [] then sreq_type request else itype) in
      fieldIf log_error ''error'' (what e)
        (fieldOr ''requester_identity'' requester ''<unknown>''
          (fieldOr ''interface_type'' logged_type ''<unknown>''
            (fieldOr ''service'' (sreq_name request) ''<unknown>''
              (log_field ''reason'' why (log_event ''service_call_rejected''))))))"

section \<open>Reading a line\<close>

lemma scan_quoted_shorter: "scan_quoted s = Some (v, r) \<Longrightarrow> length r < length s"
proof (induction s arbitrary: v r rule: scan_quoted.induct)
  case (2 c cs)
  then show ?case by (fastforce split: if_splits list.splits)
qed simp

text \<open>A field is a space, a key, an equals sign, and a quoted value or one that ends at the next space.\<close>

function parse_fields :: "string \<Rightarrow> (string \<times> string) list option" where
  "parse_fields s =
     (case s of
        [] \<Rightarrow> Some []
      | c # rest \<Rightarrow>
          if c \<noteq> CHR '' '' then None
          else (let key = takeWhile (\<lambda>d. d \<noteq> CHR ''='') rest in
                case dropWhile (\<lambda>d. d \<noteq> CHR ''='') rest of
                  [] \<Rightarrow> None
                | eq # after \<Rightarrow>
                    if after \<noteq> [] \<and> hd after = CHR 0x22 then
                      (case scan_quoted (tl after) of
                         None \<Rightarrow> None
                       | Some (v, r) \<Rightarrow> map_option (Cons (key, [CHR 0x22] @ v @ [CHR 0x22])) (parse_fields r))
                    else map_option (Cons (key, takeWhile (\<lambda>d. d \<noteq> CHR '' '') after))
                           (parse_fields (dropWhile (\<lambda>d. d \<noteq> CHR '' '') after))))"
  by pat_completeness auto
termination
proof (relation "measure length", goal_cases)
  case (2 s c rest key eq after p v r)
  have "length after < length rest" using length_dropWhile_le [of "\<lambda>d. d \<noteq> CHR ''=''" rest] 2(4) by simp
  moreover have "length r < length after" using scan_quoted_shorter [of "tl after" v r] 2(5-7) by (cases after) auto
  ultimately show ?case using 2(1) by simp
next
  case (3 s c rest key eq after)
  have "length after < length rest" using length_dropWhile_le [of "\<lambda>d. d \<noteq> CHR ''=''" rest] 3(4) by simp
  moreover have "length (dropWhile (\<lambda>d. d \<noteq> CHR '' '') after) \<le> length after" by (rule length_dropWhile_le)
  ultimately show ?case using 3(1) by simp
qed simp

declare parse_fields.simps [simp del]

definition parse_line :: "string \<Rightarrow> (string \<times> (string \<times> string) list) option" where
  "parse_line s =
     (if take 6 s = ''event='' then
        map_option (Pair (takeWhile (\<lambda>d. d \<noteq> CHR '' '') (drop 6 s))) (parse_fields (dropWhile (\<lambda>d. d \<noteq> CHR '' '') (drop 6 s)))
      else None)"

section \<open>Lines of fields\<close>

text \<open>What a chain of calls appends: plain and quoted fields.\<close>

datatype log_item = Plain string string | Quoted string string

fun item_text :: "log_item \<Rightarrow> string" where
  "item_text (Plain key value) = CHR '' '' # key @ CHR ''='' # value"
| "item_text (Quoted key value) = CHR '' '' # key @ CHR ''='' # CHR 0x22 # concat (map escape_char value) @ [CHR 0x22]"

fun item_view :: "log_item \<Rightarrow> string \<times> string" where
  "item_view (Plain key value) = (key, value)"
| "item_view (Quoted key value) = (key, [CHR 0x22] @ concat (map escape_char value) @ [CHR 0x22])"

text \<open>The header's rule: keys and plain values are parser-safe; a quoted value may be anything.\<close>

definition safe_key :: "string \<Rightarrow> bool" where
  "safe_key key \<longleftrightarrow> list_all (\<lambda>c. c \<noteq> CHR ''='' \<and> 32 \<le> (of_char c :: nat)) key"

definition safe_plain :: "string \<Rightarrow> bool" where
  "safe_plain v \<longleftrightarrow> list_all (\<lambda>c. c \<noteq> CHR '' '' \<and> 32 \<le> (of_char c :: nat)) v \<and> (v = [] \<or> hd v \<noteq> CHR 0x22)"

fun safe_item :: "log_item \<Rightarrow> bool" where
  "safe_item (Plain key value) \<longleftrightarrow> safe_key key \<and> safe_plain value"
| "safe_item (Quoted key value) \<longleftrightarrow> safe_key key"

definition log_line :: "string \<Rightarrow> log_item list \<Rightarrow> string" where
  "log_line name items = log_event name @ concat (map item_text items)"

lemma log_line_calls:
  "log_event name = log_line name []"
  "log_field key v (log_line name items) = log_line name (items @ [Plain key v])"
  "fieldQuoted key v (log_line name items) = log_line name (items @ [Quoted key v])"
  by (simp_all add: log_line_def log_field_def fieldQuoted_def)

lemma line_fields_start: "concat (map item_text items) = [] \<or> hd (concat (map item_text items)) = CHR '' ''"
proof (cases items)
  case (Cons i rest)
  then show ?thesis by (cases i) simp_all
qed simp

lemma key_split:
  assumes "safe_key key"
  shows "takeWhile (\<lambda>d. d \<noteq> CHR ''='') (key @ CHR ''='' # s) = key" "dropWhile (\<lambda>d. d \<noteq> CHR ''='') (key @ CHR ''='' # s) = CHR ''='' # s"
  using assms by (induction key) (auto simp: safe_key_def)

lemma plain_split:
  assumes "list_all (\<lambda>c. c \<noteq> CHR '' '' \<and> 32 \<le> (of_char c :: nat)) v" "s = [] \<or> hd s = CHR '' ''"
  shows "takeWhile (\<lambda>d. d \<noteq> CHR '' '') (v @ s) = v" "dropWhile (\<lambda>d. d \<noteq> CHR '' '') (v @ s) = s"
  using assms by (induction v) (cases s, auto)+

lemma parse_plain_field:
  assumes "safe_key key" "safe_plain v" "s = [] \<or> hd s = CHR '' ''" "parse_fields s = Some fs"
  shows "parse_fields (item_text (Plain key v) @ s) = Some ((key, v) # fs)"
proof -
  have "\<not> (v @ s \<noteq> [] \<and> hd (v @ s) = CHR 0x22)" using assms(2,3) by (cases v) (auto simp: safe_plain_def)
  then show ?thesis using assms
    by (subst parse_fields.simps) (auto simp: key_split plain_split safe_plain_def Let_def)
qed

lemma parse_quoted_field:
  assumes "safe_key key" "parse_fields s = Some fs"
  shows "parse_fields (item_text (Quoted key v) @ s) = Some (item_view (Quoted key v) # fs)"
  using assms by (subst parse_fields.simps) (simp add: key_split scan_quoted_escaped Let_def)

lemma parse_items: "list_all safe_item items \<Longrightarrow> parse_fields (concat (map item_text items)) = Some (map item_view items)"
proof (induction items)
  case Nil
  show ?case by (subst parse_fields.simps) simp
next
  case (Cons i items)
  then have rest: "parse_fields (concat (map item_text items)) = Some (map item_view items)" by simp
  show ?case
  proof (cases i)
    case (Plain key v)
    then show ?thesis using parse_plain_field [OF _ _ line_fields_start rest, of key v] Cons.prems by simp
  next
    case (Quoted key v)
    then show ?thesis using parse_quoted_field [OF _ rest, of key v] Cons.prems by simp
  qed
qed

lemma parse_log_line:
  assumes "safe_plain name" "list_all safe_item items"
  shows "parse_line (log_line name items) = Some (name, map item_view items)"
  using assms plain_split [of name "concat (map item_text items)"] line_fields_start [of items]
  by (simp add: parse_line_def log_line_def log_event_def parse_items safe_plain_def)

abbreviation printable :: "string \<Rightarrow> bool" where
  "printable s \<equiv> list_all (\<lambda>c. 32 \<le> (of_char c :: nat)) s"

lemma safe_printable: "safe_key key \<Longrightarrow> printable key" "safe_plain v \<Longrightarrow> printable v"
  unfolding safe_key_def safe_plain_def by (blast intro: list.pred_mono_strong)+

lemma escaped_printable: "printable (concat (map escape_char v))"
  by (induction v) (simp_all add: escape_char_printable)

lemma item_printable: "safe_item i \<Longrightarrow> printable (item_text i)"
  by (cases i) (simp_all add: safe_printable escaped_printable)

lemma items_printable: "list_all safe_item items \<Longrightarrow> printable (concat (map item_text items))"
  by (induction items) (simp_all add: item_printable)

lemma line_printable: "safe_plain name \<Longrightarrow> list_all safe_item items \<Longrightarrow> printable (log_line name items)"
  by (simp add: log_line_def log_event_def safe_printable items_printable)

section \<open>Properties\<close>

text \<open>
  Whatever kind and name a client puts into its heartbeat, the log line about the unsupported
  entry has no control character, so that it stays one line, and reads back as exactly its
  fields, the client's two values each as one quoted value.
\<close>

theorem unsupported_line_reads_back:
  assumes "safe_plain requester" "safe_plain pending"
  shows "printable (unsupported_line kind name requester several pending)
    \<and> parse_line (unsupported_line kind name requester several pending) = Some (''unsupported_heartbeat_kind'',
      [item_view (Quoted ''kind'' kind),
       (case name of Some n \<Rightarrow> item_view (Quoted ''name'' n) | None \<Rightarrow> (''name'', ''<absent>'')),
       (''requester_identity'', requester)] @ (if several then [(''count'', pending)] else []))"
proof -
  let ?items = "[Quoted ''kind'' kind, (case name of Some n \<Rightarrow> Quoted ''name'' n | None \<Rightarrow> Plain ''name'' ''<absent>''),
    Plain ''requester_identity'' requester] @ (if several then [Plain ''count'' pending] else [])"
  have plain: "safe_plain ''<absent>''" "safe_plain ''unsupported_heartbeat_kind''" by code_simp+
  have line: "unsupported_line kind name requester several pending = log_line ''unsupported_heartbeat_kind'' ?items"
    by (cases name) (simp_all add: unsupported_line_def fieldOrQuoted_def fieldIf_def log_line_def log_field_def fieldQuoted_def)
  have "safe_key ''kind''" "safe_key ''name''" "safe_key ''requester_identity''" "safe_key ''count''" by code_simp+
  then have safe: "list_all safe_item ?items" using assms plain(1) by (cases name) simp_all
  show ?thesis unfolding line parse_log_line [OF plain(2) safe] using line_printable [OF plain(2) safe]
    by (cases name) simp_all
qed

theorem unsupported_line_reads_back_witness:
  "printable (unsupported_line (''x'' @ [CHR 0x0A] @ ''event=forged'') None ''alice'' False ''1'')"
proof -
  have "safe_plain ''alice''" "safe_plain ''1''" by code_simp+
  then show ?thesis using unsupported_line_reads_back by blast
qed

text \<open>
  C39: The rejection line of a service call is not protected that way: for every forged line there is a
  request, accepted by the codec, whose interface type makes the log text contain it as a line of its own.
\<close>

theorem rejected_call_injects:
  assumes "forged \<noteq> []" "\<not> is_space (last forged)"
    and "requiredString body ''service'' ''service is required'' None = Inr n" "expand_or_throw expand n True = Inr service"
    and "json_find body ''interface_type'' = Some (JString (''x'' @ [CHR 0x0A] @ forged))"
    and "cdr_parse evp body RequestField = Inr payload" "length payload \<noteq> 0" "json_find body ''timeout_ms'' = None"
  shows "\<exists>request before after. services_parse_body expand evp body = Inr request
    \<and> logRejectedCall request requester [] why e log_error = before @ [CHR 0x0A] @ forged @ after"
proof -
  have "trim (''x'' @ [CHR 0x0A] @ forged) = ''x'' @ [CHR 0x0A] @ forged"
    using assms(1,2) by (intro trim_id) (simp_all add: is_space_def)
  then have p: "services_parse_body expand evp body
      = Inr \<lparr>sreq_name = service, sreq_type = ''x'' @ [CHR 0x0A] @ forged, sreq_payload = payload, sreq_timeout = None\<rparr>"
    using assms by (simp add: services_parse_body_def optionalString_def trimmedString_def value_or_empty_def Let_def)
  let ?r = "\<lparr>sreq_name = service, sreq_type = ''x'' @ [CHR 0x0A] @ forged, sreq_payload = payload, sreq_timeout = None\<rparr>"
  let ?before = "fieldOr ''interface_type'' ''x'' ''<unknown>'' (fieldOr ''service'' service ''<unknown>''
    (log_field ''reason'' why (log_event ''service_call_rejected'')))"
  let ?after = "fieldIf log_error ''error'' (what e) (fieldOr ''requester_identity'' requester ''<unknown>'' [])"
  have "logRejectedCall ?r requester [] why e log_error = ?before @ [CHR 0x0A] @ forged @ ?after"
    by (simp add: logRejectedCall_def fieldIf_def fieldOr_def log_field_def Let_def)
  with p show ?thesis by blast
qed

definition forging_request :: json where
  "forging_request = JObject
     [(''service'', JString ''reset''), (''interface_type'', JString (''x'' @ [CHR 0x0A] @ ''event=bridge_started'')),
      (''request'', cdr_serialize rfc_encode_block [104, 105])]"

theorem rejected_call_injects_witness:
  "\<exists>request before after. services_parse_body (\<lambda>n q r s. Inr (CHR ''/'' # n)) rfc_decode_block forging_request = Inr request
     \<and> logRejectedCall request ''mallory'' [] ''requester_inflight_limit_reached'' (Runtime_error ''limit'') False
         = before @ [CHR 0x0A] @ ''event=bridge_started'' @ after"
proof (rule rejected_call_injects)
  have e: "base64_encode rfc_encode_block [104, 105] = ''aGk=''"
    by (simp add: base64_encode_def rfc_encode_block_def int_of_size_def Let_def alpha_def alphabet_def)
  have enc: "encoded_field forging_request RequestField t \<longleftrightarrow> t = ''aGk=''" for t
    by (auto simp: encoded_field_def forging_request_def cdr_serialize_def e)
  have "base64_decode rfc_decode_block ''aGk='' = Inr \<lparr>b64_bytes = [104, 105], b64_status = B64_Ok\<rparr>"
    using base64_canonical [OF rfc_blocks_spec, of "''aGk=''" "[104, 105]"] e by simp
  then show "cdr_parse rfc_decode_block forging_request RequestField = Inr [104, 105]"
    by (simp add: cdr_parse_Inr_iff enc)
  have "trim ''reset'' = ''reset''" by code_simp
  then show "requiredString forging_request ''service'' ''service is required'' None = Inr ''reset''"
    by (simp add: requiredString_def trimmedString_def forging_request_def)
qed (simp_all add: expand_or_throw_def forging_request_def is_space_def)

end
