(* ===== verification/Drain_Waitable.thy ===== *)
theory Drain_Waitable
  imports Executor_Queue
begin

text \<open>
  \<open>DrainWaitable\<close> of src/src/ros_executor_queue.cpp, what the executor sees of the queue, and the queue's life on
  its node: registration in the constructor, removal by \<open>shutdown\<close>, and callbacks that arrive after
  the queue is gone. \<open>rclcpp::GuardCondition\<close> is an argument: its calls on a state of type \<open>'g\<close>.
\<close>

section \<open>Model\<close>

definition kGuardEntityId :: nat where
  "kGuardEntityId = 0"

text \<open>\<open>guard_add\<close> adds the condition to the guard slots of a wait set; \<open>guard_handle\<close> is what the slot then holds.\<close>

record 'g guard_ops =
  guard_handle :: "'g \<Rightarrow> nat"
  guard_add :: "'g \<Rightarrow> nat option list \<Rightarrow> nat option list"
  guard_set_on_trigger :: "(nat \<Rightarrow> nat \<times> nat) option \<Rightarrow> 'g \<Rightarrow> 'g"
  guard_trigger :: "'g \<Rightarrow> unit res \<times> 'g"

text \<open>\<open>dq_alive\<close>: the weak pointer to the queue's state can be locked; \<open>dq_registered\<close>: the node has the waitable.\<close>

record 'g drain_node =
  dq_queue :: exec_queue
  dq_alive :: bool
  dq_guard :: 'g
  dq_registered :: bool

text \<open>The constructor of the queue.\<close>

definition drain_node_init :: "'g \<Rightarrow> 'g drain_node" where
  "drain_node_init g = \<lparr>dq_queue = queue_init, dq_alive = True, dq_guard = g, dq_registered = True\<rparr>"

definition drain_add_to_wait_set :: "'g guard_ops \<Rightarrow> nat option list \<Rightarrow> 'g drain_node \<Rightarrow> nat option list" where
  "drain_add_to_wait_set ops slots d = guard_add ops (dq_guard d) slots"

fun scan_guards :: "nat \<Rightarrow> nat option list \<Rightarrow> bool" where
  "scan_guards handle [] = False"
| "scan_guards handle (slot # slots) = (if slot = Some handle then True else scan_guards handle slots)"

definition drain_is_ready :: "'g guard_ops \<Rightarrow> nat option list \<Rightarrow> 'g drain_node \<Rightarrow> bool" where
  "drain_is_ready ops slots d = scan_guards (guard_handle ops (dq_guard d)) slots"

text \<open>\<open>execute\<close> on thread \<open>t\<close>: a queue that is gone is left alone.\<close>

definition drain_execute :: "thread \<Rightarrow> 'g drain_node \<Rightarrow> 'g drain_node" where
  "drain_execute t d = (if dq_alive d then d\<lparr>dq_queue := drain_enter t (dq_queue d)\<rparr> else d)"

definition drain_take_data :: "'g drain_node \<Rightarrow> unit option" where
  "drain_take_data d = None"

definition drain_guard_conditions :: "'g drain_node \<Rightarrow> nat" where
  "drain_guard_conditions d = 1"

definition drain_clear_on_ready :: "'g guard_ops \<Rightarrow> 'g drain_node \<Rightarrow> 'g drain_node" where
  "drain_clear_on_ready ops d = d\<lparr>dq_guard := guard_set_on_trigger ops None (dq_guard d)\<rparr>"

text \<open>The callback is told the count and the entity.\<close>

definition drain_set_on_ready :: "'g guard_ops \<Rightarrow> (nat \<Rightarrow> nat \<Rightarrow> nat \<times> nat) option \<Rightarrow> 'g drain_node \<Rightarrow> 'g drain_node" where
  "drain_set_on_ready ops on_ready d =
     (case on_ready of
        None \<Rightarrow> drain_clear_on_ready ops d
      | Some f \<Rightarrow> d\<lparr>dq_guard := guard_set_on_trigger ops (Some (\<lambda>count. f count kGuardEntityId)) (dq_guard d)\<rparr>)"

text \<open>\<open>RosExecutorQueue::wake\<close> with the guard condition: the trigger's answer decides.\<close>

definition drain_wake :: "'g guard_ops \<Rightarrow> thread \<Rightarrow> 'g drain_node \<Rightarrow> 'g drain_node" where
  "drain_wake ops t d =
     (if q_shutdown (dq_queue d) then d\<lparr>dq_queue := wake t True (dq_queue d)\<rparr>
      else (case guard_trigger ops (dq_guard d) of
              (Inr _, g) \<Rightarrow> d\<lparr>dq_guard := g, dq_queue := wake t True (dq_queue d)\<rparr>
            | (Inl e, g) \<Rightarrow> d\<lparr>dq_guard := g, dq_queue := wake t False (dq_queue d), dq_registered := False\<rparr>))"

text \<open>\<open>shutdown\<close> up to the removal of the waitable, which only the flipping call does.\<close>

definition drain_shutdown :: "thread \<Rightarrow> 'g drain_node \<Rightarrow> 'g drain_node" where
  "drain_shutdown t d =
     (if q_shutdown (dq_queue d) then d else d\<lparr>dq_queue := shutdown_flip t (dq_queue d), dq_registered := False\<rparr>)"

definition on_queue :: "(exec_queue \<Rightarrow> exec_queue) \<Rightarrow> 'g drain_node \<Rightarrow> 'g drain_node" where
  "on_queue f d = d\<lparr>dq_queue := f (dq_queue d)\<rparr>"

text \<open>
  The executor runs a waitable it has found ready; it may still hold the waitable when the node or the
  queue has dropped it. The queue's state goes away when \<open>shutdown\<close> has returned and its owner is destroyed.
\<close>

inductive dnstep :: "'g guard_ops \<Rightarrow> 'g drain_node \<Rightarrow> 'g drain_node \<Rightarrow> bool" for ops where
  D_submit: "dq_alive d \<Longrightarrow> i \<notin> set (all_submitted (dq_queue d)) \<Longrightarrow> dnstep ops d (on_queue (submit i) d)"
| D_wake: "dq_alive d \<Longrightarrow> wakes_due (dq_queue d) > 0 \<Longrightarrow> dnstep ops d (drain_wake ops t d)"
| D_shutdown: "dq_alive d \<Longrightarrow> dnstep ops d (drain_shutdown t d)"
| D_cancel: "canceling (dq_queue d) \<noteq> [] \<Longrightarrow> dnstep ops d (on_queue cancel_next d)"
| D_execute: "dq_alive d \<longrightarrow> guard_triggered (dq_queue d) \<Longrightarrow> dnstep ops d (drain_execute t d)"
| D_next: "drain_pc (dq_queue d) = LoopHead \<Longrightarrow> dnstep ops d (on_queue drain_next d)"
| D_done: "drain_pc (dq_queue d) = RunningTask i \<Longrightarrow> dnstep ops d (on_queue (task_done i) d)"
| D_exit: "drain_pc (dq_queue d) = Leaving \<Longrightarrow> dnstep ops d (on_queue drain_exit d)"
| D_callback: "dnstep ops d (drain_set_on_ready ops on_ready d)"
| D_gone: "canceler (dq_queue d) = Some t \<Longrightarrow> shutdown_may_return t (dq_queue d) \<Longrightarrow> drain_owner (dq_queue d) \<noteq> Some t \<Longrightarrow>
    dnstep ops d (d\<lparr>dq_alive := False\<rparr>)"

inductive_cases dnstepE: "dnstep ops d d'"

section \<open>The queue on its node\<close>

text \<open>Every step of the node is a step of the queue, or none.\<close>

lemma dnstep_queue: "dnstep ops d d' \<Longrightarrow> qstep\<^sup>*\<^sup>* (dq_queue d) (dq_queue d')"
proof (erule dnstepE)
  fix t assume "d' = drain_wake ops t d" "wakes_due (dq_queue d) > 0"
  then show "qstep\<^sup>*\<^sup>* (dq_queue d) (dq_queue d')"
    using Wake [of "dq_queue d" t True] Wake [of "dq_queue d" t False] by (auto simp: drain_wake_def split: prod.split sum.split)
next
  fix t assume "d' = drain_shutdown t d"
  then show "qstep\<^sup>*\<^sup>* (dq_queue d) (dq_queue d')" using Shutdown [of "dq_queue d" t] by (auto simp: drain_shutdown_def)
qed (auto simp: on_queue_def drain_execute_def drain_set_on_ready_def drain_clear_on_ready_def intro: qstep.intros split: option.split)

lemma dn_runs_queue:
  "(dnstep ops)\<^sup>*\<^sup>* d d' \<Longrightarrow> qstep\<^sup>*\<^sup>* (dq_queue d) (dq_queue d')"
  by (induction rule: rtranclp_induct) (auto dest: dnstep_queue intro: rtranclp_trans)

definition node_inv :: "'g drain_node \<Rightarrow> bool" where
  "node_inv d \<longleftrightarrow> queue_inv (dq_queue d) \<and> (dq_registered d \<longleftrightarrow> \<not> q_shutdown (dq_queue d))
     \<and> (\<not> dq_alive d \<longrightarrow> q_shutdown (dq_queue d) \<and> canceling (dq_queue d) = [] \<and> \<not> draining (dq_queue d))"

lemma node_inv_step:
  assumes "dnstep ops d d'" "node_inv d"
  shows "node_inv d'"
proof -
  have "queue_inv (dq_queue d')"
    using dnstep_queue [OF assms(1)] assms(2) by (induction rule: rtranclp_induct) (auto simp: node_inv_def intro: queue_inv_step)
  with assms show ?thesis
    by (elim dnstepE)
      (auto simp: node_inv_def on_queue_def drain_wake_def drain_shutdown_def drain_execute_def drain_set_on_ready_def
        drain_clear_on_ready_def queue_inv_def queue_ops shutdown_may_return_def idle_for_def split: prod.splits sum.splits list.splits option.splits)
qed

lemma node_inv_init: "node_inv (drain_node_init g)"
  using queue_inv_init by (simp add: node_inv_def drain_node_init_def) (simp add: queue_init_def)

lemma node_reachable_inv: "(dnstep ops)\<^sup>*\<^sup>* (drain_node_init g) d \<Longrightarrow> node_inv d"
  by (induction rule: rtranclp_induct) (auto intro: node_inv_init node_inv_step)

text \<open>A queue that is gone stays as it is.\<close>

definition queue_gone :: "exec_queue \<Rightarrow> 'g drain_node \<Rightarrow> bool" where
  "queue_gone q d \<longleftrightarrow> node_inv d \<and> \<not> dq_alive d \<and> dq_queue d = q"

interpretation qg: terminal_shutdown "dnstep ops" "queue_gone q" for ops q
proof
  fix d d' assume st: "dnstep ops d d'" "queue_gone q d"
  have pc: "drain_pc (dq_queue d) = NotDraining" "canceling (dq_queue d) = []" using st(2) by (auto simp: queue_gone_def node_inv_def queue_inv_def)
  have "\<not> dq_alive d' \<and> dq_queue d' = q" using st pc
    by (elim dnstepE)
      (auto simp: queue_gone_def drain_execute_def drain_set_on_ready_def drain_clear_on_ready_def split: option.splits)
  with node_inv_step [OF st(1)] st(2) show "queue_gone q d'" by (simp add: queue_gone_def)
qed

section \<open>Draining\<close>

abbreviation open_run :: "exec_queue \<Rightarrow> exec_queue \<Rightarrow> bool" where
  "open_run \<equiv> (\<lambda>q q'. exclusive_step q q' \<and> \<not> q_shutdown q' \<and> accepted q' = accepted q)\<^sup>*\<^sup>*"

lemma open_step:
  assumes "qstep q q'" "\<not> (draining q \<and> guard_triggered q) \<or> guard_triggered q'" "\<not> q_shutdown q'" "accepted q' = accepted q"
  shows "open_run q q'"
  using assms by (intro r_into_rtranclp) (auto simp: exclusive_step_def)

text \<open>From the loop head the drain empties the queue and leaves.\<close>

lemma drain_from_head:
  assumes "drain_pc q = LoopHead" "\<not> q_shutdown q"
  shows "\<exists>q'. open_run q q' \<and> tasks q' = [] \<and> drain_pc q' = NotDraining \<and> \<not> draining q' \<and> wakes_due q' = wakes_due q"
  using assms
proof (induction "tasks q" arbitrary: q)
  case Nil
  let ?q = "drain_exit (drain_next q)"
  have "open_run q (drain_next q)" "open_run (drain_next q) ?q"
    using Nil qstep.Next [of q] qstep.Exit [of "drain_next q"] by (auto intro!: open_step simp: queue_ops)
  then have "open_run q ?q" by (rule rtranclp_trans)
  with Nil show ?case by (intro exI [of _ ?q]) (simp add: queue_ops)
next
  case (Cons i js)
  let ?q = "task_done i (drain_next q)"
  have head: "tasks q = i # js" using Cons.hyps(2) by simp
  have steps: "open_run q (drain_next q)" "open_run (drain_next q) ?q"
    using Cons.prems head qstep.Next [of q] qstep.Task_done [of "drain_next q" i] by (auto intro!: open_step simp: queue_ops)
  have "js = tasks ?q" "drain_pc ?q = LoopHead" "\<not> q_shutdown ?q" "wakes_due ?q = wakes_due q" using Cons.prems head by (simp_all add: queue_ops)
  with Cons.hyps(1) [of ?q] obtain q' where "open_run ?q q'" "tasks q' = []" "drain_pc q' = NotDraining" "\<not> draining q'" "wakes_due q' = wakes_due q" by auto
  with steps show ?case by (meson rtranclp_trans)
qed

text \<open>A triggered guard condition leads to the loop head, once an earlier drain has left.\<close>

lemma drain_from_trigger:
  assumes "guard_triggered q" "\<not> q_shutdown q" "\<not> draining q"
  shows "\<exists>q'. open_run q q' \<and> tasks q' = [] \<and> \<not> draining q'"
proof -
  let ?q = "drain_enter 0 q"
  have "open_run q ?q" using assms qstep.Enter [of q 0] by (intro open_step) (auto simp: queue_ops)
  moreover have "drain_pc ?q = LoopHead" "\<not> q_shutdown ?q" using assms by (simp_all add: queue_ops)
  ultimately show ?thesis using drain_from_head [of ?q] by (meson rtranclp_trans)
qed

lemma drain_from_rest:
  assumes "wake_inv q" "\<not> q_shutdown q" "drain_pc q = NotDraining"
  shows "\<exists>q'. open_run q q' \<and> tasks q' = [] \<and> \<not> draining q'"
proof -
  have idle: "\<not> draining q" using assms by (simp add: wake_inv_def queue_inv_def)
  consider "tasks q = []" | "guard_triggered q" | "wakes_due q > 0" using assms by (auto simp: wake_inv_def)
  then show ?thesis
  proof cases
    case 3
    let ?q = "wake 0 True q"
    have "open_run q ?q" using 3 assms(2) idle qstep.Wake [of q 0 True] by (intro open_step) (auto simp: queue_ops)
    moreover have "guard_triggered ?q" "\<not> q_shutdown ?q" "\<not> draining ?q" using assms(2) idle by (simp_all add: queue_ops)
    ultimately show ?thesis using drain_from_trigger [of ?q] by (meson rtranclp_trans)
  qed (use idle assms(2) drain_from_trigger in blast)+
qed

lemma drain_from_any:
  assumes "wake_inv q" "\<not> q_shutdown q"
  shows "\<exists>q'. open_run q q' \<and> tasks q' = [] \<and> \<not> draining q'"
proof (cases "drain_pc q")
  case NotDraining
  then show ?thesis using drain_from_rest [OF assms] by blast
next
  case LoopHead
  then show ?thesis using drain_from_head [OF _ assms(2)] by blast
next
  case (RunningTask i)
  let ?q = "task_done i q"
  have "open_run q ?q" using RunningTask assms(2) qstep.Task_done [of q i] by (intro open_step) (auto simp: queue_ops)
  moreover have "drain_pc ?q = LoopHead" "\<not> q_shutdown ?q" using assms(2) by (simp_all add: queue_ops)
  ultimately show ?thesis using drain_from_head [of ?q] by (meson rtranclp_trans)
next
  case Leaving
  let ?q = "drain_exit q"
  have "exclusive_step q ?q" using qstep.Exit [OF Leaving] by (simp add: exclusive_step_def drain_exit_def)
  then have inv: "wake_inv ?q" using assms(1) by (rule wake_inv_step)
  have "open_run q ?q" using Leaving assms(2) qstep.Exit [of q] by (intro open_step) (auto simp: queue_ops)
  moreover have "drain_pc ?q = NotDraining" "\<not> q_shutdown ?q" using assms(2) by (simp_all add: queue_ops)
  ultimately show ?thesis using drain_from_rest [OF inv] by (meson rtranclp_trans)
qed

lemma open_run_keeps: "open_run q q' \<Longrightarrow> \<not> q_shutdown q \<Longrightarrow> \<not> q_shutdown q' \<and> accepted q' = accepted q \<and> exclusive_step\<^sup>*\<^sup>* q q'"
  by (induction rule: rtranclp_induct) (auto intro: rtranclp.rtrancl_into_rtrancl)

lemma exclusive_wake_inv: "exclusive_step\<^sup>*\<^sup>* queue_init q \<Longrightarrow> wake_inv q"
proof (induction rule: rtranclp_induct)
  case base
  then show ?case using queue_inv_init by (simp add: wake_inv_def) (simp add: queue_init_def)
qed (rule wake_inv_step)

lemma exclusive_reachable: "exclusive_step\<^sup>*\<^sup>* queue_init q \<Longrightarrow> queue_reachable q"
  by (erule rtranclp_mono [THEN predicate2D, rotated]) (auto simp: exclusive_step_def)

section \<open>Properties\<close>

text \<open>
  C35: An open queue can always finish its work: from every state it can reach under a mutually exclusive callback
  group there is a run of wakes, drains and tasks, without further submissions, after which every accepted task has
  run in the order of submission and its promise is set, and the queue is open, empty and idle.
\<close>

theorem queue_can_finish:
  assumes "exclusive_step\<^sup>*\<^sup>* queue_init q" "\<not> q_shutdown q"
  shows "\<exists>q'. exclusive_step\<^sup>*\<^sup>* q q' \<and> \<not> q_shutdown q' \<and> tasks q' = [] \<and> \<not> draining q'
    \<and> started q' = accepted q \<and> settled_tasks q' = mset (accepted q)"
proof -
  obtain q' where q': "open_run q q'" "tasks q' = []" "\<not> draining q'" using drain_from_any [OF exclusive_wake_inv [OF assms(1)] assms(2)] by blast
  note keep = open_run_keeps [OF q'(1) assms(2)]
  have reach: "queue_reachable q'" using assms(1) keep by (intro exclusive_reachable) (auto intro: rtranclp_trans)
  note inv = eq.reachable_good [OF reach]
  have "started q' = accepted q" using inv keep q'(2) by (simp add: queue_inv_def)
  moreover have "pending_tasks q' = {#}" "all_submitted q' = accepted q"
    using inv keep q'(2,3) by (auto simp: pending_tasks_def running_def queue_inv_def all_submitted_def)
  ultimately show ?thesis using eq.all_settled [OF reach] keep q' by auto
qed

text \<open>
  The node never has the waitable of a closed queue; and once the queue's state is gone every task ever submitted has been
  settled, and whatever the executor still does with the waitable, it finds the queue as it was left.
\<close>

theorem late_callbacks_harmless:
  assumes "(dnstep ops)\<^sup>*\<^sup>* (drain_node_init g) d"
  shows "(dq_registered d \<longleftrightarrow> \<not> q_shutdown (dq_queue d))
    \<and> (\<not> dq_alive d \<longrightarrow> settled_tasks (dq_queue d) = mset (all_submitted (dq_queue d))
        \<and> (\<forall>d'. (dnstep ops)\<^sup>*\<^sup>* d d' \<longrightarrow> dq_queue d' = dq_queue d \<and> \<not> dq_alive d'))"
proof -
  have inv: "node_inv d" by (rule node_reachable_inv [OF assms])
  have reach: "queue_reachable (dq_queue d)" using dn_runs_queue [OF assms] by (simp add: drain_node_init_def)
  have "pending_tasks (dq_queue d) = {#}" if "\<not> dq_alive d"
    using inv that by (auto simp: node_inv_def queue_inv_def pending_tasks_def running_def)
  then have "settled_tasks (dq_queue d) = mset (all_submitted (dq_queue d))" if "\<not> dq_alive d" using eq.all_settled [OF reach] that by simp
  moreover have "dq_queue d' = dq_queue d \<and> \<not> dq_alive d'" if "\<not> dq_alive d" "(dnstep ops)\<^sup>*\<^sup>* d d'" for d'
    using qg.down_forever [OF that(2), of "dq_queue d"] inv that(1) by (simp add: queue_gone_def)
  moreover have "dq_registered d \<longleftrightarrow> \<not> q_shutdown (dq_queue d)" using inv by (simp add: node_inv_def)
  ultimately show ?thesis by blast
qed

section \<open>A run\<close>

theorem queue_can_finish_witness:
  "\<exists>q'. exclusive_step\<^sup>*\<^sup>* (sample_queue (take 3 sample_schedule)) q' \<and> started q' = [10, 11]"
proof -
  let ?q = "sample_queue (take 3 sample_schedule)"
  have "\<not> q_shutdown ?q" "accepted ?q = [10, 11]" by code_simp+
  with queue_can_finish [OF schedule_exclusive [OF sample_run(2)]] show ?thesis by auto
qed

definition sample_guard :: "nat guard_ops" where
  "sample_guard = \<lparr>guard_handle = (\<lambda>g. 5), guard_add = (\<lambda>g slots. slots @ [Some 5]), guard_set_on_trigger = (\<lambda>f g. g), guard_trigger = (\<lambda>g. (Inr (), g + 1))\<rparr>"

definition gone_node :: "nat drain_node" where
  "gone_node = (on_queue cancel_next (drain_shutdown 2 (on_queue (submit 10) (drain_node_init 0))))\<lparr>dq_alive := False\<rparr>"

lemma gone_node_reachable: "(dnstep sample_guard)\<^sup>*\<^sup>* (drain_node_init 0) gone_node"
proof -
  let ?d0 = "drain_node_init 0" let ?d1 = "on_queue (submit 10) ?d0" let ?d2 = "drain_shutdown 2 ?d1" let ?d3 = "on_queue cancel_next ?d2"
  have "dnstep sample_guard ?d0 ?d1" by (rule D_submit) (simp_all add: drain_node_init_def all_submitted_def queue_init_def)
  moreover have "dnstep sample_guard ?d1 ?d2" by (rule D_shutdown) (simp add: drain_node_init_def on_queue_def)
  moreover have "dnstep sample_guard ?d2 ?d3"
    by (rule D_cancel) (simp add: drain_node_init_def on_queue_def drain_shutdown_def queue_ops queue_init_def)
  moreover have "dnstep sample_guard ?d3 gone_node" unfolding gone_node_def
    by (rule D_gone [of _ 2]) (simp_all add: drain_node_init_def on_queue_def drain_shutdown_def queue_ops queue_init_def shutdown_may_return_def idle_for_def)
  ultimately show ?thesis by (meson converse_rtranclp_into_rtranclp rtranclp.rtrancl_refl)
qed

theorem late_callbacks_harmless_witness:
  "settled_tasks (dq_queue gone_node) = {#10#} \<and> \<not> dq_registered gone_node"
proof -
  have "\<not> dq_alive gone_node" "all_submitted (dq_queue gone_node) = [10]" "q_shutdown (dq_queue gone_node)" by code_simp+
  moreover from this(1) have "settled_tasks (dq_queue gone_node) = mset (all_submitted (dq_queue gone_node))"
    "dq_registered gone_node \<longleftrightarrow> \<not> q_shutdown (dq_queue gone_node)"
    using late_callbacks_harmless [OF gone_node_reachable] by blast+
  ultimately show ?thesis by simp
qed

end
