(* ===== verification/Gst_Resources.thy ===== *)
theory Gst_Resources
  imports Ros_Stream Pipeline_Session
begin

text \<open>
  The owners of GStreamer resources (src/src/utils/gstreamer_resources.hpp,
  src/src/video/gstreamer_resources.hpp) and the code that runs under them: validation with its
  element iterator, the sample callback and the push of an image. A ledger records what was
  acquired and which C function released it. The computations are the ones of
  \<open>Pipeline_Validation\<close>, \<open>Media_Pipeline\<close> and \<open>Ros_Stream\<close>, with every early exit running the destructors
  of its scope.

  The iterator over a bin is GStreamer's: its two calls are an argument.
\<close>

section \<open>The ledger\<close>

datatype gst_kind = KObject | KError | KChars | KIterator | KBuffer | KSample | KBufferMap | KFrameMap

datatype free_call = Gst_object_unref | G_error_free | G_free | Gst_iterator_free | Gst_buffer_unref | Gst_sample_unref
  | Gst_buffer_unmap | Gst_video_frame_unmap

text \<open>What the deleter, or the destructor of a mapping, of each kind calls.\<close>

fun deleter :: "gst_kind \<Rightarrow> free_call" where
  "deleter KObject = Gst_object_unref"
| "deleter KError = G_error_free"
| "deleter KChars = G_free"
| "deleter KIterator = Gst_iterator_free"
| "deleter KBuffer = Gst_buffer_unref"
| "deleter KSample = Gst_sample_unref"
| "deleter KBufferMap = Gst_buffer_unmap"
| "deleter KFrameMap = Gst_video_frame_unmap"

text \<open>
  \<open>led_fresh\<close>: the next handle. \<open>led_moved\<close>: handles given away by \<open>release()\<close>. \<open>led_slot_refs\<close>: element
  references held by \<open>GValue\<close> slots. \<open>led_inits\<close>: calls of \<open>gst_init\<close> in this process.
\<close>

record ledger =
  led_fresh :: nat
  led_dropped :: "(free_call \<times> nat) list"
  led_moved :: "(free_call \<times> nat) list"
  led_slot_refs :: nat
  led_inits :: nat

definition ledger_init :: ledger where
  "ledger_init = \<lparr>led_fresh = 0, led_dropped = [], led_moved = [], led_slot_refs = 0, led_inits = 0\<rparr>"

text \<open>\<open>None\<close>: the computation does not return.\<close>

type_synonym 'a owned = "ledger \<Rightarrow> ('a \<times> ledger) option"

definition own_return :: "'a \<Rightarrow> 'a owned" where
  "own_return x L = Some (x, L)"

definition own_bind :: "'a owned \<Rightarrow> ('a \<Rightarrow> 'b owned) \<Rightarrow> 'b owned" where
  "own_bind m f L = (case m L of None \<Rightarrow> None | Some (x, L') \<Rightarrow> f x L')"

text \<open>A pointer or mapping that a call gave, or null; and its destructor.\<close>

definition acquire :: "gst_kind \<Rightarrow> bool \<Rightarrow> ledger \<Rightarrow> nat option \<times> ledger" where
  "acquire k present L = (if present then (Some (led_fresh L), L\<lparr>led_fresh := led_fresh L + 1\<rparr>) else (None, L))"

definition destroy :: "gst_kind \<Rightarrow> nat option \<Rightarrow> ledger \<Rightarrow> ledger" where
  "destroy k ptr L = (case ptr of None \<Rightarrow> L | Some i \<Rightarrow> L\<lparr>led_dropped := (deleter k, i) # led_dropped L\<rparr>)"

definition move_out :: "gst_kind \<Rightarrow> nat option \<Rightarrow> ledger \<Rightarrow> ledger" where
  "move_out k ptr L = (case ptr of None \<Rightarrow> L | Some i \<Rightarrow> L\<lparr>led_moved := (deleter k, i) # led_moved L\<rparr>)"

text \<open>
  A scope with one owner: whichever way the body ends, the owner is destroyed, unless the body has
  moved the resource out of it.
\<close>

definition own_transfer :: "gst_kind \<Rightarrow> bool \<Rightarrow> ('a \<times> bool) owned \<Rightarrow> 'a owned" where
  "own_transfer k present body L =
     (let (ptr, L1) = acquire k present L in
      case body L1 of
        None \<Rightarrow> None
      | Some ((x, moved), L2) \<Rightarrow> Some (x, if moved then move_out k ptr L2 else destroy k ptr L2))"

definition own_scope :: "gst_kind \<Rightarrow> bool \<Rightarrow> 'a owned \<Rightarrow> 'a owned" where
  "own_scope k present body = own_transfer k present (own_bind body (\<lambda>x. own_return (x, False)))"

text \<open>The mapping objects: valid when the call mapped, and then unmapped at the end of the scope.\<close>

definition GstBufferMap :: "bool \<Rightarrow> (bool \<Rightarrow> 'a owned) \<Rightarrow> 'a owned" where
  "GstBufferMap mapped body = own_scope KBufferMap mapped (body mapped)"

definition GstVideoFrameMap :: "bool \<Rightarrow> (bool \<Rightarrow> 'a owned) \<Rightarrow> 'a owned" where
  "GstVideoFrameMap mapped body = own_scope KFrameMap mapped (body mapped)"

definition ensureGStreamerInitialized :: "unit owned" where
  "ensureGStreamerInitialized L = Some ((), if led_inits L = 0 then L\<lparr>led_inits := 1\<rparr> else L)"

section \<open>The iterator's slot\<close>

text \<open>\<open>AValue held\<close>: \<open>G_IS_VALUE\<close>, with or without an element reference in it.\<close>

datatype gvalue = NotAValue | AValue bool

definition slot_fill :: "ledger \<Rightarrow> gvalue \<times> ledger" where
  "slot_fill L = (AValue True, L\<lparr>led_slot_refs := led_slot_refs L + 1\<rparr>)"

definition slot_reset :: "gvalue \<Rightarrow> ledger \<Rightarrow> gvalue \<times> ledger" where
  "slot_reset v L =
     (case v of
        NotAValue \<Rightarrow> (v, L)
      | AValue held \<Rightarrow> (AValue False, if held then L\<lparr>led_slot_refs := led_slot_refs L - 1\<rparr> else L))"

definition slot_destroy :: "gvalue \<Rightarrow> ledger \<Rightarrow> ledger" where
  "slot_destroy v L = (case v of AValue True \<Rightarrow> L\<lparr>led_slot_refs := led_slot_refs L - 1\<rparr> | _ \<Rightarrow> L)"

datatype iterator_result = IterDone | IterOk gst_element | IterResync | IterError

record 'it iterator_ops =
  iter_next :: "'it \<Rightarrow> iterator_result \<times> 'it"
  iter_resync :: "'it \<Rightarrow> 'it"

definition inspect_error :: "string \<Rightarrow> exn" where
  "inspect_error context = Runtime_error (context @ '' could not inspect parsed GStreamer elements'')"

text \<open>The loop of \<open>countEndpoints\<close>.\<close>

partial_function (option) count_loop ::
  "'it iterator_ops \<Rightarrow> string \<Rightarrow> endpoint_layout \<Rightarrow> 'it \<Rightarrow> gvalue \<Rightarrow> endpoint_counts \<Rightarrow> ledger \<Rightarrow> ((endpoint_counts res \<times> gvalue) \<times> ledger) option" where
  "count_loop ops context layout it slot counts L =
     (let (result, it') = iter_next ops it in
      case result of
        IterDone \<Rightarrow> Some ((Inr counts, slot), L)
      | IterResync \<Rightarrow> count_loop ops context layout (iter_resync ops it') slot counts L
      | IterError \<Rightarrow> Some ((Inl (inspect_error context), slot), L)
      | IterOk e \<Rightarrow>
          (let (slot1, L1) = slot_fill L in
           case count_element context layout e counts of
             Inl er \<Rightarrow> Some ((Inl er, slot1), L1)
           | Inr counts' \<Rightarrow>
               (let (slot2, L2) = slot_reset slot1 L1 in count_loop ops context layout it' slot2 counts' L2)))"

definition owned_countEndpoints :: "'it iterator_ops \<Rightarrow> string \<Rightarrow> endpoint_layout \<Rightarrow> 'it \<Rightarrow> endpoint_counts res owned" where
  "owned_countEndpoints ops context layout it = own_scope KIterator True (\<lambda>L.
     case count_loop ops context layout it NotAValue no_endpoints L of
       None \<Rightarrow> None
     | Some ((r, slot), L') \<Rightarrow> Some (r, slot_destroy slot L'))"

text \<open>
  \<open>validatePipeline\<close>; \<open>iter\<close> is \<open>gst_bin_iterate_recurse\<close>. First what a partial parse already shows, then
  the verdict.
\<close>

definition owned_partial ::
  "'it iterator_ops \<Rightarrow> (gst_pipeline \<Rightarrow> 'it) \<Rightarrow> string \<Rightarrow> endpoint_layout \<Rightarrow> string option \<Rightarrow> gst_pipeline option \<Rightarrow> unit res owned" where
  "owned_partial ops iter context layout err pipeline =
     (case (err, pipeline) of
        (Some message, Some p) \<Rightarrow>
          own_bind (owned_countEndpoints ops context layout (iter p)) (\<lambda>r.
            own_return (res_bind r (\<lambda>c. if hasUserEndpoint layout c then Inl (ownership_error context) else Inr ())))
      | _ \<Rightarrow> own_return (Inr ()))"

definition owned_verdict ::
  "'it iterator_ops \<Rightarrow> (gst_pipeline \<Rightarrow> 'it) \<Rightarrow> string \<Rightarrow> endpoint_layout \<Rightarrow> string option \<Rightarrow> gst_pipeline option \<Rightarrow> unit res owned" where
  "owned_verdict ops iter context layout err pipeline =
     (case (err, pipeline) of
        (Some message, _) \<Rightarrow> own_return (Inl (Runtime_error (context @ '' has invalid GStreamer syntax: '' @ message)))
      | (None, None) \<Rightarrow> own_return (Inl (Runtime_error (context @ '' has invalid GStreamer syntax: gst_parse_launch returned null'')))
      | (None, Some NotABin) \<Rightarrow> own_return (Inl (Runtime_error (context @ '' must parse to a GstBin'')))
      | (None, Some (Bin es)) \<Rightarrow>
          own_bind (owned_countEndpoints ops context layout (iter (Bin es))) (\<lambda>r.
            own_return (res_bind r (\<lambda>c. if \<not> layout_matches layout c then Inl (ownership_error context) else Inr ()))))"

definition owned_validatePipeline ::
  "'it iterator_ops \<Rightarrow> (gst_pipeline \<Rightarrow> 'it) \<Rightarrow> gst_launch \<Rightarrow> string \<Rightarrow> string \<Rightarrow> endpoint_layout \<Rightarrow> unit res owned" where
  "owned_validatePipeline ops iter launch context description layout =
     own_bind ensureGStreamerInitialized (\<lambda>_.
       let (err, pipeline) = launch description in
       own_scope KObject (pipeline \<noteq> None) (own_scope KError (err \<noteq> None)
         (own_bind (owned_partial ops iter context layout err pipeline)
            (\<lambda>early. case early of Inl e \<Rightarrow> own_return (Inl e) | Inr _ \<Rightarrow> owned_verdict ops iter context layout err pipeline))))"

section \<open>Pipelines, samples and buffers\<close>

text \<open>
  What \<open>start\<close> of the audio pipeline does until the bin is stored in \<open>pipeline_\<close>; the appsink is the same
  reference before and after its cast.
\<close>

definition owned_audio_parsed :: "string option \<Rightarrow> gst_pipeline option \<Rightarrow> (gst_element list res \<times> bool) owned" where
  "owned_audio_parsed err pipeline =
     (case pipeline of
        None \<Rightarrow> own_return (Inl (Runtime_error (''Failed to create GStreamer pipeline: ''
          @ (case err of Some m \<Rightarrow> m | None \<Rightarrow> ''gst_parse_launch returned null''))), False)
      | Some NotABin \<Rightarrow> own_return (Inl (Runtime_error ''Audio pipeline must resolve to a GstBin.''), False)
      | Some (Bin es) \<Rightarrow>
          (let sink = get_by_name kAudioAppSinkName es in
           own_scope KObject (sink \<noteq> None)
             (case sink of
                None \<Rightarrow> own_return (Inl (Runtime_error ''Audio pipeline did not create the expected appsink.''), False)
              | Some e \<Rightarrow>
                  if factory_name e \<noteq> ''appsink'' then
                    own_return (Inl (Runtime_error (''Audio pipeline named '' @ kAudioAppSinkName @ '' must be a GstAppSink.'')), False)
                  else own_scope KObject True (own_return (Inr es, True)))))"

definition owned_audio_prepare :: "gst_launch \<Rightarrow> string \<Rightarrow> gst_element list res owned" where
  "owned_audio_prepare launch description =
     own_bind ensureGStreamerInitialized (\<lambda>_.
       let (err, pipeline) = launch description in
       own_transfer KObject (pipeline \<noteq> None) (own_scope KError (err \<noteq> None) (owned_audio_parsed err pipeline)))"

definition owned_unpackAudioFrame :: "audio_sample \<Rightarrow> audio_frame res owned" where
  "owned_unpackAudioFrame sample =
     (if \<not> as_complete sample then own_return (Inl (Runtime_error ''GStreamer sample is missing caps or buffer.''))
      else (case as_info sample of
        None \<Rightarrow> own_return (Inl (Runtime_error ''Failed to parse GStreamer audio caps.''))
      | Some (s16, rate, channels) \<Rightarrow>
          if \<not> s16 then own_return (Inl (Runtime_error ''Audio pipeline did not output S16 frames.''))
          else if rate \<le> 0 \<or> channels \<le> 0 then own_return (Inl (Runtime_error ''Audio sample rate or channel count is invalid.''))
          else GstBufferMap (as_map sample \<noteq> None) (\<lambda>valid.
            case as_map sample of
               None \<Rightarrow> own_return (Inl (Runtime_error ''Failed to map GStreamer audio buffer.''))
             | Some data \<Rightarrow>
                 (let sample_count = length data div 2 in
                  if sample_count = 0 \<or> sample_count mod nat channels \<noteq> 0 then
                    own_return (Inl (Runtime_error ''Audio sample count is inconsistent with the channel count.''))
                  else own_return (Inr \<lparr>af_samples = take sample_count (int16_array data), af_rate = rate, af_channels = channels,
                         af_per_channel = sample_count div nat channels\<rparr>)))))"

definition owned_unpackI420Frame :: "(int \<Rightarrow> int \<Rightarrow> lk_plane list) \<Rightarrow> video_sample \<Rightarrow> video_frame option res owned" where
  "owned_unpackI420Frame create sample =
     (if \<not> vs_complete sample then own_return (Inl (Runtime_error ''GStreamer sample is missing caps or buffer.''))
      else (case vs_info sample of
        None \<Rightarrow> own_return (Inl (Runtime_error ''Failed to parse GStreamer video caps.''))
      | Some (i420, width, height) \<Rightarrow>
          if \<not> i420 then own_return (Inl (Runtime_error ''Video pipeline did not output I420 frames.''))
          else if width \<le> 0 \<or> height \<le> 0 then own_return (Inl (Runtime_error ''I420 sample dimensions are invalid.''))
          else GstVideoFrameMap (vs_map sample \<noteq> None) (\<lambda>valid.
            case vs_map sample of
              None \<Rightarrow> own_return (Inl (Runtime_error ''Failed to map GStreamer video frame.''))
            | Some src \<Rightarrow>
                (let planes = create width height in
                 if length planes \<noteq> 3 then own_return (Inl (Runtime_error ''LiveKit I420 plane layout is invalid.''))
                 else own_return (res_bind (validate_planes src planes) (\<lambda>_.
                      res_bind (copy_planes src planes (map (\<lambda>p. replicate (lp_size p) 0) planes)) (\<lambda>copied.
                        Inr (map_option (\<lambda>ds. \<lparr>vf_width = width, vf_height = height, vf_planes = ds\<rparr>) copied))))))))"

definition owned_onSample ::
  "64 word \<Rightarrow> audio_sample option \<Rightarrow> bool \<Rightarrow> (audio_frame \<Rightarrow> unit res) \<Rightarrow> (flow \<times> audio_frame media_call list \<times> 64 word) owned" where
  "owned_onSample word sample is_shutdown capture =
     (case beginUse word of
        None \<Rightarrow> own_return (FlowFlushing, [], word)
      | Some word' \<Rightarrow>
          own_scope KSample (sample \<noteq> None)
            (case sample of
               None \<Rightarrow> own_return (FlowEos, [], endUse word')
             | Some x \<Rightarrow>
                 own_bind (owned_unpackAudioFrame x) (\<lambda>r.
                   case r of
                     Inl e \<Rightarrow> own_return (FlowError, [OnUnpackFailed (what e)], endUse word')
                   | Inr frame \<Rightarrow>
                       if is_shutdown then own_return (FlowFlushing, [], endUse word')
                       else (case capture frame of
                               Inr _ \<Rightarrow> own_return (FlowOk, [OnFrame frame 0], endUse word')
                             | Inl e \<Rightarrow> own_return (FlowError, [OnFrame frame 0, OnCaptureFailed (what e)], endUse word')))))"

text \<open>
  \<open>makeStampedBuffer\<close> and the push that takes the buffer over, which a failed push does too; \<open>raw\<close> is the word in the
  message.
\<close>

definition owned_push :: "string \<Rightarrow> bool \<Rightarrow> bool \<Rightarrow> bytes \<Rightarrow> 32 word \<Rightarrow> 32 word \<Rightarrow> bool \<Rightarrow> unit res owned" where
  "owned_push raw allocated mapped data sec nanosec pushed =
     own_transfer KBuffer allocated
       (if \<not> allocated then own_return (Inl (Runtime_error ''Failed to allocate GStreamer buffer.''), False)
        else own_bind
          (GstBufferMap mapped
             (\<lambda>valid. own_return (if \<not> valid then Inl (Runtime_error ''Failed to map GStreamer buffer.'') else Inr ())))
          (\<lambda>r. case r of
             Inl e \<Rightarrow> own_return (Inl e, False)
           | Inr _ \<Rightarrow>
               if sint sec < 0 then own_return (Inl (Runtime_error ''cannot store a negative time point in rclcpp::Time''), False)
               else if pushed then own_return (Inr (), True)
               else own_return (Inl (Runtime_error (''Failed to push '' @ raw @ '' ROS image into GStreamer.'')), True)))"

section \<open>Accounts\<close>

text \<open>
  From \<open>L\<close> to \<open>L'\<close> every new handle was released by the function of its kind or moved out, each exactly
  once; no slot kept a reference; GStreamer is initialized at most once.
\<close>

definition accounts :: "(free_call \<times> nat) list \<Rightarrow> ledger \<Rightarrow> ledger \<Rightarrow> bool" where
  "accounts moved L L' \<longleftrightarrow>
     (\<exists>ks D. led_fresh L' = led_fresh L + length ks \<and> led_dropped L' = D @ led_dropped L \<and> led_moved L' = moved @ led_moved L
       \<and> mset D + mset moved = mset (zip (map deleter ks) [led_fresh L..<led_fresh L + length ks]))
     \<and> led_slot_refs L' = led_slot_refs L \<and> (led_inits L \<le> 1 \<longrightarrow> led_inits L' \<le> 1)"

definition runs :: "'a owned \<Rightarrow> 'a \<Rightarrow> (ledger \<Rightarrow> (free_call \<times> nat) list) \<Rightarrow> bool" where
  "runs f x moved \<longleftrightarrow> (\<forall>L. \<exists>L'. f L = Some (x, L') \<and> accounts (moved L) L L')"

abbreviation yields :: "'a owned \<Rightarrow> 'a \<Rightarrow> bool" where
  "yields f x \<equiv> runs f x (\<lambda>_. [])"

lemma accounts_refl: "accounts [] L L"
  unfolding accounts_def by (rule conjI, rule exI [of _ "[]"]) simp_all

lemma accounts_trans:
  assumes "accounts m L1 L2" "accounts n L2 L3"
  shows "accounts (n @ m) L1 L3"
proof -
  obtain ks D where 1: "led_fresh L2 = led_fresh L1 + length ks" "led_dropped L2 = D @ led_dropped L1" "led_moved L2 = m @ led_moved L1"
    "mset D + mset m = mset (zip (map deleter ks) [led_fresh L1..<led_fresh L1 + length ks])"
    using assms(1) by (auto simp: accounts_def)
  obtain ks' D' where 2: "led_fresh L3 = led_fresh L2 + length ks'" "led_dropped L3 = D' @ led_dropped L2" "led_moved L3 = n @ led_moved L2"
    "mset D' + mset n = mset (zip (map deleter ks') [led_fresh L2..<led_fresh L2 + length ks'])"
    using assms(2) by (auto simp: accounts_def)
  have "[led_fresh L1..<led_fresh L1 + length (ks @ ks')] = [led_fresh L1..<led_fresh L1 + length ks] @ [led_fresh L2..<led_fresh L2 + length ks']"
    using upt_add_eq_append [of "led_fresh L1" "led_fresh L1 + length ks" "length ks'"] by (simp add: 1(1) add.assoc)
  then have "zip (map deleter (ks @ ks')) [led_fresh L1..<led_fresh L1 + length (ks @ ks')]
      = zip (map deleter ks) [led_fresh L1..<led_fresh L1 + length ks] @ zip (map deleter ks') [led_fresh L2..<led_fresh L2 + length ks']"
    by (simp only: map_append) (rule zip_append, simp)
  then have "mset (zip (map deleter (ks @ ks')) [led_fresh L1..<led_fresh L1 + length (ks @ ks')]) = (mset D + mset m) + (mset D' + mset n)"
    by (simp only: 1(4) 2(4) mset_append)
  then have "mset (D' @ D) + mset (n @ m) = mset (zip (map deleter (ks @ ks')) [led_fresh L1..<led_fresh L1 + length (ks @ ks')])"
    by (simp only: mset_append ac_simps)
  moreover have "led_slot_refs L3 = led_slot_refs L1" "led_inits L1 \<le> 1 \<longrightarrow> led_inits L3 \<le> 1" using assms by (simp_all add: accounts_def)
  ultimately show ?thesis unfolding accounts_def using 1 2
    by (intro conjI exI [of _ "ks @ ks'"] exI [of _ "D' @ D"]) simp_all
qed

lemma accounts_acquire:
  assumes "acquire k p L = (ptr, L1)" "accounts m L1 L2"
  shows "accounts m L (destroy k ptr L2)"
    "accounts (case ptr of None \<Rightarrow> m | Some i \<Rightarrow> (deleter k, i) # m) L (move_out k ptr L2)"
proof -
  have none: "accounts m L L2" if "\<not> p" using assms that by (simp add: acquire_def)
  obtain ks D where 2: "led_fresh L2 = led_fresh L1 + length ks" "led_dropped L2 = D @ led_dropped L1" "led_moved L2 = m @ led_moved L1"
    "mset D + mset m = mset (zip (map deleter ks) [led_fresh L1..<led_fresh L1 + length ks])"
    "led_slot_refs L2 = led_slot_refs L1" "led_inits L1 \<le> 1 \<longrightarrow> led_inits L2 \<le> 1"
    using assms(2) by (auto simp: accounts_def)
  have z: "zip (map deleter (k # ks)) [led_fresh L..<led_fresh L + length (k # ks)]
      = (deleter k, led_fresh L) # zip (map deleter ks) [Suc (led_fresh L)..<Suc (led_fresh L) + length ks]"
    using upt_conv_Cons [of "led_fresh L" "led_fresh L + length (k # ks)"] by (simp del: upt_Suc)
  have some: "accounts m L (destroy k ptr L2)" "accounts ((deleter k, led_fresh L) # m) L (move_out k ptr L2)" if p
  proof -
    have L1: "L1 = L\<lparr>led_fresh := Suc (led_fresh L)\<rparr>" "ptr = Some (led_fresh L)" using assms(1) that by (simp_all add: acquire_def)
    show "accounts m L (destroy k ptr L2)" unfolding accounts_def using 2 L1 z
      by (intro conjI exI [of _ "k # ks"] exI [of _ "(deleter k, led_fresh L) # D"]) (simp_all add: destroy_def)
    show "accounts ((deleter k, led_fresh L) # m) L (move_out k ptr L2)" unfolding accounts_def using 2 L1 z
      by (intro conjI exI [of _ "k # ks"] exI [of _ D]) (simp_all add: move_out_def)
  qed
  show "accounts m L (destroy k ptr L2)"
    using none some(1) assms(1) by (cases p) (auto simp: acquire_def destroy_def)
  show "accounts (case ptr of None \<Rightarrow> m | Some i \<Rightarrow> (deleter k, i) # m) L (move_out k ptr L2)"
    using none some(2) assms(1) by (cases p) (auto simp: acquire_def move_out_def)
qed

section \<open>Rules\<close>

lemma runs_return: "yields (own_return x) x"
  by (simp add: runs_def own_return_def accounts_refl)

lemma yields_bind:
  assumes "yields m x" "yields (f x) y"
  shows "yields (own_bind m f) y"
  unfolding runs_def
proof
  fix L
  obtain L1 where 1: "m L = Some (x, L1)" "accounts [] L L1" using assms(1) by (auto simp: runs_def)
  obtain L2 where 2: "f x L1 = Some (y, L2)" "accounts [] L1 L2" using assms(2) by (auto simp: runs_def)
  show "\<exists>L'. own_bind m f L = Some (y, L') \<and> accounts [] L L'" using accounts_trans [OF 1(2) 2(2)] 1(1) 2(1) by (simp add: own_bind_def)
qed

lemma runs_transfer:
  assumes "yields body (x, moved)"
  shows "runs (own_transfer k p body) x (\<lambda>L. if p \<and> moved then [(deleter k, led_fresh L)] else [])"
  unfolding runs_def
proof
  fix L
  obtain ptr L1 where a: "acquire k p L = (ptr, L1)" by fastforce
  obtain L2 where b: "body L1 = Some ((x, moved), L2)" "accounts [] L1 L2" using assms by (auto simp: runs_def)
  have ptr: "ptr = (if p then Some (led_fresh L) else None)" using a by (simp add: acquire_def split: if_splits)
  show "\<exists>L'. own_transfer k p body L = Some (x, L') \<and> accounts (if p \<and> moved then [(deleter k, led_fresh L)] else []) L L'"
    using accounts_acquire [OF a b(2)] a b(1) ptr by (cases moved; cases p) (simp_all add: own_transfer_def)
qed

lemma yields_scope: "yields body x \<Longrightarrow> yields (own_scope k p body) x"
  using runs_transfer [of "own_bind body (\<lambda>x. own_return (x, False))" x False k p] yields_bind [OF _ runs_return, of body x "\<lambda>x. (x, False)"]
  by (simp add: own_scope_def)

lemma yields_buffer_map: "yields (body mapped) x \<Longrightarrow> yields (GstBufferMap mapped body) x"
  unfolding GstBufferMap_def by (rule yields_scope)

lemma yields_frame_map: "yields (body mapped) x \<Longrightarrow> yields (GstVideoFrameMap mapped body) x"
  unfolding GstVideoFrameMap_def by (rule yields_scope)

lemma accounts_init: "accounts [] L (L\<lparr>led_inits := 1\<rparr>)"
  unfolding accounts_def by (rule conjI, rule exI [of _ "[]"], rule exI [of _ "[]"]) simp_all

lemma yields_init: "yields ensureGStreamerInitialized ()"
  by (simp add: runs_def ensureGStreamerInitialized_def accounts_refl accounts_init del: One_nat_def)

lemma runs_after_init:
  assumes "runs f x (\<lambda>L. moved (led_fresh L))"
  shows "runs (own_bind ensureGStreamerInitialized (\<lambda>_. f)) x (\<lambda>L. moved (led_fresh L))"
  unfolding runs_def
proof
  fix L :: ledger
  let ?L = "if led_inits L = 0 then L\<lparr>led_inits := 1\<rparr> else L"
  obtain L' where "f ?L = Some (x, L')" "accounts (moved (led_fresh ?L)) ?L L'" using assms unfolding runs_def by blast
  moreover have "accounts [] L ?L" "led_fresh ?L = led_fresh L" by (simp_all add: accounts_init accounts_refl del: One_nat_def)
  ultimately show "\<exists>L'. own_bind ensureGStreamerInitialized (\<lambda>_. f) L = Some (x, L') \<and> accounts (moved (led_fresh L)) L L'"
    using accounts_trans [of "[]" L ?L] by (simp add: own_bind_def ensureGStreamerInitialized_def)
qed

section \<open>What an iterator plays\<close>

text \<open>The results an iterator gives until it is done; after a resync the caller resyncs it.\<close>

fun plays :: "'it iterator_ops \<Rightarrow> iterator_result list \<Rightarrow> 'it \<Rightarrow> bool" where
  "plays ops [] it = (fst (iter_next ops it) = IterDone)"
| "plays ops (r # rs) it =
     (fst (iter_next ops it) = r
      \<and> (case r of IterOk e \<Rightarrow> plays ops rs (snd (iter_next ops it)) | IterResync \<Rightarrow> plays ops rs (iter_resync ops (snd (iter_next ops it)))
          | _ \<Rightarrow> True))"

fun script_count :: "string \<Rightarrow> endpoint_layout \<Rightarrow> iterator_result list \<Rightarrow> endpoint_counts \<Rightarrow> endpoint_counts res" where
  "script_count context layout [] counts = Inr counts"
| "script_count context layout (IterOk e # rs) counts = res_bind (count_element context layout e counts) (script_count context layout rs)"
| "script_count context layout (IterResync # rs) counts = script_count context layout rs counts"
| "script_count context layout (IterError # rs) counts = Inl (inspect_error context)"
| "script_count context layout (IterDone # rs) counts = Inr counts"

text \<open>The loop returns for every iterator that ends, and its slot is empty whenever the iterator is asked.\<close>

lemma count_loop_script:
  assumes "plays ops rs it" "slot \<noteq> AValue True"
  shows "\<exists>slot' L'. count_loop ops context layout it slot counts L = Some ((script_count context layout rs counts, slot'), L')
    \<and> slot_destroy slot' L' = L"
  using assms
proof (induction rs arbitrary: it slot counts L)
  case Nil
  obtain it' where "iter_next ops it = (IterDone, it')" using Nil(1) by (cases "iter_next ops it") auto
  moreover have "slot_destroy slot L = L" using Nil(2) by (cases slot) (simp_all add: slot_destroy_def split: bool.split)
  ultimately show ?case by (subst count_loop.simps) simp
next
  case (Cons r rs)
  have empty: "slot_destroy slot L = L" using Cons.prems(2) by (cases slot) (simp_all add: slot_destroy_def split: bool.split)
  obtain it' where it: "iter_next ops it = (r, it')" using Cons.prems(1) by (cases "iter_next ops it") auto
  show ?case
  proof (cases r)
    case (IterOk e)
    have reset: "slot_reset (AValue True) (L\<lparr>led_slot_refs := led_slot_refs L + 1\<rparr>) = (AValue False, L)" by (simp add: slot_reset_def)
    show ?thesis
    proof (cases "count_element context layout e counts")
      case (Inl er)
      with it IterOk show ?thesis by (subst count_loop.simps) (simp add: slot_fill_def slot_destroy_def)
    next
      case (Inr c)
      have "plays ops rs it'" using Cons.prems(1) it IterOk by simp
      from Cons.IH [OF this, of "AValue False" c L] show ?thesis
        using it IterOk Inr reset by (subst count_loop.simps) (simp add: slot_fill_def)
    qed
  next
    case IterResync
    then have "plays ops rs (iter_resync ops it')" using Cons.prems(1) it by simp
    from Cons.IH [OF this Cons.prems(2), of counts L] show ?thesis using it IterResync by (subst count_loop.simps) simp
  qed (use it empty in \<open>(subst count_loop.simps, simp)+\<close>)
qed

lemma owned_count_script:
  assumes "plays ops rs it"
  shows "yields (owned_countEndpoints ops context layout it) (script_count context layout rs no_endpoints)"
  unfolding owned_countEndpoints_def
proof (rule yields_scope, unfold runs_def, rule allI)
  fix L
  obtain slot' L' where "count_loop ops context layout it NotAValue no_endpoints L = Some ((script_count context layout rs no_endpoints, slot'), L')"
    "slot_destroy slot' L' = L"
    using count_loop_script [OF assms, of NotAValue "context" layout no_endpoints L] by auto
  then show "\<exists>L'. (case count_loop ops context layout it NotAValue no_endpoints L of None \<Rightarrow> None
      | Some ((r, slot), L') \<Rightarrow> Some (r, slot_destroy slot L')) = Some (script_count context layout rs no_endpoints, L') \<and> accounts [] L L'"
    by (simp add: accounts_refl)
qed

lemma res_bind_case: "res_bind r f = (case r of Inl e \<Rightarrow> Inl e | Inr x \<Rightarrow> f x)"
  by (cases r) simp_all

lemma script_count_elements: "script_count context layout (map IterOk es) counts = countEndpoints context layout es counts"
  by (induction es arbitrary: counts) (simp_all add: res_bind_case split: sum.split)

lemma script_count_append:
  "script_count context layout (map IterOk es @ rs) counts = res_bind (countEndpoints context layout es counts) (script_count context layout rs)"
  by (induction es arbitrary: counts) (simp_all add: res_bind_case split: sum.split)

text \<open>The result of validation, given what the iterator of the parsed bin plays.\<close>

definition partial_result :: "endpoint_counts res \<Rightarrow> string \<Rightarrow> endpoint_layout \<Rightarrow> string option \<times> gst_pipeline option \<Rightarrow> unit res" where
  "partial_result counted context layout parsed =
     (case parsed of
        (Some message, Some p) \<Rightarrow> res_bind counted (\<lambda>c. if hasUserEndpoint layout c then Inl (ownership_error context) else Inr ())
      | _ \<Rightarrow> Inr ())"

definition verdict_result :: "endpoint_counts res \<Rightarrow> string \<Rightarrow> endpoint_layout \<Rightarrow> string option \<times> gst_pipeline option \<Rightarrow> unit res" where
  "verdict_result counted context layout parsed =
     (case parsed of
        (Some message, _) \<Rightarrow> Inl (Runtime_error (context @ '' has invalid GStreamer syntax: '' @ message))
      | (None, None) \<Rightarrow> Inl (Runtime_error (context @ '' has invalid GStreamer syntax: gst_parse_launch returned null''))
      | (None, Some NotABin) \<Rightarrow> Inl (Runtime_error (context @ '' must parse to a GstBin''))
      | (None, Some (Bin es)) \<Rightarrow> res_bind counted (\<lambda>c. if \<not> layout_matches layout c then Inl (ownership_error context) else Inr ()))"

lemma owned_validate_script:
  assumes parsed: "launch description = (err, pipeline)" and bin: "err = None \<or> pipeline \<noteq> Some NotABin"
    and script: "\<And>es. pipeline = Some (Bin es) \<Longrightarrow> plays ops rs (iter (Bin es))" and counted: "counted = script_count context layout rs no_endpoints"
  shows "yields (owned_validatePipeline ops iter launch context description layout)
    (res_bind (partial_result counted context layout (err, pipeline)) (\<lambda>_. verdict_result counted context layout (err, pipeline)))"
proof -
  have count: "yields (owned_countEndpoints ops context layout (iter (Bin es))) counted" if "pipeline = Some (Bin es)" for es
    unfolding counted using script that by (intro owned_count_script) simp
  have check: "yields (own_bind (owned_countEndpoints ops context layout (iter (Bin es))) (\<lambda>r. own_return (res_bind r (\<lambda>c. if P c then Inl x else Inr ()))))
      (res_bind counted (\<lambda>c. if P c then Inl x else Inr ()))" if "pipeline = Some (Bin es)" for es P x
    by (rule yields_bind [OF count [OF that] runs_return])
  have early: "yields (owned_partial ops iter context layout err pipeline) (partial_result counted context layout (err, pipeline))"
    using bin check by (cases pipeline; cases "the pipeline") (auto simp: owned_partial_def partial_result_def runs_return split: option.split)
  have verdict: "yields (owned_verdict ops iter context layout err pipeline) (verdict_result counted context layout (err, pipeline))"
    using check by (auto simp: owned_verdict_def verdict_result_def runs_return split: option.split gst_pipeline.split)
  show ?thesis
    unfolding owned_validatePipeline_def parsed prod.case Let_def
    by (intro yields_bind [OF yields_init] yields_scope yields_bind [OF early])
      (auto simp: res_bind_case runs_return verdict split: sum.split)
qed

text \<open>With an iterator that gives the elements once, this is \<open>validatePipeline\<close>.\<close>

lemma validate_results:
  assumes "launch description = (err, pipeline)" "err = None \<or> pipeline \<noteq> Some NotABin"
    "\<And>es. pipeline = Some (Bin es) \<Longrightarrow> counted = countEndpoints context layout es no_endpoints"
  shows "res_bind (partial_result counted context layout (err, pipeline)) (\<lambda>_. verdict_result counted context layout (err, pipeline))
    = validatePipeline launch context description layout"
  using assms
  by (auto simp: partial_result_def verdict_result_def validatePipeline_def split: option.split gst_pipeline.split)

lemma count_element_total:
  assumes "named (bridge_appsrc_name l) e \<longrightarrow> factory_name e = ''appsrc''" "named (bridge_appsink_name l) e \<longrightarrow> factory_name e = ''appsink''"
  obtains c' where "count_element ctx l e c = Inr c'"
proof -
  have "count_element ctx l e c \<noteq> Inl er" for er
    using assms by (auto simp: count_element_def named_def Let_def res_iffs split: if_splits)
  then show thesis using that by (cases "count_element ctx l e c") blast+
qed

lemma countEndpoints_total:
  assumes "\<And>e c. e \<in> set es \<Longrightarrow> \<exists>c'. count_element ctx l e c = Inr c'"
  shows "\<exists>d. countEndpoints ctx l es c = Inr d"
  using assms
proof (induction es arbitrary: c)
  case (Cons e es)
  obtain c' where c': "count_element ctx l e c = Inr c'" using Cons.prems [of e c] by auto
  have "\<exists>d. countEndpoints ctx l es c' = Inr d" by (rule Cons.IH) (rule Cons.prems, simp)
  with c' show ?case by simp
qed simp

section \<open>Samples and buffers\<close>

lemma owned_unpack: "yields (owned_unpackAudioFrame x) (unpackAudioFrame x)"
proof (cases "as_info x")
  case None
  then show ?thesis by (auto simp: owned_unpackAudioFrame_def unpackAudioFrame_def runs_return)
next
  case (Some i)
  then show ?thesis
    by (cases i; cases "as_map x") (auto simp: owned_unpackAudioFrame_def unpackAudioFrame_def Let_def intro!: runs_return yields_buffer_map)
qed

lemma owned_unpack_i420: "yields (owned_unpackI420Frame create x) (unpackI420Frame create x)"
proof (cases "vs_info x")
  case None
  then show ?thesis by (auto simp: owned_unpackI420Frame_def unpackI420Frame_def runs_return)
next
  case (Some i)
  then show ?thesis
    by (cases i; cases "vs_map x") (auto simp: owned_unpackI420Frame_def unpackI420Frame_def Let_def intro!: runs_return yields_frame_map)
qed

lemma owned_sample_yields:
  "yields (owned_onSample word sample is_shutdown capture) (audio_onSample word sample is_shutdown capture)"
proof (cases "beginUse word")
  case None
  then show ?thesis by (simp add: owned_onSample_def audio_onSample_def onSample_def runs_return)
next
  case begun: (Some word')
  show ?thesis
  proof (cases sample)
    case None
    with begun show ?thesis by (simp add: owned_onSample_def audio_onSample_def onSample_def runs_return yields_scope)
  next
    case (Some x)
    with begun show ?thesis
      unfolding owned_onSample_def audio_onSample_def onSample_def
      by (cases "unpackAudioFrame x") (auto intro!: yields_scope yields_bind [OF owned_unpack] simp: runs_return split: sum.split)
  qed
qed

lemma owned_prepare_runs:
  "runs (owned_audio_prepare launch description) (audio_prepare launch description)
     (\<lambda>L. if is_ok (audio_prepare launch description) then [(Gst_object_unref, led_fresh L)] else [])"
proof -
  obtain err pipeline where l: "launch description = (err, pipeline)" by fastforce
  let ?r = "audio_prepare launch description"
  have "yields (owned_audio_parsed err pipeline) (?r, is_ok ?r)"
  proof (cases "\<exists>es. pipeline = Some (Bin es)")
    case True
    then obtain es where "pipeline = Some (Bin es)" by blast
    then show ?thesis
      by (cases "get_by_name kAudioAppSinkName es")
        (auto simp: owned_audio_parsed_def audio_prepare_def launch_elements_def require_endpoint_def l runs_return Let_def intro!: yields_scope)
  next
    case False
    then show ?thesis
      by (cases pipeline; cases "the pipeline") (auto simp: owned_audio_parsed_def audio_prepare_def launch_elements_def l runs_return)
  qed
  from runs_transfer [OF yields_scope [OF this, of KError "err \<noteq> None"], of KObject "pipeline \<noteq> None"]
  have run: "runs (own_transfer KObject (pipeline \<noteq> None) (own_scope KError (err \<noteq> None) (owned_audio_parsed err pipeline))) ?r
      (\<lambda>L. if pipeline \<noteq> None \<and> is_ok ?r then [(Gst_object_unref, led_fresh L)] else [])"
    by (simp only: deleter.simps)
  have "is_ok ?r \<Longrightarrow> pipeline \<noteq> None" by (cases pipeline) (simp_all add: audio_prepare_def launch_elements_def l)
  then have "(pipeline \<noteq> None \<and> is_ok ?r) = is_ok ?r" by blast
  with runs_after_init [of _ _ "\<lambda>n. if pipeline \<noteq> None \<and> is_ok ?r then [(Gst_object_unref, n)] else []", OF run]
  show ?thesis unfolding owned_audio_prepare_def l prod.case Let_def by simp
qed

lemma owned_push_runs:
  "runs (owned_push raw allocated mapped data sec nanosec pushed)
     (res_bind (makeStampedBuffer allocated mapped data sec nanosec)
        (\<lambda>_. if pushed then Inr () else Inl (Runtime_error (''Failed to push '' @ raw @ '' ROS image into GStreamer.''))))
     (\<lambda>L. if is_ok (makeStampedBuffer allocated mapped data sec nanosec) then [(Gst_buffer_unref, led_fresh L)] else [])"
proof (cases allocated)
  case False
  from runs_transfer [OF runs_return [of "(Inl (Runtime_error ''Failed to allocate GStreamer buffer.''), False)"], of KBuffer False] False
  show ?thesis by (simp add: owned_push_def makeStampedBuffer_def)
next
  case True
  let ?map = "GstBufferMap mapped (\<lambda>valid. own_return (if \<not> valid then Inl (Runtime_error ''Failed to map GStreamer buffer.'') else Inr ()))"
  let ?made = "makeStampedBuffer True mapped data sec nanosec"
  let ?r = "res_bind ?made (\<lambda>_. if pushed then Inr () else Inl (Runtime_error (''Failed to push '' @ raw @ '' ROS image into GStreamer.'')))"
  let ?rest = "\<lambda>r :: unit res. case r of
             Inl e \<Rightarrow> own_return (Inl e, False)
           | Inr _ \<Rightarrow>
               if sint sec < 0 then own_return (Inl (Runtime_error ''cannot store a negative time point in rclcpp::Time''), False)
               else if pushed then own_return (Inr (), True)
               else own_return (Inl (Runtime_error (''Failed to push '' @ raw @ '' ROS image into GStreamer.'')), True)"
  have "yields (own_bind ?map ?rest) (?r, is_ok ?made)"
    by (rule yields_bind [OF yields_buffer_map [OF runs_return]]) (simp add: makeStampedBuffer_def runs_return)
  from runs_transfer [OF this, of KBuffer True] show ?thesis
    by (simp only: owned_push_def True not_True_eq_False if_False simp_thms deleter.simps)
qed

section \<open>Properties\<close>


text \<open>
  Starting an audio pipeline, an audio sample callback, unpacking a video sample and the push of an image compute what their pure
  models compute, and leak nothing: a prepared pipeline keeps its bin and nothing else, a buffer that was
  stamped goes to the appsrc even when the push fails, and every other pointer and mapping is released exactly
  once by the function of its kind.
\<close>

theorem media_releases_all:
  "(\<exists>L'. owned_audio_prepare launch description L = Some (audio_prepare launch description, L')
       \<and> accounts (if is_ok (audio_prepare launch description) then [(Gst_object_unref, led_fresh L)] else []) L L')
   \<and> (\<exists>L'. owned_onSample word sample is_shutdown capture L = Some (audio_onSample word sample is_shutdown capture, L') \<and> accounts [] L L')
   \<and> (\<exists>L'. owned_unpackI420Frame create video L = Some (unpackI420Frame create video, L') \<and> accounts [] L L')
   \<and> (\<exists>r L'. owned_push raw allocated mapped data sec nanosec pushed L = Some (r, L')
       \<and> (is_ok r \<longleftrightarrow> is_ok (makeStampedBuffer allocated mapped data sec nanosec) \<and> pushed)
       \<and> accounts (if is_ok (makeStampedBuffer allocated mapped data sec nanosec) then [(Gst_buffer_unref, led_fresh L)] else []) L L')"
proof (intro conjI)
  let ?made = "makeStampedBuffer allocated mapped data sec nanosec"
  let ?r = "res_bind ?made (\<lambda>_. if pushed then Inr () else Inl (Runtime_error (''Failed to push '' @ raw @ '' ROS image into GStreamer.'')))"
  have "is_ok ?r \<longleftrightarrow> is_ok ?made \<and> pushed" by (cases ?made) simp_all
  with owned_push_runs [of raw allocated mapped data sec nanosec pushed]
  show "\<exists>r L'. owned_push raw allocated mapped data sec nanosec pushed L = Some (r, L') \<and> (is_ok r \<longleftrightarrow> is_ok ?made \<and> pushed)
       \<and> accounts (if is_ok ?made then [(Gst_buffer_unref, led_fresh L)] else []) L L'"
    unfolding runs_def by blast
qed (use owned_prepare_runs owned_sample_yields owned_unpack_i420 in \<open>unfold runs_def, blast\<close>)+

text \<open>
  \<open>countEndpoints\<close> keeps its counts when the iterator asks for a resync and then counts the elements
  again: a pipeline that validates is rejected with the ownership error when its iterator resyncs after the last element.
\<close>

theorem resync_rejects_valid_source:
  assumes "validatePipeline launch context description (makeOtherSourceLayout name) = Inr ()"
    and "launch description = (None, Some (Bin es))" "plays ops (map IterOk es @ IterResync # map IterOk es) (iter (Bin es))"
  shows "\<exists>L'. owned_validatePipeline ops iter launch context description (makeOtherSourceLayout name) L = Some (Inl (ownership_error context), L')"
proof -
  let ?l = "makeOtherSourceLayout name"
  obtain c where c: "countEndpoints context ?l es no_endpoints = Inr c" "layout_matches ?l c"
    using assms(1,2) by (auto simp: validatePipeline_def res_iffs split: if_splits)
  note cnt = countEndpoints_Inr [OF c(1)]
  have "\<exists>c'. count_element context ?l e d = Inr c'" if "e \<in> set es" for e d
  proof -
    have "named (bridge_appsrc_name ?l) e \<longrightarrow> factory_name e = ''appsrc''" "named (bridge_appsink_name ?l) e \<longrightarrow> factory_name e = ''appsink''"
      using cnt that by blast+
    then show ?thesis by (rule count_element_total) blast
  qed
  then obtain c' where c': "countEndpoints context ?l es c = Inr c'" using countEndpoints_total by blast
  have "n_appsink c = 1" "n_appsink c' = n_appsink c + n_appsink c"
    using c(2) cnt countEndpoints_Inr [OF c'] by (simp_all add: layout_matches_def makeOtherSourceLayout_def no_endpoints_def)
  then have bad: "\<not> layout_matches ?l c'" by (simp add: layout_matches_def makeOtherSourceLayout_def)
  have counted: "script_count context ?l (map IterOk es @ IterResync # map IterOk es) no_endpoints = Inr c'"
    by (simp add: script_count_append c(1) script_count_elements c')
  have "yields (owned_validatePipeline ops iter launch context description ?l)
      (res_bind (partial_result (Inr c') context ?l (None, Some (Bin es))) (\<lambda>_. verdict_result (Inr c') context ?l (None, Some (Bin es))))"
    by (rule owned_validate_script, fact assms(2)) (use assms(3) counted [symmetric] in simp_all)
  then show ?thesis using bad by (simp add: runs_def partial_result_def verdict_result_def) blast
qed

section \<open>An iterator over a list\<close>

definition list_iterator :: "iterator_result list iterator_ops" where
  "list_iterator = \<lparr>iter_next = (\<lambda>rs. case rs of [] \<Rightarrow> (IterDone, []) | r # rs' \<Rightarrow> (r, rs')), iter_resync = (\<lambda>rs. rs)\<rparr>"

lemma list_iterator_plays: "plays list_iterator rs rs"
  by (induction rs) (simp_all add: list_iterator_def split: iterator_result.split)

definition bin_elements :: "gst_pipeline \<Rightarrow> gst_element list" where
  "bin_elements p = (case p of Bin es \<Rightarrow> es | NotABin \<Rightarrow> [])"


theorem resync_rejects_valid_source_witness:
  "\<exists>L'. owned_validatePipeline list_iterator (\<lambda>p. map IterOk (bin_elements p) @ IterResync # map IterOk (bin_elements p)) mic_launch ''c'' ''d''
     (makeOtherSourceLayout kAudioAppSinkName) ledger_init = Some (Inl (ownership_error ''c''), L')"
proof -
  obtain es where es: "mic_launch ''d'' = (None, Some (Bin es))" by (simp add: mic_launch_def)
  show ?thesis by (rule resync_rejects_valid_source [OF mic_valid es]) (simp add: bin_elements_def list_iterator_plays)
qed

end
