(* ===== verification/Media_Path.thy ===== *)
theory Media_Path
  imports Media_Streams Track_Publishers
begin

text \<open>
  What the audio and the video path share: the stages of the publishers' \<open>close\<close>
  (src/src/audio/track_publisher.cpp, src/src/video/track_publisher.cpp), and the contract under
  which closing runs to its end.
\<close>

text \<open>Where \<open>close\<close> of the publisher stands.\<close>

datatype close_pc = Open | Taken | StreamAsked | StreamStopped | PathClosed

text \<open>
  A path whose close takes the publisher, asks the stream to close, stops its pipeline once the failure
  worker is done, and unpublishes. The worker can always finish.
\<close>

locale closing_path =
  fixes step :: "'s \<Rightarrow> 's \<Rightarrow> bool"
    and good :: "'s \<Rightarrow> bool"
    and pc :: "'s \<Rightarrow> close_pc"
    and take_pub ask_stream stop_stream unpublish_track :: "'s \<Rightarrow> 's"
    and worker_done :: "'s \<Rightarrow> bool"
  assumes good_step: "step s t \<Longrightarrow> good s \<Longrightarrow> good t"
    and takes: "good s \<Longrightarrow> pc s = Open \<Longrightarrow> step s (take_pub s) \<and> pc (take_pub s) = Taken"
    and asks: "good s \<Longrightarrow> pc s = Taken \<Longrightarrow> step s (ask_stream s) \<and> pc (ask_stream s) = StreamAsked"
    and worker_ends: "good s \<Longrightarrow> pc s = StreamAsked \<Longrightarrow> \<exists>t. step\<^sup>*\<^sup>* s t \<and> pc t = StreamAsked \<and> worker_done t"
    and stops: "good s \<Longrightarrow> pc s = StreamAsked \<Longrightarrow> worker_done s \<Longrightarrow> step s (stop_stream s) \<and> pc (stop_stream s) = StreamStopped"
    and unpublishes: "good s \<Longrightarrow> pc s = StreamStopped \<Longrightarrow> step s (unpublish_track s) \<and> pc (unpublish_track s) = PathClosed"
begin

lemma good_run: "step\<^sup>*\<^sup>* s t \<Longrightarrow> good s \<Longrightarrow> good t"
  by (induction rule: rtranclp_induct) (auto intro: good_step)

lemma stopped_completes: "good s \<Longrightarrow> pc s = StreamStopped \<Longrightarrow> \<exists>t. step\<^sup>*\<^sup>* s t \<and> pc t = PathClosed"
  using unpublishes by blast

lemma asked_completes: "good s \<Longrightarrow> pc s = StreamAsked \<Longrightarrow> \<exists>t. step\<^sup>*\<^sup>* s t \<and> pc t = PathClosed"
proof -
  assume s: "good s" "pc s = StreamAsked"
  then obtain t where t: "step\<^sup>*\<^sup>* s t" "pc t = StreamAsked" "worker_done t" using worker_ends by blast
  have g: "good t" by (rule good_run [OF t(1) s(1)])
  note st = stops [OF g t(2,3)]
  then obtain u where "step\<^sup>*\<^sup>* (stop_stream t) u" "pc u = PathClosed" using stopped_completes good_step g by blast
  with t(1) st show ?thesis by (meson converse_rtranclp_into_rtranclp rtranclp_trans)
qed

lemma taken_completes: "good s \<Longrightarrow> pc s = Taken \<Longrightarrow> \<exists>t. step\<^sup>*\<^sup>* s t \<and> pc t = PathClosed"
  by (meson asks asked_completes converse_rtranclp_into_rtranclp good_step)

lemma completes: "good s \<Longrightarrow> \<exists>t. step\<^sup>*\<^sup>* s t \<and> pc t = PathClosed"
proof (cases "pc s")
  case Open
  then show "good s \<Longrightarrow> ?thesis" by (meson takes taken_completes converse_rtranclp_into_rtranclp good_step)
qed (blast intro: taken_completes asked_completes stopped_completes)+

end

text \<open>Reports change nothing but the log.\<close>

lemma reports_keep:
  "mp_closed (fold (report_failure ev) es p) = mp_closed p" "mp_closing (fold (report_failure ev) es p) = mp_closing p"
  "mp_track (fold (report_failure ev) es p) = mp_track p" "mp_sizes (fold (report_failure ev) es p) = mp_sizes p"
  "mp_frames (fold (report_failure ev) es p) = mp_frames p"
  by (induction es arbitrary: p) (simp_all add: report_failure_def mp_log_def)

text \<open>What one turn and the end of a callback do to the worker of a closed handler.\<close>

lemma closed_worker_turn:
  "fh_closed h \<Longrightarrow> fh_worker h \<noteq> WorkerRunning \<Longrightarrow> close_may_return (worker_turn now h)"
  by (auto simp: close_may_return_def worker_turn_def split: worker_pc.splits)

lemma closed_worker_end: "fh_closed h \<Longrightarrow> fh_closed (end_callback h) \<and> fh_worker (end_callback h) \<noteq> WorkerRunning"
  by (simp add: end_callback_def)

lemma handler_closed_keeps:
  "fh_closed (worker_turn now h) = fh_closed h" "fh_closed (end_callback h) = fh_closed h"
  "fh_closed (snd (schedule_failure h)) = fh_closed h" "fh_closed (cancelPending h) = fh_closed h"
  by (auto simp: fh_defs split: worker_pc.splits)

lemma fh_inv_ops:
  assumes "fh_inv h"
  shows "fh_inv (worker_turn now h)" "fh_inv (end_callback h)" "fh_inv (snd (schedule_failure h))" "fh_inv (close_handler h)"
    "fh_inv (cancelPending h)"
  using assms fhstep.intros fh_inv_step by blast+

end
