(* ===== verification/Audio_Path.thy ===== *)
theory Audio_Path
  imports Media_Path Pipeline_Session
begin

text \<open>
  The way of an audio sample from GStreamer to the room: \<open>TrackPublisher::create\<close>,
  \<open>makePipelineCallbacks\<close> and \<open>close\<close> of src/src/audio/track_publisher.cpp, which tie the publisher, the
  stream (audio/gstreamer_stream.cpp) and its pipeline together. The parts are those of
  \<open>Track_Publishers\<close>, \<open>Media_Streams\<close> and \<open>Media_Pipeline\<close>. A raw callback is one step here; how raw
  callbacks interleave with a stop is in \<open>Pipeline_Session\<close>.
\<close>

section \<open>Model\<close>

record audio_path =
  ap_pub :: media_publisher
  ap_stream :: gst_stream
  ap_close :: close_pc

text \<open>\<open>create\<close>: when the stream does not start, the exception passes and nothing is left.\<close>

definition audio_create :: "gst_env \<Rightarrow> string \<Rightarrow> string \<Rightarrow> time \<Rightarrow> string \<Rightarrow> string \<Rightarrow> audio_path res" where
  "audio_create env key name retry source transform =
     (case audio_stream_start env (gst_stream_init source transform) of
        (Inl e, st) \<Rightarrow> Inl e
      | (Inr _, st) \<Rightarrow> Inr \<lparr>ap_pub = publisher_init key name retry, ap_stream = st, ap_close = Open\<rparr>)"

text \<open>
  What LiveKit answers during one callback: the time, the result of a publication, should one be
  tried, and of capturing the frame.
\<close>

record room_answers =
  ra_now :: time
  ra_publication :: "nat res"
  ra_captured :: "unit res"

definition frame_format :: "audio_frame \<Rightarrow> media_format" where
  "frame_format f = (af_rate f, af_channels f)"

definition path_capture :: "room_answers \<Rightarrow> audio_frame \<Rightarrow> media_publisher \<Rightarrow> unit res \<times> media_publisher" where
  "path_capture ra f = audio_capture (ra_now ra) (ra_publication ra) (ra_captured ra) (frame_format f)"

text \<open>\<open>makePipelineCallbacks\<close>: which operation each callback of the pipeline is.\<close>

fun pipeline_callback :: "room_answers \<Rightarrow> audio_frame media_call \<Rightarrow> audio_path \<Rightarrow> audio_path" where
  "pipeline_callback ra (OnFrame f t) s = s\<lparr>ap_pub := snd (path_capture ra f (ap_pub s))\<rparr>"
| "pipeline_callback ra (OnUnpackFailed e) s = s\<lparr>ap_pub := report_failure ''audio_stream_sample_unpack_failed'' e (ap_pub s)\<rparr>"
| "pipeline_callback ra (OnCaptureFailed e) s = s\<lparr>ap_pub := report_failure ''audio_stream_capture_failed'' e (ap_pub s)\<rparr>"
| "pipeline_callback ra (OnFailed why) s = s\<lparr>ap_stream := audio_onPipelineFailure why (ap_stream s)\<rparr>"

definition path_word :: "audio_path \<Rightarrow> 64 word" where
  "path_word s = pl_word (gs_pipeline (ap_stream s))"

definition path_sample :: "room_answers \<Rightarrow> audio_sample option \<Rightarrow> audio_path \<Rightarrow> flow \<times> audio_path" where
  "path_sample ra sample s =
     (let (result, calls, w) = audio_onSample (path_word s) sample (gs_shutdown (ap_stream s)) (\<lambda>f. fst (path_capture ra f (ap_pub s)))
      in (result, fold (pipeline_callback ra) calls s))"

definition path_bus :: "room_answers \<Rightarrow> bus_message \<Rightarrow> audio_path \<Rightarrow> audio_path" where
  "path_bus ra message s = fold (pipeline_callback ra) (fst (onBusMessage (path_word s) message)) s"

text \<open>The failure handler's callback; a failed restart is reported to the publisher.\<close>

definition path_restart :: "gst_env \<Rightarrow> audio_path \<Rightarrow> audio_path" where
  "path_restart env s =
     (let st = audio_restartPipelineAfterFailure env (ap_stream s);
          failed = drop (length (restart_failures (ap_stream s))) (restart_failures st)
      in s\<lparr>ap_stream := on_handler end_callback st,
           ap_pub := fold (report_failure ''audio_stream_restart_failed'') failed (ap_pub s)\<rparr>)"

text \<open>The stages of \<open>close\<close>: a second call returns at once.\<close>

definition path_close_take :: "audio_path \<Rightarrow> audio_path" where
  "path_close_take s = (if mp_closed (ap_pub s) then s else s\<lparr>ap_pub := close_take (ap_pub s), ap_close := Taken\<rparr>)"

definition path_close_ask :: "audio_path \<Rightarrow> audio_path" where
  "path_close_ask s = s\<lparr>ap_stream := stream_close_request (ap_stream s), ap_close := StreamAsked\<rparr>"

definition path_close_stop :: "audio_path \<Rightarrow> audio_path" where
  "path_close_stop s = s\<lparr>ap_stream := stream_close_finish (ap_stream s), ap_close := StreamStopped\<rparr>"

definition path_close_unpublish :: "audio_path \<Rightarrow> audio_path" where
  "path_close_unpublish s = s\<lparr>ap_pub := close_unpublish (ap_pub s), ap_close := PathClosed\<rparr>"

text \<open>Raw callbacks come from an active pipeline only.\<close>

inductive apathstep :: "audio_path \<Rightarrow> audio_path \<Rightarrow> bool" where
  Sample: "isActive (gs_pipeline (ap_stream s)) \<Longrightarrow> fresh_track (ra_publication ra) (ap_pub s) \<Longrightarrow>
    apathstep s (snd (path_sample ra sample s))"
| Bus: "isActive (gs_pipeline (ap_stream s)) \<Longrightarrow> apathstep s (path_bus ra message s)"
| Worker: "apathstep s (s\<lparr>ap_stream := on_handler (worker_turn now) (ap_stream s)\<rparr>)"
| Restart: "callback_running (gs_handler (ap_stream s)) \<Longrightarrow> apathstep s (path_restart env s)"
| Close_take: "apathstep s (path_close_take s)"
| Close_ask: "ap_close s = Taken \<Longrightarrow> apathstep s (path_close_ask s)"
| Close_stop: "ap_close s = StreamAsked \<Longrightarrow> close_may_return (gs_handler (ap_stream s)) \<Longrightarrow> apathstep s (path_close_stop s)"
| Close_unpublish: "ap_close s = StreamStopped \<Longrightarrow> apathstep s (path_close_unpublish s)"

inductive_cases apathstepE: "apathstep s s'"

section \<open>Callbacks\<close>

text \<open>Capturing audio never throws: the pipeline is never told about a failure of the room.\<close>

lemma audio_capture_ok: "fst (audio_capture now publication captured fmt s) = Inr ()"
  by (auto simp: audio_capture_def capture_frame_def Let_def split: prod.split sum.split bool.split)

lemma path_sample_calls:
  "path_sample ra sample s =
     (if beginUse (path_word s) = None then (FlowFlushing, s)
      else case sample of
        None \<Rightarrow> (FlowEos, s)
      | Some x \<Rightarrow>
          (case unpackAudioFrame x of
             Inl e \<Rightarrow> (FlowError, s\<lparr>ap_pub := report_failure ''audio_stream_sample_unpack_failed'' (what e) (ap_pub s)\<rparr>)
           | Inr f \<Rightarrow> if gs_shutdown (ap_stream s) then (FlowFlushing, s)
                      else (FlowOk, s\<lparr>ap_pub := snd (path_capture ra f (ap_pub s))\<rparr>)))"
  by (auto simp: path_sample_def audio_onSample_def onSample_def path_capture_def audio_capture_ok split: option.split sum.split)

lemma path_bus_calls:
  "path_bus ra message s = s \<or> (\<exists>why. path_bus ra message s = s\<lparr>ap_stream := audio_onPipelineFailure why (ap_stream s)\<rparr>)"
  by (cases message) (auto simp: path_bus_def onBusMessage_def split: option.split)

section \<open>The parts of the path\<close>

definition path_inv :: "audio_path \<Rightarrow> bool" where
  "path_inv s \<longleftrightarrow> (isActive (gs_pipeline (ap_stream s)) \<longrightarrow> path_word s = 0)
     \<and> (mp_closed (ap_pub s) \<longleftrightarrow> ap_close s \<noteq> Open)
     \<and> (gs_shutdown (ap_stream s) \<longleftrightarrow> ap_close s \<in> {StreamAsked, StreamStopped, PathClosed})
     \<and> (gs_shutdown (ap_stream s) \<longrightarrow> fh_closed (gs_handler (ap_stream s)))
     \<and> (ap_close s \<in> {StreamStopped, PathClosed} \<longrightarrow> \<not> isActive (gs_pipeline (ap_stream s)))
     \<and> fh_inv (gs_handler (ap_stream s))
     \<and> (ap_close s = PathClosed \<longrightarrow> mp_closing (ap_pub s) = None)"

lemma audio_start_word: "audio_pipeline_start launch playing d p = (r, p') \<Longrightarrow> isActive p' \<Longrightarrow> pl_word p' = 0"
  by (auto simp: audio_pipeline_start_def play_def resumeCallbacks_def Let_def isActive_def stopped_inactive split: sum.splits if_splits)

lemma failure_keeps:
  "gs_pipeline (audio_onPipelineFailure why st) = gs_pipeline st" "gs_shutdown (audio_onPipelineFailure why st) = gs_shutdown st"
  "fh_closed (gs_handler (audio_onPipelineFailure why st)) = fh_closed (gs_handler st)"
  "fh_inv (gs_handler st) \<Longrightarrow> fh_inv (gs_handler (audio_onPipelineFailure why st))"
  using fh_inv_step [OF fhstep.Schedule, of "gs_handler st"]
  by (auto simp: audio_onPipelineFailure_def schedule_failure_def)

lemma failures_keep:
  "gs_pipeline (fold audio_onPipelineFailure whys st) = gs_pipeline st" "gs_shutdown (fold audio_onPipelineFailure whys st) = gs_shutdown st"
  "fh_closed (gs_handler (fold audio_onPipelineFailure whys st)) = fh_closed (gs_handler st)"
  "fh_inv (gs_handler st) \<Longrightarrow> fh_inv (gs_handler (fold audio_onPipelineFailure whys st))"
  by (induction whys arbitrary: st) (simp_all add: failure_keeps)

lemma capture_keeps:
  "mp_closed (snd (path_capture ra f p)) = mp_closed p" "mp_closing (snd (path_capture ra f p)) = mp_closing p"
  by (auto simp: path_capture_def audio_capture_def audio_publish_def capture_frame_def logTransientFailure_def mp_log_def Let_def
      split: prod.split sum.split bool.split option.split)

text \<open>A restart, as the stream sees it.\<close>

lemma restart_keeps:
  assumes "callback_running (gs_handler st)" "isActive (gs_pipeline st) \<longrightarrow> pl_word (gs_pipeline st) = 0"
  shows "gs_shutdown (audio_restartPipelineAfterFailure env st) = gs_shutdown st"
    "gs_handler (audio_restartPipelineAfterFailure env st) = gs_handler st"
    "isActive (gs_pipeline (audio_restartPipelineAfterFailure env st)) \<longrightarrow> pl_word (gs_pipeline (audio_restartPipelineAfterFailure env st)) = 0"
    "gs_shutdown st \<longrightarrow> audio_restartPipelineAfterFailure env st = st"
proof -
  show "gs_shutdown (audio_restartPipelineAfterFailure env st) = gs_shutdown st"
    "gs_handler (audio_restartPipelineAfterFailure env st) = gs_handler st"
    "isActive (gs_pipeline (audio_restartPipelineAfterFailure env st)) \<longrightarrow> pl_word (gs_pipeline (audio_restartPipelineAfterFailure env st)) = 0"
    using assms audio_start_word
    by (cases "gs_shutdown st"; auto simp: audio_restartPipelineAfterFailure_def intro: audio_restart_outcome [OF assms(1), of env])+
qed (simp add: audio_restartPipelineAfterFailure_def)

lemma path_inv_create: "audio_create env key name retry source transform = Inr s \<Longrightarrow> path_inv s"
proof -
  assume c: "audio_create env key name retry source transform = Inr s"
  obtain r p where start: "audio_pipeline_start (ge_launch env) (ge_playing env) (audio_buildPipelineDescription source transform) pipeline_init = (r, p)"
    by fastforce
  have p: "isActive p \<longrightarrow> pl_word p = 0" using audio_start_word [OF start] by blast
  let ?st = "\<lambda>whys. fold audio_onPipelineFailure whys (gst_stream_init source transform\<lparr>gs_pipeline := p\<rparr>)"
  let ?whys = "if is_ok (audio_prepare (ge_launch env) (audio_buildPipelineDescription source transform)) then ge_sync_failures env else []"
  have s: "s = \<lparr>ap_pub = publisher_init key name retry, ap_stream = ?st ?whys, ap_close = Open\<rparr>"
    using c start by (auto simp: audio_create_def audio_stream_start_def audio_startPipelineLocked_def gst_stream_init_def Let_def split: sum.splits if_splits)
  show ?thesis unfolding s
    by (simp add: path_inv_def path_word_def failures_keep publisher_init_def gst_stream_init_def p fh_inv_init)
qed

lemma path_inv_step: "apathstep s s' \<Longrightarrow> path_inv s \<Longrightarrow> path_inv s'"
proof (induction rule: apathstep.induct)
  case (Sample s ra sample)
  then show ?case
    by (auto simp: path_sample_calls path_inv_def path_word_def capture_keeps report_failure_def mp_log_def split: option.split sum.split)
next
  case (Bus s ra message)
  then show ?case using path_bus_calls [of ra message s] by (auto simp: path_inv_def path_word_def failure_keeps)
next
  case (Worker s now)
  then show ?case using fh_inv_step [OF fhstep.Turn, of "gs_handler (ap_stream s)" now]
    by (auto simp: path_inv_def path_word_def on_handler_def worker_turn_def begin_callback_def split: worker_pc.splits)
next
  case (Restart s env)
  then have "isActive (gs_pipeline (ap_stream s)) \<longrightarrow> pl_word (gs_pipeline (ap_stream s)) = 0" by (simp add: path_inv_def path_word_def)
  note k = restart_keeps [OF Restart(1) this, of env]
  have "fh_closed (end_callback h) = fh_closed h" for h by (simp add: end_callback_def)
  then show ?case using Restart(2) k fh_inv_step [OF fhstep.End_callback, of "gs_handler (ap_stream s)"]
    by (cases "gs_shutdown (ap_stream s)") (auto simp: path_inv_def path_word_def path_restart_def on_handler_def reports_keep Let_def)
next
  case (Close_ask s)
  then show ?case using fh_inv_step [OF fhstep.Close, of "gs_handler (ap_stream s)"]
    by (auto simp: path_inv_def path_word_def path_close_ask_def stream_close_request_def close_handler_def)
qed (auto simp: path_inv_def path_word_def path_close_take_def path_close_stop_def path_close_unpublish_def close_take_def
    close_unpublish_def tryUnpublish_def stream_close_finish_def isActive_def stopped_inactive split: option.split)

abbreviation path_reachable :: "gst_env \<Rightarrow> string \<Rightarrow> string \<Rightarrow> time \<Rightarrow> string \<Rightarrow> string \<Rightarrow> audio_path \<Rightarrow> bool" where
  "path_reachable env key name retry source transform s \<equiv>
     (\<exists>s0. audio_create env key name retry source transform = Inr s0 \<and> apathstep\<^sup>*\<^sup>* s0 s)"

lemma path_reachable_inv: "apathstep\<^sup>*\<^sup>* s0 s \<Longrightarrow> path_inv s0 \<Longrightarrow> path_inv s"
  by (induction rule: rtranclp_induct) (auto intro: path_inv_step)

section \<open>Refinement\<close>

lemma reports_apstep: "apstep\<^sup>*\<^sup>* p (fold (report_failure ev) es p)"
  by (induction es arbitrary: p) (auto intro: converse_rtranclp_into_rtranclp apstep.Audio_report)

text \<open>A step of the path is a sequence of steps of each part.\<close>

lemma path_step_pub: "apathstep s s' \<Longrightarrow> apstep\<^sup>*\<^sup>* (ap_pub s) (ap_pub s')"
proof (induction rule: apathstep.induct)
  case (Sample s ra sample)
  then show ?case
    by (auto simp: path_sample_calls path_capture_def split: option.split sum.split intro: r_into_rtranclp apstep.intros)
next
  case (Bus s ra message)
  then show ?case using path_bus_calls [of ra message s] by auto
next
  case (Restart s env)
  then show ?case by (simp add: path_restart_def Let_def reports_apstep)
qed (auto simp: path_close_take_def path_close_ask_def path_close_stop_def path_close_unpublish_def intro: r_into_rtranclp apstep.intros)

lemma path_step_stream: "apathstep s s' \<Longrightarrow> path_inv s \<Longrightarrow> gsstep\<^sup>*\<^sup>* (ap_stream s) (ap_stream s')"
proof (induction rule: apathstep.induct)
  case (Sample s ra sample)
  then show ?case by (simp add: path_sample_calls split: option.split sum.split)
next
  case (Bus s ra message)
  then have "gsstep (ap_stream s) (audio_onPipelineFailure why (ap_stream s))" for why by (intro gsstep.Audio_failure)
  then show ?case using path_bus_calls [of ra message s] by auto
next
  case (Restart s env)
  then show ?case by (auto simp: path_restart_def Let_def intro: r_into_rtranclp gsstep.Audio_restart)
next
  case (Close_stop s)
  then have "gs_shutdown (ap_stream s)" by (simp add: path_inv_def)
  with Close_stop show ?case by (auto simp: path_close_stop_def intro: r_into_rtranclp gsstep.Close_finish)
qed (auto simp: path_close_take_def path_close_ask_def path_close_unpublish_def intro: r_into_rtranclp gsstep.Handler_turn gsstep.Close_request)

lemma path_runs:
  assumes "apathstep\<^sup>*\<^sup>* s0 s" "path_inv s0"
  shows "apstep\<^sup>*\<^sup>* (ap_pub s0) (ap_pub s) \<and> gsstep\<^sup>*\<^sup>* (ap_stream s0) (ap_stream s)"
  using assms(1)
proof (induction rule: rtranclp_induct)
  case (step y z)
  have "path_inv y" by (rule path_reachable_inv [OF step(1) assms(2)])
  then show ?case using step path_step_pub [OF step(2)] path_step_stream [OF step(2)] by (auto intro: rtranclp_trans)
qed simp

section \<open>Closing\<close>

lemma worker_finishes:
  assumes "path_inv s" "ap_close s = StreamAsked"
  shows "\<exists>t. apathstep\<^sup>*\<^sup>* s t \<and> ap_close t = StreamAsked \<and> close_may_return (gs_handler (ap_stream t))"
proof -
  have idle: "\<exists>t. apathstep\<^sup>*\<^sup>* s t \<and> ap_close t = StreamAsked \<and> close_may_return (gs_handler (ap_stream t))"
    if "fh_closed (gs_handler (ap_stream s))" "ap_close s = StreamAsked" "fh_worker (gs_handler (ap_stream s)) \<noteq> WorkerRunning" for s
    using Worker [of s 0] closed_worker_turn [OF that(1,3), of 0] that(2)
    by (intro exI [of _ "s\<lparr>ap_stream := on_handler (worker_turn 0) (ap_stream s)\<rparr>"]) (auto simp: on_handler_def)
  have closed: "fh_closed (gs_handler (ap_stream s))" "fh_inv (gs_handler (ap_stream s))" "gs_shutdown (ap_stream s)"
    using assms by (simp_all add: path_inv_def)
  show ?thesis
  proof (cases "fh_worker (gs_handler (ap_stream s)) = WorkerRunning")
    case True
    let ?t = "path_restart undefined s"
    have run: "callback_running (gs_handler (ap_stream s))" using closed(2) True by (simp add: fh_inv_def)
    have "ap_close ?t = StreamAsked" "fh_closed (gs_handler (ap_stream ?t))" "fh_worker (gs_handler (ap_stream ?t)) \<noteq> WorkerRunning"
      using assms(2) closed closed_worker_end [OF closed(1)]
      by (simp_all add: path_restart_def audio_restartPipelineAfterFailure_def on_handler_def Let_def)
    then obtain t where "apathstep\<^sup>*\<^sup>* ?t t" "ap_close t = StreamAsked" "close_may_return (gs_handler (ap_stream t))" using idle by blast
    with Restart [OF run, of undefined] show ?thesis by (blast intro: converse_rtranclp_into_rtranclp)
  qed (use idle closed assms(2) in blast)
qed

lemma close_pcs: "ap_close (path_close_ask s) = StreamAsked" "ap_close (path_close_stop s) = StreamStopped"
  "ap_close (path_close_unpublish s) = PathClosed"
  by (simp_all add: path_close_ask_def path_close_stop_def path_close_unpublish_def)

interpretation acl: closing_path apathstep path_inv ap_close path_close_take path_close_ask path_close_stop path_close_unpublish
  "\<lambda>s. close_may_return (gs_handler (ap_stream s))"
proof
  fix s assume "path_inv s"
  then show "ap_close s = Open \<Longrightarrow> apathstep s (path_close_take s) \<and> ap_close (path_close_take s) = Taken"
    using Close_take [of s] by (simp add: path_inv_def path_close_take_def)
qed (auto simp: close_pcs intro: path_inv_step worker_finishes Close_ask Close_stop Close_unpublish)

lemma closed_step: "apathstep s t \<Longrightarrow> path_inv s \<Longrightarrow> ap_close s = PathClosed \<Longrightarrow> ap_close t = PathClosed"
  by (erule apathstepE) (auto simp: path_inv_def path_restart_def path_close_take_def Let_def)

text \<open>A closed path: nothing is active, and what was published and sent stays what it is.\<close>

definition path_down :: "(nat, media_format) alist \<times> (nat \<times> media_format) list \<Rightarrow> audio_path \<Rightarrow> bool" where
  "path_down x s \<longleftrightarrow> path_inv s \<and> ap_close s = PathClosed \<and> publisher_down x (ap_pub s)"

interpretation pd: terminal_shutdown apathstep "path_down x" for x
proof
  fix s t assume st: "apathstep s t" "path_down x s"
  have "ap_close t = PathClosed" using st by (auto simp: path_down_def intro: closed_step)
  moreover have "publisher_down x (ap_pub t)" using ad.down_forever [OF path_step_pub [OF st(1)]] st(2) by (simp add: path_down_def)
  ultimately show "path_down x t" using path_inv_step [OF st(1)] st(2) by (simp add: path_down_def)
qed

lemma audio_path_refines_pub:
  assumes "audio_create env key name retry source transform = Inr s0" "apathstep\<^sup>*\<^sup>* s0 s"
  shows "apstep\<^sup>*\<^sup>* (publisher_init key name retry) (ap_pub s)"
proof -
  have "ap_pub s0 = publisher_init key name retry" using assms(1) by (auto simp: audio_create_def split: prod.splits sum.splits)
  with path_runs [OF assms(2) path_inv_create [OF assms(1)]] show ?thesis by simp
qed

section \<open>Properties\<close>

text \<open>
  In every interleaving the publisher and the stream of an audio path do only what they can do on
  their own, so that what holds of every run of either holds inside the path.
\<close>

theorem audio_path_refines:
  assumes "audio_create env key name retry source transform = Inr s0" "apathstep\<^sup>*\<^sup>* s0 s"
  shows "apstep\<^sup>*\<^sup>* (publisher_init key name retry) (ap_pub s)
    \<and> gsstep\<^sup>*\<^sup>* (snd (audio_stream_start env (gst_stream_init source transform))) (ap_stream s)"
proof -
  have "ap_pub s0 = publisher_init key name retry" "ap_stream s0 = snd (audio_stream_start env (gst_stream_init source transform))"
    using assms(1) by (auto simp: audio_create_def split: prod.splits sum.splits)
  with path_runs [OF assms(2) path_inv_create [OF assms(1)]] show ?thesis by simp
qed

text \<open>
  A well-formed sample of an open audio path is answered with OK and leaves the stream and its
  pipeline alone whatever the room answers; and when a track is held, or can be published because no
  attempt is being waited for, the frame goes to that track with the sample's rate and channels.
\<close>

theorem audio_sample_reaches_room:
  assumes "audio_create env key name retry source transform = Inr s0" "apathstep\<^sup>*\<^sup>* s0 s"
    and "ap_close s = Open" "isActive (gs_pipeline (ap_stream s))" "unpackAudioFrame x = Inr f"
  shows "fst (path_sample ra (Some x) s) = FlowOk \<and> ap_stream (snd (path_sample ra (Some x) s)) = ap_stream s
    \<and> (ra_captured ra = Inr () \<and> (mp_track (ap_pub s) = Some t
            \<or> mp_track (ap_pub s) = None \<and> next_publish_attempt (ap_pub s) \<le> ra_now ra \<and> ra_publication ra = Inr t)
        \<longrightarrow> mp_frames (ap_pub (snd (path_sample ra (Some x) s))) = (t, af_rate f, af_channels f) # mp_frames (ap_pub s))"
proof -
  have inv: "path_inv s" by (rule path_reachable_inv [OF assms(2) path_inv_create [OF assms(1)]])
  have pub: "publisher_inv (ap_pub s)" using aud.reachable_good audio_path_refines_pub [OF assms(1,2)] by blast
  have w: "path_word s = 0" "\<not> gs_shutdown (ap_stream s)" "\<not> mp_closed (ap_pub s)" using inv assms(3,4) by (simp_all add: path_inv_def)
  have b: "beginUse (path_word s) \<noteq> None" by (simp add: w(1) beginUse_def)
  then have r: "path_sample ra (Some x) s = (FlowOk, s\<lparr>ap_pub := snd (path_capture ra f (ap_pub s))\<rparr>)"
    using w(2) assms(5) by (simp add: path_sample_calls)
  have "mp_frames (snd (path_capture ra f (ap_pub s))) = (t, frame_format f) # mp_frames (ap_pub s)"
    if "ra_captured ra = Inr ()" "mp_track (ap_pub s) = Some t
      \<or> mp_track (ap_pub s) = None \<and> next_publish_attempt (ap_pub s) \<le> ra_now ra \<and> ra_publication ra = Inr t"
    using that w(3) pub
    by (auto simp: path_capture_def audio_capture_def audio_publish_def capture_frame_def mp_log_def Let_def publisher_inv_def split: sum.splits)
  then show ?thesis by (simp add: r frame_format_def)
qed

text \<open>
  From every state of an audio path closing can run to its end, the restart in progress included;
  then no pipeline is active, every track it ever published was unpublished exactly once, and no
  later step publishes a track or sends a frame.
\<close>

theorem audio_close_ends:
  assumes "audio_create env key name retry source transform = Inr s0" "apathstep\<^sup>*\<^sup>* s0 s"
  shows "(\<exists>t. apathstep\<^sup>*\<^sup>* s t \<and> ap_close t = PathClosed)
    \<and> (ap_close s = PathClosed \<longrightarrow> \<not> isActive (gs_pipeline (ap_stream s)) \<and> gone_tracks (ap_pub s) = known_tracks (ap_pub s)
        \<and> (\<forall>t. apathstep\<^sup>*\<^sup>* s t \<longrightarrow> known_tracks (ap_pub t) = known_tracks (ap_pub s) \<and> mp_frames (ap_pub t) = mp_frames (ap_pub s)))"
proof -
  have inv: "path_inv s" by (rule path_reachable_inv [OF assms(2) path_inv_create [OF assms(1)]])
  have run: "apstep\<^sup>*\<^sup>* (publisher_init key name retry) (ap_pub s)" by (rule audio_path_refines_pub [OF assms])
  have pub: "publisher_inv (ap_pub s)" by (rule aud.reachable_good [OF run])
  have down: "path_down (mp_sizes (ap_pub s), mp_frames (ap_pub s)) s" if "ap_close s = PathClosed"
    using inv pub that unfolding path_down_def publisher_down_def by (simp add: path_inv_def publisher_inv_def)
  have "known_tracks (ap_pub t) = known_tracks (ap_pub s) \<and> mp_frames (ap_pub t) = mp_frames (ap_pub s)"
    if "ap_close s = PathClosed" "apathstep\<^sup>*\<^sup>* s t" for t
    using pd.down_forever [OF that(2) down [OF that(1)]] by (simp add: path_down_def publisher_down_def known_tracks_def)
  moreover have "gone_tracks (ap_pub s) = known_tracks (ap_pub s)" if "ap_close s = PathClosed"
    using aud.conserved [OF run] down [OF that] by (simp add: path_down_def publisher_down_def live_tracks_def)
  moreover have "\<not> isActive (gs_pipeline (ap_stream s))" if "ap_close s = PathClosed" using inv that by (simp add: path_inv_def)
  ultimately show ?thesis using acl.completes [OF inv] by blast
qed

section \<open>A microphone\<close>

definition mic_path :: audio_path where
  "mic_path = (case audio_create (mic_env True []) ''key'' ''mic'' 250 ''src'' ''conv'' of
     Inr s \<Rightarrow> s | Inl e \<Rightarrow> \<lparr>ap_pub = publisher_init [] [] 0, ap_stream = gst_stream_init [] [], ap_close = PathClosed\<rparr>)"

definition mic_sample :: audio_sample where
  "mic_sample = \<lparr>as_complete = True, as_info = Some (True, 48000, 1), as_map = Some [1, 2, 3, 4]\<rparr>"

definition mic_answers :: room_answers where
  "mic_answers = \<lparr>ra_now = 5, ra_publication = Inr 7, ra_captured = Inr ()\<rparr>"

lemma mic_path_created: "audio_create (mic_env True []) ''key'' ''mic'' 250 ''src'' ''conv'' = Inr mic_path"
proof -
  have "is_ok (audio_create (mic_env True []) ''key'' ''mic'' 250 ''src'' ''conv'')" by code_simp
  then show ?thesis by (cases "audio_create (mic_env True []) ''key'' ''mic'' 250 ''src'' ''conv''") (simp_all add: mic_path_def)
qed

lemma mic_path_fields: "ap_close mic_path = Open" "isActive (gs_pipeline (ap_stream mic_path))" "mp_track (ap_pub mic_path) = None"
  "next_publish_attempt (ap_pub mic_path) = 0" "mp_frames (ap_pub mic_path) = []"
  by code_simp+

theorem audio_path_refines_witness: "apstep\<^sup>*\<^sup>* (publisher_init ''key'' ''mic'' 250) (ap_pub mic_path)"
  using audio_path_refines [OF mic_path_created rtranclp.rtrancl_refl] by simp

theorem audio_sample_reaches_room_witness:
  "fst (path_sample mic_answers (Some mic_sample) mic_path) = FlowOk
     \<and> mp_frames (ap_pub (snd (path_sample mic_answers (Some mic_sample) mic_path))) = [(7, 48000, 1)]"
proof -
  let ?f = "\<lparr>af_samples = [0x0201, 0x0403], af_rate = 48000, af_channels = 1, af_per_channel = 2\<rparr>"
  have "unpackAudioFrame mic_sample = Inr ?f" by code_simp
  from audio_sample_reaches_room [OF mic_path_created rtranclp.rtrancl_refl mic_path_fields(1,2) this, of mic_answers 7] mic_path_fields(3-5)
  show ?thesis by (simp add: mic_answers_def)
qed

theorem audio_close_ends_witness: "\<exists>t. apathstep\<^sup>*\<^sup>* mic_path t \<and> ap_close t = PathClosed"
  using audio_close_ends [OF mic_path_created rtranclp.rtrancl_refl] by simp

end
