(* ===== verification/Video_Path.thy ===== *)
theory Video_Path
  imports Media_Path Ros_Stream
begin

text \<open>
  The way of a video frame to the room: \<open>create\<close>, \<open>makePipelineCallbacks\<close>, the publish options and
  \<open>close\<close> of src/src/video/track_publisher.cpp. The publisher is fed by a GStreamer source or by the
  images of a ROS topic; unlike the audio publisher it lets the exceptions of the room pass to the
  pipeline.
\<close>

section \<open>Model\<close>

text \<open>The frame metadata that every video publication asks for: user timestamps, no frame ids.\<close>

record metadata_features =
  user_timestamp :: bool
  frame_id :: bool

definition publishOptionsWithFrameMetadata :: "publish_options \<Rightarrow> publish_options \<times> metadata_features option" where
  "publishOptionsWithFrameMetadata options = (options, Some \<lparr>user_timestamp = True, frame_id = False\<rparr>)"

datatype video_feed = GstFeed gst_stream | RosFeed ros_stream

fun feed_pipeline :: "video_feed \<Rightarrow> media_pipeline" where
  "feed_pipeline (GstFeed st) = gs_pipeline st"
| "feed_pipeline (RosFeed st) = rs_pipeline st"

fun feed_handler :: "video_feed \<Rightarrow> failure_handler" where
  "feed_handler (GstFeed st) = gs_handler st"
| "feed_handler (RosFeed st) = rs_handler st"

fun feed_shutdown :: "video_feed \<Rightarrow> bool" where
  "feed_shutdown (GstFeed st) = gs_shutdown st"
| "feed_shutdown (RosFeed st) = rs_shutdown st"

record video_path =
  vp_pub :: media_publisher
  vp_feed :: video_feed
  vp_close :: close_pc

text \<open>
  \<open>create\<close>; \<open>None\<close> when the start of a GStreamer source waits for its own mutex (see \<open>Media_Streams\<close>).
\<close>

definition video_create :: "gst_env \<Rightarrow> stream_spec \<Rightarrow> unit res \<Rightarrow> unit res \<Rightarrow> video_path res option" where
  "video_create env spec qos subscription =
     (let pub = publisher_init (stream_key spec) (track_name spec) 0 in
      case spec_input spec of
        OtherInput i \<Rightarrow>
          map_option (\<lambda>(r, st). case r of Inl e \<Rightarrow> Inl e | Inr _ \<Rightarrow> Inr \<lparr>vp_pub = pub, vp_feed = GstFeed st, vp_close = Open\<rparr>)
            (video_stream_start env (gst_stream_init (oi_source i) (oi_transform i)))
      | RosInput i \<Rightarrow>
          Some (case ros_stream_start spec qos subscription (ros_stream_init (ri_transform i)) of
                  (Inl e, st) \<Rightarrow> Inl e
                | (Inr _, st) \<Rightarrow> Inr \<lparr>vp_pub = pub, vp_feed = RosFeed st, vp_close = Open\<rparr>))"

record video_answers =
  va_publication :: "nat res"
  va_captured :: "unit res"

fun feed_failure :: "string \<Rightarrow> video_feed \<Rightarrow> video_feed" where
  "feed_failure why (GstFeed st) = GstFeed (video_onPipelineFailure why st)"
| "feed_failure why (RosFeed st) = RosFeed (ros_onPipelineFailure st)"

text \<open>A frame is its format here, as in \<open>Track_Publishers\<close>.\<close>

fun video_callback :: "video_answers \<Rightarrow> media_format media_call \<Rightarrow> video_path \<Rightarrow> video_path" where
  "video_callback va (OnFrame f t) s = s\<lparr>vp_pub := snd (video_capture (va_publication va) (va_captured va) f (vp_pub s))\<rparr>"
| "video_callback va (OnUnpackFailed e) s = s\<lparr>vp_pub := report_failure ''video_stream_sample_unpack_failed'' e (vp_pub s)\<rparr>"
| "video_callback va (OnCaptureFailed e) s = s\<lparr>vp_pub := report_failure ''video_stream_capture_failed'' e (vp_pub s)\<rparr>"
| "video_callback va (OnFailed why) s = s\<lparr>vp_feed := feed_failure why (vp_feed s)\<rparr>"

text \<open>\<open>pulled\<close> is the pulled sample unpacked, \<open>pts\<close> its presentation time.\<close>

definition video_sample :: "video_answers \<Rightarrow> media_format res option \<Rightarrow> 64 word option \<Rightarrow> video_path \<Rightarrow> flow \<times> video_path" where
  "video_sample va pulled pts s =
     (let (result, calls, w) = onSample (pl_word (feed_pipeline (vp_feed s))) pulled (timestamp_us pts) (feed_shutdown (vp_feed s))
            (\<lambda>f. fst (video_capture (va_publication va) (va_captured va) f (vp_pub s)))
      in (result, fold (video_callback va) calls s))"

definition video_bus :: "video_answers \<Rightarrow> bus_message \<Rightarrow> video_path \<Rightarrow> video_path" where
  "video_bus va message s = fold (video_callback va) (fst (onBusMessage (pl_word (feed_pipeline (vp_feed s))) message)) s"

fun feed_turn :: "time \<Rightarrow> video_feed \<Rightarrow> video_feed" where
  "feed_turn now (GstFeed st) = GstFeed (on_handler (worker_turn now) st)"
| "feed_turn now (RosFeed st) = RosFeed (st\<lparr>rs_handler := worker_turn now (rs_handler st)\<rparr>)"

text \<open>The failure handler's callback: the GStreamer stream restarts and reports, the ROS stream stops its pipeline.\<close>

definition video_recover :: "gst_env \<Rightarrow> video_path \<Rightarrow> video_path option" where
  "video_recover env s =
     (case vp_feed s of
        GstFeed st \<Rightarrow>
          map_option (\<lambda>st'. s\<lparr>vp_feed := GstFeed (on_handler end_callback st'),
              vp_pub := fold (report_failure ''video_stream_restart_failed'') (drop (length (restart_failures st)) (restart_failures st')) (vp_pub s)\<rparr>)
            (video_restartPipelineAfterFailure env st)
      | RosFeed st \<Rightarrow>
          (let st' = stopPipelineAfterFailure st in Some (s\<lparr>vp_feed := RosFeed (st'\<lparr>rs_handler := end_callback (rs_handler st')\<rparr>)\<rparr>)))"

text \<open>An image of the topic: what the stream could not push is reported.\<close>

definition video_image :: "(ros_stream \<Rightarrow> ros_stream option) \<Rightarrow> video_path \<Rightarrow> video_path option" where
  "video_image push s =
     (case vp_feed s of
        GstFeed st \<Rightarrow> Some s
      | RosFeed st \<Rightarrow>
          map_option (\<lambda>st'. s\<lparr>vp_feed := RosFeed st',
              vp_pub := fold (report_failure ''video_stream_push_failed'') (drop (length (push_failures st)) (push_failures st')) (vp_pub s)\<rparr>)
            (push st))"

definition video_close_take :: "video_path \<Rightarrow> video_path" where
  "video_close_take s = (if mp_closed (vp_pub s) then s else s\<lparr>vp_pub := close_take (vp_pub s), vp_close := Taken\<rparr>)"

fun feed_ask :: "video_feed \<Rightarrow> video_feed" where
  "feed_ask (GstFeed st) = GstFeed (stream_close_request st)"
| "feed_ask (RosFeed st) = RosFeed (ros_close_request st)"

fun feed_stop :: "video_feed \<Rightarrow> video_feed" where
  "feed_stop (GstFeed st) = GstFeed (stream_close_finish st)"
| "feed_stop (RosFeed st) = RosFeed (ros_close_finish st)"

definition video_close_ask :: "video_path \<Rightarrow> video_path" where
  "video_close_ask s = s\<lparr>vp_feed := feed_ask (vp_feed s), vp_close := StreamAsked\<rparr>"

definition video_close_stop :: "video_path \<Rightarrow> video_path" where
  "video_close_stop s = s\<lparr>vp_feed := feed_stop (vp_feed s), vp_close := StreamStopped\<rparr>"

definition video_close_unpublish :: "video_path \<Rightarrow> video_path" where
  "video_close_unpublish s = s\<lparr>vp_pub := close_unpublish (vp_pub s), vp_close := PathClosed\<rparr>"

inductive vpathstep :: "video_path \<Rightarrow> video_path \<Rightarrow> bool" where
  V_sample: "isActive (feed_pipeline (vp_feed s)) \<Longrightarrow> fresh_track (va_publication va) (vp_pub s) \<Longrightarrow>
    vpathstep s (snd (video_sample va pulled pts s))"
| V_bus: "isActive (feed_pipeline (vp_feed s)) \<Longrightarrow> vpathstep s (video_bus va message s)"
| V_worker: "vpathstep s (s\<lparr>vp_feed := feed_turn now (vp_feed s)\<rparr>)"
| V_recover: "callback_running (feed_handler (vp_feed s)) \<Longrightarrow> video_recover env s = Some t \<Longrightarrow> vpathstep s t"
| V_raw: "video_image (onRawImage env img) s = Some t \<Longrightarrow> vpathstep s t"
| V_compressed: "video_image (onCompressedImage env codec) s = Some t \<Longrightarrow> vpathstep s t"
| V_take: "vpathstep s (video_close_take s)"
| V_ask: "vp_close s = Taken \<Longrightarrow> vpathstep s (video_close_ask s)"
| V_stop: "vp_close s = StreamAsked \<Longrightarrow> close_may_return (feed_handler (vp_feed s)) \<Longrightarrow> vpathstep s (video_close_stop s)"
| V_unpublish: "vp_close s = StreamStopped \<Longrightarrow> vpathstep s (video_close_unpublish s)"

inductive_cases vpathstepE: "vpathstep s s'"

section \<open>Callbacks\<close>

lemma video_sample_calls:
  "video_sample va pulled pts s =
     (if beginUse (pl_word (feed_pipeline (vp_feed s))) = None then (FlowFlushing, s)
      else case pulled of
        None \<Rightarrow> (FlowEos, s)
      | Some (Inl e) \<Rightarrow> (FlowError, s\<lparr>vp_pub := report_failure ''video_stream_sample_unpack_failed'' (what e) (vp_pub s)\<rparr>)
      | Some (Inr f) \<Rightarrow>
          if feed_shutdown (vp_feed s) then (FlowFlushing, s)
          else (case video_capture (va_publication va) (va_captured va) f (vp_pub s) of
                  (Inr _, p) \<Rightarrow> (FlowOk, s\<lparr>vp_pub := p\<rparr>)
                | (Inl e, p) \<Rightarrow> (FlowError, s\<lparr>vp_pub := report_failure ''video_stream_capture_failed'' (what e) p\<rparr>)))"
  by (auto simp: video_sample_def onSample_def split: option.split sum.split prod.split)

lemma video_bus_calls: "video_bus va message s = s \<or> (\<exists>why. video_bus va message s = s\<lparr>vp_feed := feed_failure why (vp_feed s)\<rparr>)"
  by (cases message) (auto simp: video_bus_def onBusMessage_def split: option.split)

section \<open>The feed\<close>

text \<open>
  What every step of a feed other than closing keeps. A pipeline whose callbacks are refused is not
  active; a feed that is shut down has a closed handler and keeps its pipeline.
\<close>

definition feed_ok :: "video_feed \<Rightarrow> bool" where
  "feed_ok f \<longleftrightarrow> (isActive (feed_pipeline f) \<longrightarrow> pl_word (feed_pipeline f) = 0)
     \<and> (feed_shutdown f \<longrightarrow> fh_closed (feed_handler f)) \<and> fh_inv (feed_handler f)"

definition feed_keeps :: "video_feed \<Rightarrow> video_feed \<Rightarrow> bool" where
  "feed_keeps f f' \<longleftrightarrow> (feed_ok f \<longrightarrow> feed_ok f' \<and> feed_shutdown f' = feed_shutdown f
     \<and> (feed_shutdown f \<longrightarrow> feed_pipeline f' = feed_pipeline f))"

lemma video_start_word: "video_pipeline_start launch playing d req p = (r, p') \<Longrightarrow> isActive p' \<Longrightarrow> pl_word p' = 0"
  by (auto simp: video_pipeline_start_def play_def resumeCallbacks_def Let_def isActive_def stopped_inactive split: sum.splits if_splits)

lemma feed_failure_keeps: "feed_keeps f (feed_failure why f)"
proof (cases f)
  case (GstFeed st)
  then show ?thesis using fh_inv_ops(3) [of "gs_handler st"]
    by (simp add: feed_keeps_def feed_ok_def video_onPipelineFailure_def handler_closed_keeps)
next
  case (RosFeed st)
  then show ?thesis using fh_inv_ops(3) [of "rs_handler st"]
    by (simp add: feed_keeps_def feed_ok_def ros_onPipelineFailure_def handler_closed_keeps)
qed

lemma feed_turn_keeps: "feed_keeps f (feed_turn now f)"
  using fh_inv_ops(1) [of "feed_handler f" now]
  by (cases f) (simp_all add: feed_keeps_def feed_ok_def on_handler_def handler_closed_keeps)

lemma gst_recover_keeps:
  assumes "video_restartPipelineAfterFailure env st = Some st'"
  shows "feed_keeps (GstFeed st) (GstFeed (on_handler end_callback st'))"
proof (cases "gs_shutdown st")
  case True
  with assms show ?thesis using fh_inv_ops(2) [of "gs_handler st"]
    by (simp add: feed_keeps_def feed_ok_def video_restartPipelineAfterFailure_def on_handler_def handler_closed_keeps)
next
  case False
  with assms obtain r p where
    p: "video_pipeline_start (ge_launch env) (ge_playing env) (video_buildPipelineDescription (gs_source st) (gs_transform st)) False
          (pipeline_stop (gs_pipeline st)) = (r, p)"
    and st': "gs_pipeline st' = p" "gs_handler st' = gs_handler st" "gs_shutdown st' = gs_shutdown st"
    by (auto simp: video_restartPipelineAfterFailure_def video_startPipelineLocked_def Let_def split: if_splits prod.splits sum.splits)
  show ?thesis using False st' video_start_word [OF p] fh_inv_ops(2) [of "gs_handler st"]
    by (simp add: feed_keeps_def feed_ok_def on_handler_def handler_closed_keeps)
qed

lemma ros_stopped_keeps:
  assumes "feed_ok (RosFeed st)"
  shows "feed_ok (RosFeed (stop_pipeline (resetPipelineStateLocked st)))" "feed_ok (RosFeed (image_failed e st))"
    "rs_shutdown (image_failed e st) = rs_shutdown st"
  using assms fh_inv_ops(5) [of "rs_handler st"]
  by (simp_all add: feed_ok_def image_failed_def stop_pipeline_def resetPipelineStateLocked_def stopped_inactive isActive_def handler_closed_keeps)

lemma ros_recover_keeps:
  "feed_keeps (RosFeed st) (RosFeed ((stopPipelineAfterFailure st)\<lparr>rs_handler := end_callback (rs_handler (stopPipelineAfterFailure st))\<rparr>))"
  using ros_stopped_keeps(1) [of st] fh_inv_ops(2) [of "rs_handler (stopPipelineAfterFailure st)"]
  by (auto simp: feed_keeps_def feed_ok_def stopPipelineAfterFailure_def handler_closed_keeps) 
    (simp_all add: stop_pipeline_def resetPipelineStateLocked_def handler_closed_keeps)

lemma start_appsrc_keeps:
  assumes "start_appsrc env d st = Some (r, st')" "feed_ok (RosFeed st)"
  shows "feed_ok (RosFeed st') \<and> rs_shutdown st' = rs_shutdown st"
  using assms video_start_word
  by (fastforce simp: start_appsrc_def feed_ok_def Let_def split: if_splits prod.splits)

lemma push_keeps:
  assumes "feed_ok (RosFeed st)"
  shows "feed_ok (RosFeed (pushRawLocked env l st)) \<and> rs_shutdown (pushRawLocked env l st) = rs_shutdown st"
    "feed_ok (RosFeed (push_compressed env codec st)) \<and> rs_shutdown (push_compressed env codec st) = rs_shutdown st"
  using ros_stopped_keeps(2,3) [OF assms] assms
  by (auto simp: pushRawLocked_def push_compressed_def feed_ok_def split: sum.split)

lemma start_image_keeps:
  assumes "feed_ok (RosFeed st)"
  shows "startRawPipelineLocked env l st = Some (r, st') \<Longrightarrow> feed_ok (RosFeed st') \<and> rs_shutdown st' = rs_shutdown st"
    "startCompressedPipelineLocked env codec st = Some (r, st') \<Longrightarrow> feed_ok (RosFeed st') \<and> rs_shutdown st' = rs_shutdown st"
  using start_appsrc_keeps [OF _ assms, of env]
  by (fastforce simp: startRawPipelineLocked_def startCompressedPipelineLocked_def feed_ok_def split: option.splits sum.splits)+

lemma reset_shutdown: "rs_shutdown (stop_pipeline (resetPipelineStateLocked st)) = rs_shutdown st"
  by (simp add: stop_pipeline_def resetPipelineStateLocked_def)

lemma raw_image_keeps:
  assumes "onRawImage env img st = Some st'"
  shows "feed_keeps (RosFeed st) (RosFeed st')"
proof -
  have "feed_ok (RosFeed st') \<and> rs_shutdown st' = rs_shutdown st" if ok: "feed_ok (RosFeed st)" "\<not> rs_shutdown st"
    using assms ok(2) ros_stopped_keeps [OF ok(1)] push_keeps(1) [OF ok(1), of env] reset_shutdown [of st]
    by (auto simp: onRawImage_def Let_def split: option.splits if_splits prod.splits sum.splits
        dest!: start_image_keeps(1) [OF ros_stopped_keeps(1) [OF ok(1)]] intro: ros_stopped_keeps(2) simp: ros_stopped_keeps(3) push_keeps(1))
  moreover have "st' = st" if "rs_shutdown st" using assms that by (simp add: onRawImage_def)
  ultimately show ?thesis unfolding feed_keeps_def by (cases "rs_shutdown st") auto
qed

lemma compressed_image_keeps:
  assumes "onCompressedImage env codec st = Some st'"
  shows "feed_keeps (RosFeed st) (RosFeed st')"
proof -
  have "feed_ok (RosFeed st') \<and> rs_shutdown st' = rs_shutdown st" if ok: "feed_ok (RosFeed st)" "\<not> rs_shutdown st"
    using assms ok(2) ros_stopped_keeps [OF ok(1)] push_keeps(2) [OF ok(1), of env] reset_shutdown [of st]
    by (auto simp: onCompressedImage_def Let_def split: option.splits if_splits prod.splits sum.splits
        dest!: start_image_keeps(2) [OF ros_stopped_keeps(1) [OF ok(1)]] intro: ros_stopped_keeps(2) simp: ros_stopped_keeps(3) push_keeps(2))
  moreover have "st' = st" if "rs_shutdown st" using assms that by (simp add: onCompressedImage_def)
  ultimately show ?thesis unfolding feed_keeps_def by (cases "rs_shutdown st") auto
qed

section \<open>The parts of the path\<close>

definition video_inv :: "video_path \<Rightarrow> bool" where
  "video_inv s \<longleftrightarrow> feed_ok (vp_feed s)
     \<and> (mp_closed (vp_pub s) \<longleftrightarrow> vp_close s \<noteq> Open)
     \<and> (feed_shutdown (vp_feed s) \<longleftrightarrow> vp_close s \<in> {StreamAsked, StreamStopped, PathClosed})
     \<and> (vp_close s \<in> {StreamStopped, PathClosed} \<longrightarrow> \<not> isActive (feed_pipeline (vp_feed s)))
     \<and> (vp_close s = PathClosed \<longrightarrow> mp_closing (vp_pub s) = None)"

lemma video_capture_keeps:
  "video_capture publication captured f p = (r, p') \<Longrightarrow> mp_closed p' = mp_closed p \<and> mp_closing p' = mp_closing p"
  by (auto simp: capture_defs split: prod.splits sum.splits option.splits if_splits)

text \<open>A step that changes neither the stage of closing nor what closing takes.\<close>

lemma video_inv_frame:
  assumes "video_inv s" "feed_keeps (vp_feed s) (vp_feed t)" "vp_close t = vp_close s" "mp_closed (vp_pub t) = mp_closed (vp_pub s)"
    "mp_closing (vp_pub t) = mp_closing (vp_pub s)"
  shows "video_inv t"
  using assms by (auto simp: video_inv_def feed_keeps_def)

lemma feed_keeps_refl: "feed_keeps f f"
  by (simp add: feed_keeps_def)

lemma report_keeps: "mp_closed (report_failure ev e p) = mp_closed p" "mp_closing (report_failure ev e p) = mp_closing p"
  by (simp_all add: report_failure_def mp_log_def)

lemma video_inv_step: "vpathstep s s' \<Longrightarrow> video_inv s \<Longrightarrow> video_inv s'"
proof (induction rule: vpathstep.induct)
  case (V_sample s va pulled pts)
  show ?case
    by (rule video_inv_frame [OF V_sample(3)])
      (auto simp: video_sample_calls feed_keeps_refl report_keeps split: option.split sum.split prod.split dest!: video_capture_keeps)
next
  case (V_bus s va message)
  then show ?case using video_bus_calls [of va message s] by (auto intro: video_inv_frame simp: feed_failure_keeps)
next
  case (V_worker s now)
  show ?case by (rule video_inv_frame [OF V_worker]) (simp_all add: feed_turn_keeps)
next
  case (V_recover s env t)
  then show ?case
    by (intro video_inv_frame [OF V_recover(3)])
      (auto simp: video_recover_def reports_keep gst_recover_keeps ros_recover_keeps Let_def split: video_feed.splits)
next
  case (V_raw env img s t)
  then show ?case
    by (intro video_inv_frame [OF V_raw(2)])
      (auto simp: video_image_def reports_keep feed_keeps_refl raw_image_keeps split: video_feed.splits)
next
  case (V_compressed env codec s t)
  then show ?case
    by (intro video_inv_frame [OF V_compressed(2)])
      (auto simp: video_image_def reports_keep feed_keeps_refl compressed_image_keeps split: video_feed.splits)
next
  case (V_ask s)
  then show ?case using fh_inv_ops(4) [of "feed_handler (vp_feed s)"]
    by (cases "vp_feed s") (auto simp: video_inv_def feed_ok_def video_close_ask_def stream_close_request_def ros_close_request_def close_handler_def)
next
  case (V_stop s)
  then show ?case
    by (cases "vp_feed s") (auto simp: video_inv_def feed_ok_def video_close_stop_def stream_close_finish_def ros_close_finish_def
        stop_pipeline_def isActive_def stopped_inactive)
qed (auto simp: video_inv_def video_close_take_def video_close_unpublish_def close_take_def close_unpublish_def tryUnpublish_def
    split: option.split)

abbreviation video_reachable :: "gst_env \<Rightarrow> stream_spec \<Rightarrow> unit res \<Rightarrow> unit res \<Rightarrow> video_path \<Rightarrow> bool" where
  "video_reachable env spec qos subscription s \<equiv> (\<exists>s0. video_create env spec qos subscription = Some (Inr s0) \<and> vpathstep\<^sup>*\<^sup>* s0 s)"

text \<open>What a created path is: the publisher, and the feed as its \<open>start\<close> left it.\<close>

lemma video_created:
  assumes "video_create env spec qos subscription = Some (Inr s)"
  obtains (gst) i st where "spec_input spec = OtherInput i" "video_stream_start env (gst_stream_init (oi_source i) (oi_transform i)) = Some (Inr (), st)"
      "s = \<lparr>vp_pub = publisher_init (stream_key spec) (track_name spec) 0, vp_feed = GstFeed st, vp_close = Open\<rparr>"
  | (ros) i st where "spec_input spec = RosInput i" "ros_stream_start spec qos subscription (ros_stream_init (ri_transform i)) = (Inr (), st)"
      "s = \<lparr>vp_pub = publisher_init (stream_key spec) (track_name spec) 0, vp_feed = RosFeed st, vp_close = Open\<rparr>"
proof (cases "spec_input spec")
  case (OtherInput i)
  then obtain r st where r: "video_stream_start env (gst_stream_init (oi_source i) (oi_transform i)) = Some (r, st)"
    using assms by (auto simp: video_create_def Let_def)
  with OtherInput assms gst show thesis by (cases r) (simp_all add: video_create_def Let_def)
next
  case (RosInput i)
  with assms ros show thesis by (auto simp: video_create_def Let_def split: sum.splits prod.splits)
qed

lemma video_inv_create:
  assumes "video_create env spec qos subscription = Some (Inr s)"
  shows "video_inv s"
  using assms
proof (cases rule: video_created)
  case (gst i st)
  obtain r p where p: "video_pipeline_start (ge_launch env) (ge_playing env) (video_buildPipelineDescription (oi_source i) (oi_transform i)) False
      pipeline_init = (r, p)" by fastforce
  have "st = (gst_stream_init (oi_source i) (oi_transform i))\<lparr>gs_pipeline := p\<rparr>"
    using gst(2) p by (auto simp: video_stream_start_def video_startPipelineLocked_def gst_stream_init_def Let_def split: if_splits)
  with gst(3) video_start_word [OF p] show ?thesis
    by (simp add: video_inv_def feed_ok_def gst_stream_init_def publisher_init_def fh_inv_init)
next
  case (ros i st)
  then show ?thesis
    by (auto simp: ros_stream_start_def ros_stream_init_def video_inv_def feed_ok_def publisher_init_def fh_inv_init pipeline_init_def isActive_def
        split: if_splits sum.splits)
qed

lemma video_run_inv: "vpathstep\<^sup>*\<^sup>* s0 s \<Longrightarrow> video_inv s0 \<Longrightarrow> video_inv s"
  by (induction rule: rtranclp_induct) (auto intro: video_inv_step)

section \<open>Refinement\<close>

text \<open>The steps of either feed as steps of the video path's feed.\<close>

inductive feedstep :: "video_feed \<Rightarrow> video_feed \<Rightarrow> bool" where
  Gst_step: "gsstep st st' \<Longrightarrow> feedstep (GstFeed st) (GstFeed st')"
| Ros_step: "rsstep st st' \<Longrightarrow> feedstep (RosFeed st) (RosFeed st')"

lemma reports_vpstep: "vpstep\<^sup>*\<^sup>* p (fold (report_failure ev) es p)"
  by (induction es arbitrary: p) (auto intro: converse_rtranclp_into_rtranclp vpstep.Video_report)

lemma video_step_pub: "vpathstep s s' \<Longrightarrow> vpstep\<^sup>*\<^sup>* (vp_pub s) (vp_pub s')"
proof (induction rule: vpathstep.induct)
  case (V_sample s va pulled pts)
  then have c: "vpstep (vp_pub s) (snd (video_capture (va_publication va) (va_captured va) f (vp_pub s)))" for f
    by (intro Video_capture)
  have "vpstep\<^sup>*\<^sup>* (vp_pub s) p \<and> vpstep\<^sup>*\<^sup>* (vp_pub s) (report_failure ev e p)"
    if "video_capture (va_publication va) (va_captured va) f (vp_pub s) = (r, p)" for f r p ev e
    using c [of f] that by (auto intro: rtranclp.rtrancl_into_rtrancl vpstep.Video_report)
  then show ?case
    by (auto simp: video_sample_calls split: option.split sum.split prod.split intro: vpstep.Video_report)
next
  case (V_bus s va message)
  then show ?case using video_bus_calls [of va message s] by auto
qed (auto simp: video_recover_def video_image_def reports_vpstep Let_def video_close_take_def video_close_ask_def video_close_stop_def
    video_close_unpublish_def split: video_feed.splits intro: vpstep.intros)

lemma video_step_feed: "vpathstep s s' \<Longrightarrow> video_inv s \<Longrightarrow> feedstep\<^sup>*\<^sup>* (vp_feed s) (vp_feed s')"
proof (induction rule: vpathstep.induct)
  case (V_sample s va pulled pts)
  then show ?case by (auto simp: video_sample_calls split: option.split sum.split prod.split)
next
  case (V_bus s va message)
  then have "feedstep (vp_feed s) (feed_failure why (vp_feed s))" for why
    by (cases "vp_feed s") (auto intro: Gst_step gsstep.Video_failure Ros_step rsstep.Failure)
  then show ?case using video_bus_calls [of va message s] by auto
next
  case (V_worker s now)
  show ?case by (cases "vp_feed s") (auto intro: Gst_step gsstep.Handler_turn Ros_step rsstep.Handler)
next
  case (V_recover s env t)
  then show ?case
    by (cases "vp_feed s")
      (auto simp: video_recover_def Let_def intro!: r_into_rtranclp Gst_step gsstep.Video_restart Ros_step rsstep.Failure_callback)
next
  case (V_raw env img s t)
  then show ?case by (cases "vp_feed s") (auto simp: video_image_def intro!: r_into_rtranclp Ros_step elim: rsstep.Raw_image)
next
  case (V_compressed env codec s t)
  then show ?case by (cases "vp_feed s") (auto simp: video_image_def intro!: r_into_rtranclp Ros_step elim: rsstep.Compressed_image)
next
  case (V_ask s)
  show ?case by (cases "vp_feed s") (auto simp: video_close_ask_def intro: Gst_step gsstep.Close_request Ros_step rsstep.Close_request)
next
  case (V_stop s)
  then have "feed_shutdown (vp_feed s)" by (simp add: video_inv_def)
  with V_stop show ?case
    by (cases "vp_feed s") (auto simp: video_close_stop_def intro: Gst_step gsstep.Close_finish Ros_step rsstep.Close_finish)
qed (simp_all add: video_close_take_def video_close_unpublish_def)

lemma video_runs:
  assumes "vpathstep\<^sup>*\<^sup>* s0 s" "video_inv s0"
  shows "vpstep\<^sup>*\<^sup>* (vp_pub s0) (vp_pub s) \<and> feedstep\<^sup>*\<^sup>* (vp_feed s0) (vp_feed s)"
  using assms(1)
proof (induction rule: rtranclp_induct)
  case (step y z)
  have "video_inv y" by (rule video_run_inv [OF step(1) assms(2)])
  then show ?case using step video_step_pub [OF step(2)] video_step_feed [OF step(2)] by (auto intro: rtranclp_trans)
qed simp

lemma gst_feed_runs: "feedstep\<^sup>*\<^sup>* (GstFeed st) f \<Longrightarrow> \<exists>st'. f = GstFeed st' \<and> gsstep\<^sup>*\<^sup>* st st'"
  by (induction rule: rtranclp_induct) (auto elim!: feedstep.cases intro: rtranclp.rtrancl_into_rtrancl)

lemma ros_feed_runs: "feedstep\<^sup>*\<^sup>* (RosFeed st) f \<Longrightarrow> \<exists>st'. f = RosFeed st' \<and> rsstep\<^sup>*\<^sup>* st st'"
  by (induction rule: rtranclp_induct) (auto elim!: feedstep.cases intro: rtranclp.rtrancl_into_rtrancl)

section \<open>Closing\<close>

lemma recover_when_shut:
  assumes "feed_shutdown (vp_feed s)"
  obtains t where "video_recover env s = Some t" "vp_close t = vp_close s" "feed_handler (vp_feed t) = end_callback (feed_handler (vp_feed s))"
proof (cases "vp_feed s")
  case (GstFeed st)
  with assms that show thesis by (simp add: video_recover_def video_restartPipelineAfterFailure_def on_handler_def)
next
  case (RosFeed st)
  with assms that show thesis by (simp add: video_recover_def stopPipelineAfterFailure_def Let_def)
qed

lemma feed_turn_handler: "feed_handler (feed_turn now f) = worker_turn now (feed_handler f)"
  by (cases f) (simp_all add: on_handler_def)

lemma video_worker_finishes:
  assumes "video_inv s" "vp_close s = StreamAsked"
  shows "\<exists>t. vpathstep\<^sup>*\<^sup>* s t \<and> vp_close t = StreamAsked \<and> close_may_return (feed_handler (vp_feed t))"
proof -
  have idle: "\<exists>t. vpathstep\<^sup>*\<^sup>* s t \<and> vp_close t = StreamAsked \<and> close_may_return (feed_handler (vp_feed t))"
    if "fh_closed (feed_handler (vp_feed s))" "vp_close s = StreamAsked" "fh_worker (feed_handler (vp_feed s)) \<noteq> WorkerRunning" for s
    using V_worker [of s 0] closed_worker_turn [OF that(1,3), of 0] that(2)
    by (intro exI [of _ "s\<lparr>vp_feed := feed_turn 0 (vp_feed s)\<rparr>"]) (auto simp: feed_turn_handler)
  have closed: "fh_closed (feed_handler (vp_feed s))" "fh_inv (feed_handler (vp_feed s))" "feed_shutdown (vp_feed s)"
    using assms by (simp_all add: video_inv_def feed_ok_def)
  show ?thesis
  proof (cases "fh_worker (feed_handler (vp_feed s)) = WorkerRunning")
    case True
    then have run: "callback_running (feed_handler (vp_feed s))" using closed(2) by (simp add: fh_inv_def)
    obtain t where t: "video_recover undefined s = Some t" "vp_close t = vp_close s" "feed_handler (vp_feed t) = end_callback (feed_handler (vp_feed s))"
      by (rule recover_when_shut [OF closed(3)])
    then obtain u where "vpathstep\<^sup>*\<^sup>* t u" "vp_close u = StreamAsked" "close_may_return (feed_handler (vp_feed u))"
      using idle [of t] closed_worker_end [OF closed(1)] assms(2) by auto
    with V_recover [OF run t(1)] show ?thesis by (blast intro: converse_rtranclp_into_rtranclp)
  qed (use idle closed assms(2) in blast)
qed

lemma video_close_pcs: "vp_close (video_close_ask s) = StreamAsked" "vp_close (video_close_stop s) = StreamStopped"
  "vp_close (video_close_unpublish s) = PathClosed"
  by (simp_all add: video_close_ask_def video_close_stop_def video_close_unpublish_def)

interpretation vcl: closing_path vpathstep video_inv vp_close video_close_take video_close_ask video_close_stop video_close_unpublish
  "\<lambda>s. close_may_return (feed_handler (vp_feed s))"
proof
  fix s assume "video_inv s"
  then show "vp_close s = Open \<Longrightarrow> vpathstep s (video_close_take s) \<and> vp_close (video_close_take s) = Taken"
    using V_take [of s] by (simp add: video_inv_def video_close_take_def)
qed (auto simp: video_close_pcs intro: video_inv_step video_worker_finishes V_ask V_stop V_unpublish)

lemma video_closed_step: "vpathstep s t \<Longrightarrow> video_inv s \<Longrightarrow> vp_close s = PathClosed \<Longrightarrow> vp_close t = PathClosed"
  by (erule vpathstepE) (auto simp: video_inv_def video_recover_def video_image_def video_close_take_def Let_def split: video_feed.splits)

definition video_down :: "(nat, media_format) alist \<times> (nat \<times> media_format) list \<Rightarrow> video_path \<Rightarrow> bool" where
  "video_down x s \<longleftrightarrow> video_inv s \<and> vp_close s = PathClosed \<and> publisher_down x (vp_pub s)"

interpretation vpd: terminal_shutdown vpathstep "video_down x" for x
proof
  fix s t assume st: "vpathstep s t" "video_down x s"
  have "vp_close t = PathClosed" using st by (auto simp: video_down_def intro: video_closed_step)
  moreover have "publisher_down x (vp_pub t)" using vd.down_forever [OF video_step_pub [OF st(1)]] st(2) by (simp add: video_down_def)
  ultimately show "video_down x t" using video_inv_step [OF st(1)] st(2) by (simp add: video_down_def)
qed

lemma video_publisher_runs:
  assumes "video_create env spec qos subscription = Some (Inr s0)" "vpathstep\<^sup>*\<^sup>* s0 s"
  shows "vpstep\<^sup>*\<^sup>* (publisher_init (stream_key spec) (track_name spec) 0) (vp_pub s)"
proof -
  have "vp_pub s0 = publisher_init (stream_key spec) (track_name spec) 0" using assms(1) by (cases rule: video_created) simp_all
  with video_runs [OF assms(2) video_inv_create [OF assms(1)]] show ?thesis by simp
qed

text \<open>A frame of an open publisher, as the pipeline sees it.\<close>

lemma video_capture_outcome:
  assumes "publisher_inv p" "\<not> mp_closed p" "video_capture publication captured f p = (r, p')"
  shows "(r = Inr () \<longleftrightarrow> captured = Inr () \<and> (mp_source p = Some f \<or> is_ok publication))
    \<and> (r = Inr () \<longrightarrow> (\<exists>t. mp_frames p' = (t, f) # mp_frames p \<and> lookup (mp_sizes p') t = Some f))
    \<and> (r \<noteq> Inr () \<longrightarrow> mp_frames p' = mp_frames p)"
  using assms
  by (auto simp: video_capture_def video_republish_def capture_frame_def tryUnpublish_def mp_log_def publisher_inv_def is_ok_def Let_def
      split: if_splits sum.splits option.splits prod.splits)

section \<open>Properties\<close>


text \<open>
  C33: A frame of an open video path is answered with OK exactly when the room took it, and then it went
  to a track whose source was made for its width and height; a frame the room did not take is answered
  with ERROR, is not counted as sent, and leaves one line in the log. The feed is the same either way.
\<close>

theorem video_frame_outcome:
  assumes "video_create env spec qos subscription = Some (Inr s0)" "vpathstep\<^sup>*\<^sup>* s0 s"
    and "vp_close s = Open" "isActive (feed_pipeline (vp_feed s))" "video_sample va (Some (Inr f)) pts s = (r, s')"
  shows "vp_feed s' = vp_feed s
    \<and> (r = FlowOk \<longleftrightarrow> va_captured va = Inr () \<and> (mp_source (vp_pub s) = Some f \<or> is_ok (va_publication va)))
    \<and> (if r = FlowOk then \<exists>t. mp_frames (vp_pub s') = (t, f) # mp_frames (vp_pub s) \<and> lookup (mp_sizes (vp_pub s')) t = Some f
       else r = FlowError \<and> mp_frames (vp_pub s') = mp_frames (vp_pub s)
         \<and> (\<exists>why. vp_pub s' = report_failure ''video_stream_capture_failed'' why
              (snd (video_capture (va_publication va) (va_captured va) f (vp_pub s)))))"
proof -
  have inv: "video_inv s" by (rule video_run_inv [OF assms(2) video_inv_create [OF assms(1)]])
  have pub: "publisher_inv (vp_pub s)" by (rule vt.reachable_good [OF video_publisher_runs [OF assms(1,2)]])
  have open_path: "pl_word (feed_pipeline (vp_feed s)) = 0" "\<not> feed_shutdown (vp_feed s)" "\<not> mp_closed (vp_pub s)"
    using inv assms(3,4) by (simp_all add: video_inv_def feed_ok_def)
  obtain c p where c: "video_capture (va_publication va) (va_captured va) f (vp_pub s) = (c, p)" by fastforce
  have "(r, s') = (case c of Inr _ \<Rightarrow> (FlowOk, s\<lparr>vp_pub := p\<rparr>)
      | Inl e \<Rightarrow> (FlowError, s\<lparr>vp_pub := report_failure ''video_stream_capture_failed'' (what e) p\<rparr>))"
    using assms(5) open_path c by (simp add: video_sample_calls beginUse_def)
  then show ?thesis using video_capture_outcome [OF pub open_path(3) c] c reports_keep(5) [of _ "[_]" p]
    by (cases c) auto
qed


section \<open>A camera\<close>

definition camera_spec :: stream_spec where
  "camera_spec = \<lparr>stream_key = ''cam'', track_name = ''cam'', spec_input = OtherInput \<lparr>oi_name = ''cam'', oi_source = ''v4l2src'', oi_transform = []\<rparr>,
     spec_options = default_options\<rparr>"

definition camera_env :: gst_env where
  "camera_env = \<lparr>ge_launch = cam_launch, ge_playing = True, ge_sync_failures = []\<rparr>"

definition camera_path :: video_path where
  "camera_path = (case video_create camera_env camera_spec (Inr ()) (Inr ()) of
     Some (Inr s) \<Rightarrow> s | _ \<Rightarrow> \<lparr>vp_pub = publisher_init [] [] 0, vp_feed = GstFeed (gst_stream_init [] []), vp_close = PathClosed\<rparr>)"

definition camera_answers :: video_answers where
  "camera_answers = \<lparr>va_publication = Inr 3, va_captured = Inr ()\<rparr>"

lemma camera_path_fields: "vp_close camera_path = Open" "isActive (feed_pipeline (vp_feed camera_path))" "mp_frames (vp_pub camera_path) = []"
  by code_simp+

lemma camera_path_created: "video_create camera_env camera_spec (Inr ()) (Inr ()) = Some (Inr camera_path)"
  using camera_path_fields(1) by (auto simp: camera_path_def split: option.splits sum.splits)


theorem video_frame_outcome_witness:
  "\<exists>t. mp_frames (vp_pub (snd (video_sample camera_answers (Some (Inr (640, 480))) None camera_path))) = [(t, (640, 480))]"
proof -
  obtain r s' where r: "video_sample camera_answers (Some (Inr (640, 480))) None camera_path = (r, s')" by fastforce
  have "va_captured camera_answers = Inr ()" "is_ok (va_publication camera_answers)" by (simp_all add: camera_answers_def)
  with video_frame_outcome [OF camera_path_created rtranclp.rtrancl_refl camera_path_fields(1,2) r] camera_path_fields(3)
  show ?thesis by (auto simp: r)
qed


end
