(* ===== verification/Stream_Logs.thy ===== *)
theory Stream_Logs
  imports Log_Lines Ros_Stream Subscription_Qos
begin

text \<open>
  The log lines of the ROS image stream (src/src/video/ros_stream.cpp): a changed layout, a changed codec and the
  resolved QoS, with the field renderers of src/src/utils/log_event.hpp for C strings, optional values and
  throttled warnings. The enum names come from magic_enum, which is an argument.
\<close>

section \<open>Model\<close>

text \<open>A C string, or null.\<close>

definition fieldIfNotEmpty_cstr :: "string \<Rightarrow> string option \<Rightarrow> string \<Rightarrow> string" where
  "fieldIfNotEmpty_cstr key value msg = (case value of Some (c # cs) \<Rightarrow> log_field key (c # cs) msg | _ \<Rightarrow> msg)"

definition fieldOr_cstr :: "string \<Rightarrow> string option \<Rightarrow> string \<Rightarrow> string \<Rightarrow> string" where
  "fieldOr_cstr key value fallback msg =
     msg @ '' '' @ key @ ''='' @ (case value of Some (c # cs) \<Rightarrow> c # cs | _ \<Rightarrow> fallback)"

definition fieldOr_value :: "('v \<Rightarrow> string) \<Rightarrow> string \<Rightarrow> 'v option \<Rightarrow> string \<Rightarrow> string \<Rightarrow> string" where
  "fieldOr_value print key value fallback msg =
     msg @ '' '' @ key @ ''='' @ (case value of Some v \<Rightarrow> print v | None \<Rightarrow> fallback)"

text \<open>\<open>logRawLayoutChange\<close>: the fields of the dimensions that changed.\<close>

definition changed_field :: "('v \<Rightarrow> string) \<Rightarrow> string \<Rightarrow> 'v \<Rightarrow> 'v \<Rightarrow> string \<Rightarrow> string" where
  "changed_field print key previous current msg =
     (if previous = current then msg else log_field key (print current) (log_field (''previous_'' @ key) (print previous) msg))"

definition logRawLayoutChange :: "(gst_video_format \<Rightarrow> string) \<Rightarrow> stream_spec \<Rightarrow> raw_layout \<Rightarrow> raw_layout \<Rightarrow> string res" where
  "logRawLayoutChange render spec previous layout =
     res_bind (requireRosInput spec) (\<lambda>input. Inr
       (changed_field render ''format'' (lay_format previous) (lay_format layout)
         (changed_field (\<lambda>w. nat_text (unat w)) ''stride'' (lay_stride previous) (lay_stride layout)
           (changed_field int_text ''height'' (lay_height previous) (lay_height layout)
             (changed_field int_text ''width'' (lay_width previous) (lay_width layout)
               (log_field ''topic'' (ri_topic input)
                 (log_field ''stream_key'' (stream_key spec) (log_event ''video_stream_input_layout_changed''))))))))"

text \<open>What \<open>onRawImage\<close> and \<open>onCompressedImage\<close> log about an image before they handle it.\<close>

definition raw_image_log :: "(gst_video_format \<Rightarrow> string) \<Rightarrow> stream_spec \<Rightarrow> ros_image \<Rightarrow> ros_stream \<Rightarrow> string res option" where
  "raw_image_log render spec img s =
     (if rs_shutdown s then None
      else (case (formatFromRosEncoding (img_encoding img), rs_layout s) of
              (Some f, Some previous) \<Rightarrow>
                if previous \<noteq> image_layout f img then Some (logRawLayoutChange render spec previous (image_layout f img)) else None
            | _ \<Rightarrow> None))"

definition codec_log :: "stream_spec \<Rightarrow> string \<Rightarrow> ros_stream \<Rightarrow> string res option" where
  "codec_log spec text s =
     (if rs_shutdown s then None
      else (case (parseCompressedCodec text, rs_codec s) of
              (Some codec, Some previous) \<Rightarrow>
                if previous \<noteq> codec then
                  Some (res_bind (requireRosInput spec) (\<lambda>input. Inr
                    (log_field ''codec'' codec (log_field ''previous_codec'' previous (log_field ''topic'' (ri_topic input)
                      (log_field ''stream_key'' (stream_key spec) (log_event ''video_stream_input_codec_changed'')))))))
                else None
            | _ \<Rightarrow> None))"

text \<open>\<open>logSubscriptionQos\<close>: silent when the fallback was used and nothing was mixed.\<close>

definition logSubscriptionQos ::
  "(resolution_source \<Rightarrow> string) \<Rightarrow> (reliability_policy \<Rightarrow> string) \<Rightarrow> (durability_policy \<Rightarrow> string) \<Rightarrow> stream_spec \<Rightarrow> resolved_qos \<Rightarrow> string res option" where
  "logSubscriptionQos source_name reliability_name durability_name spec q =
     (if rq_source q = Fallback \<and> \<not> mixed_reliability q \<and> \<not> mixed_durability q then None
      else Some (res_bind (requireRosInput spec) (\<lambda>input. Inr
        (fieldIfNotEmpty ''override_id'' (rq_override_id q)
          (fieldIf (mixed_durability q) ''mixed_durability'' ''true''
            (fieldIf (mixed_reliability q) ''mixed_reliability'' ''true''
              (fieldEnum durability_name ''durability'' (durability (rq_qos q))
                (fieldEnum reliability_name ''reliability'' (reliability (rq_qos q))
                  (fieldEnum source_name ''source'' (rq_source q)
                    (log_field ''publisher_count'' (nat_text (publisher_count q))
                      (log_field ''interface_type'' (ri_interface_type input)
                        (log_field ''resource'' (ri_topic input) (log_event ''subscription_qos_resolved'')))))))))))))"

section \<open>Numbers\<close>

lemma nat_text_digits: "list_all (\<lambda>c. 48 \<le> (of_char c :: nat) \<and> (of_char c :: nat) \<le> 57) (nat_text n)"
proof (induction n rule: nat_text.induct)
  case (1 n)
  then show ?case by (subst nat_text.simps) (auto simp: of_char_of)
qed

lemma digits_safe:
  assumes "list_all (\<lambda>c. 48 \<le> (of_char c :: nat) \<and> (of_char c :: nat) \<le> 57) v"
  shows "safe_plain v"
proof -
  have d: "c \<noteq> CHR '' ''" "c \<noteq> CHR 0x22" "32 \<le> (of_char c :: nat)" if "48 \<le> (of_char c :: nat) \<and> (of_char c :: nat) \<le> 57" for c using that by auto
  have "list_all (\<lambda>c. c \<noteq> CHR '' '' \<and> 32 \<le> (of_char c :: nat)) v" using assms by (rule list.pred_mono_strong) (use d in blast)
  moreover have "v = [] \<or> hd v \<noteq> CHR 0x22" using assms d(2) by (cases v) auto
  ultimately show ?thesis by (simp add: safe_plain_def)
qed

lemma numbers_safe: "safe_plain (nat_text n)" "safe_plain (int_text i)"
proof -
  show n: "safe_plain (nat_text n)" for n by (rule digits_safe [OF nat_text_digits])
  show "safe_plain (int_text i)" using n [of "nat i"] n [of "nat (- i)"] by (simp add: int_text_def safe_plain_def)
qed

section \<open>Lines\<close>

text \<open>The fields of one dimension.\<close>

definition change_items :: "('v \<Rightarrow> string) \<Rightarrow> string \<Rightarrow> 'v \<Rightarrow> 'v \<Rightarrow> (string \<times> string) list" where
  "change_items print key previous current =
     (if previous = current then [] else [(''previous_'' @ key, print previous), (key, print current)])"

lemma changed_field_line:
  "changed_field print key a b (log_line name items) = log_line name (items @ map (\<lambda>(k, v). Plain k v) (change_items print key a b))"
  by (simp add: changed_field_def change_items_def log_line_calls)

lemma change_items_safe:
  assumes "safe_key key" "\<And>v. safe_plain (print v)"
  shows "list_all safe_item (map (\<lambda>(k, v). Plain k v) (change_items print key a b))"
proof -
  have "safe_key (''previous_'' @ key)" using assms(1) by (simp add: safe_key_def)
  with assms show ?thesis by (simp add: change_items_def)
qed

lemma view_plain: "map item_view (map (\<lambda>(k, v). Plain k v) kvs) = kvs"
  by (induction kvs) auto

section \<open>Properties\<close>

text \<open>
  The line about a changed layout is one line and reads back as the stream, its topic and the old and new value
  of exactly the dimensions that changed.
\<close>

theorem layout_change_reads_back:
  assumes "requireRosInput spec = Inr input" "safe_plain (stream_key spec)" "safe_plain (ri_topic input)" "\<And>f. safe_plain (render f)"
  shows "\<exists>line. logRawLayoutChange render spec previous layout = Inr line \<and> printable line
    \<and> parse_line line = Some (''video_stream_input_layout_changed'',
        [(''stream_key'', stream_key spec), (''topic'', ri_topic input)]
        @ change_items int_text ''width'' (lay_width previous) (lay_width layout)
        @ change_items int_text ''height'' (lay_height previous) (lay_height layout)
        @ change_items (\<lambda>w. nat_text (unat w)) ''stride'' (lay_stride previous) (lay_stride layout)
        @ change_items render ''format'' (lay_format previous) (lay_format layout))"
proof -
  let ?kvs = "[(''stream_key'', stream_key spec), (''topic'', ri_topic input)]
        @ change_items int_text ''width'' (lay_width previous) (lay_width layout)
        @ change_items int_text ''height'' (lay_height previous) (lay_height layout)
        @ change_items (\<lambda>w. nat_text (unat w)) ''stride'' (lay_stride previous) (lay_stride layout)
        @ change_items render ''format'' (lay_format previous) (lay_format layout)"
  let ?items = "map (\<lambda>(k, v). Plain k v) ?kvs"
  have line: "logRawLayoutChange render spec previous layout = Inr (log_line ''video_stream_input_layout_changed'' ?items)"
    by (simp add: logRawLayoutChange_def assms(1) log_line_calls changed_field_line)
  have name: "safe_plain ''video_stream_input_layout_changed''" by code_simp
  have "safe_key ''stream_key''" "safe_key ''topic''" "safe_key ''width''" "safe_key ''height''" "safe_key ''stride''" "safe_key ''format''" by code_simp+
  then have safe: "list_all safe_item ?items" using assms(2-4) by (simp add: change_items_safe numbers_safe)
  have "parse_line (log_line ''video_stream_input_layout_changed'' ?items) = Some (''video_stream_input_layout_changed'', ?kvs)"
    by (simp only: parse_log_line [OF name safe] view_plain)
  with line line_printable [OF name safe] show ?thesis by blast
qed

text \<open>
  A layout change is logged exactly when an open stream gets a supported image whose layout differs from the one in use;
  such an image is never pushed into the running pipeline.
\<close>

theorem layout_change_logged:
  assumes "formatFromRosEncoding (img_encoding img) = Some f" "\<not> rs_shutdown s" "rs_layout s = Some previous" "onRawImage env img s = Some s'"
  shows "(raw_image_log render spec img s \<noteq> None \<longleftrightarrow> previous \<noteq> image_layout f img)
    \<and> (raw_image_log render spec img s \<noteq> None \<longrightarrow>
        (\<exists>r t. startRawPipelineLocked (re_gst env) (image_layout f img) (stop_pipeline (resetPipelineStateLocked s)) = Some (r, t)
          \<and> s' = (case r of Inl e \<Rightarrow> image_failed e t | Inr u \<Rightarrow> pushRawLocked env (image_layout f img) t)))"
proof -
  let ?l = "image_layout f img"
  have log: "raw_image_log render spec img s \<noteq> None \<longleftrightarrow> previous \<noteq> ?l" using assms(1-3) by (simp add: raw_image_log_def)
  have "\<exists>r t. startRawPipelineLocked (re_gst env) ?l (stop_pipeline (resetPipelineStateLocked s)) = Some (r, t)
      \<and> s' = (case r of Inl e \<Rightarrow> image_failed e t | Inr u \<Rightarrow> pushRawLocked env ?l t)" if "previous \<noteq> ?l"
  proof (cases "startRawPipelineLocked (re_gst env) ?l (stop_pipeline (resetPipelineStateLocked s))")
    case None
    then show ?thesis using assms that by (simp add: onRawImage_def Let_def)
  next
    case (Some x)
    obtain r t where x: "x = (r, t)" by fastforce
    have "s' = (case r of Inl e \<Rightarrow> image_failed e t | Inr u \<Rightarrow> pushRawLocked env ?l t)"
      using assms that Some x by (cases r) (simp_all add: onRawImage_def Let_def)
    with Some x show ?thesis by blast
  qed
  with log show ?thesis by blast
qed

section \<open>A camera that is turned\<close>

definition log_spec :: stream_spec where
  "log_spec = \<lparr>stream_key = ''cam'', track_name = ''cam'', spec_input = RosInput \<lparr>ri_topic = ''/cam'', ri_interface_type = ''sensor_msgs/msg/Image'',
     ri_ingest_mode = RawImage, ri_rule_id = ''r'', ri_transform = []\<rparr>, spec_options = default_options\<rparr>"

theorem layout_change_reads_back_witness:
  "\<exists>line. logRawLayoutChange format_to_string log_spec \<lparr>lay_width = 480, lay_height = 640, lay_format = RGB, lay_stride = 1920\<rparr>
       \<lparr>lay_width = 640, lay_height = 640, lay_format = RGB, lay_stride = 1920\<rparr> = Inr line
     \<and> parse_line line = Some (''video_stream_input_layout_changed'',
         [(''stream_key'', ''cam''), (''topic'', ''/cam''), (''previous_width'', ''480''), (''width'', ''640'')])"
proof -
  have r: "requireRosInput log_spec = Inr \<lparr>ri_topic = ''/cam'', ri_interface_type = ''sensor_msgs/msg/Image'', ri_ingest_mode = RawImage,
      ri_rule_id = ''r'', ri_transform = []\<rparr>" by (simp add: requireRosInput_def log_spec_def)
  have k: "safe_plain (stream_key log_spec)" by code_simp
  have t: "safe_plain (ri_topic \<lparr>ri_topic = ''/cam'', ri_interface_type = ''sensor_msgs/msg/Image'', ri_ingest_mode = RawImage,
      ri_rule_id = ''r'', ri_transform = []\<rparr>)" by code_simp
  have f: "safe_plain (format_to_string f)" for f by (cases f) (simp_all add: safe_plain_def)
  have n: "int_text 480 = ''480''" "int_text 640 = ''640''" by code_simp+
  show ?thesis
    using layout_change_reads_back [where render = format_to_string, OF r k t f, where previous = "\<lparr>lay_width = 480, lay_height = 640, lay_format = RGB, lay_stride = 1920\<rparr>"
        and layout = "\<lparr>lay_width = 640, lay_height = 640, lay_format = RGB, lay_stride = 1920\<rparr>"]
    by (auto simp: change_items_def n log_spec_def)
qed

end
