(* ===== verification/Lease_Logs.thy ===== *)
theory Lease_Logs
  imports Lease_Properties Caches Stream_Logs
begin

text \<open>
  What the lease manager logs about heartbeats (src/src/subscription_lease_manager.cpp): conflicts over a session and
  unsupported entries, each behind an event throttle, and the lines about rejected and dropped heartbeats. The manager's state is that of
  \<open>Lease_Manager\<close>; this theory adds the two throttles and the lines. Lines that go through rclcpp's own throttle are only
  given as texts.
\<close>

section \<open>Model\<close>

definition kLogThrottle :: time where
  "kLogThrottle = 5000000000"

text \<open>A line is kept with the time and the count it reports.\<close>

record lease_logs =
  conflict_throttle :: event_throttle
  unsupported_kind_throttle :: event_throttle
  conflict_lines :: "(time \<times> nat \<times> string) list"
  unsupported_lines :: "(time \<times> nat \<times> string) list"

definition lease_logs_init :: lease_logs where
  "lease_logs_init = \<lparr>conflict_throttle = throttle_init kLogThrottle, unsupported_kind_throttle = throttle_init kLogThrottle,
     conflict_lines = [], unsupported_lines = []\<rparr>"

definition rejected_heartbeat_line :: "string \<Rightarrow> exn \<Rightarrow> string" where
  "rejected_heartbeat_line requester e =
     log_field ''error'' (what e)
       ((case e of Validation_error field msg \<Rightarrow> log_field ''request_field'' field | _ \<Rightarrow> (\<lambda>msg. msg))
         (fieldOr ''requester_identity'' requester ''<unknown>'' (log_field ''reason'' ''invalid_heartbeat'' (log_event ''livekit_packet_rejected''))))"

definition dropped_heartbeat_line :: "string option \<Rightarrow> string" where
  "dropped_heartbeat_line sid =
     fieldOr_opt ''session_id'' sid ''<absent>''
       (log_field ''reason'' ''anonymous_requester_without_resolvable_client_session'' (log_event ''heartbeat_dropped''))"

definition conflict_line :: "string \<Rightarrow> string option \<Rightarrow> string \<Rightarrow> nat \<Rightarrow> string" where
  "conflict_line requester sid existing pending =
     log_field ''count'' (nat_text pending)
       (log_field ''existing_requester_identity'' existing
         (fieldOr_opt ''session_id'' sid ''<absent>''
           (log_field ''requester_identity'' requester (log_event ''heartbeat_client_session_conflict''))))"

text \<open>The logging of \<open>resolveIdentity\<close>: another identity's session.\<close>

definition log_conflict :: "time \<Rightarrow> string \<Rightarrow> string option \<Rightarrow> string \<Rightarrow> lease_logs \<Rightarrow> lease_logs" where
  "log_conflict now requester sid existing L =
     (let (pending, t) = record_event now (conflict_throttle L); L1 = L\<lparr>conflict_throttle := t\<rparr> in
      if pending > 0 then L1\<lparr>conflict_lines := (now, pending, conflict_line requester sid existing pending) # conflict_lines L1\<rparr> else L1)"

definition session_conflict :: "string \<Rightarrow> string option \<Rightarrow> lease_manager \<Rightarrow> string option" where
  "session_conflict requester sid m =
     (if requester = [] then None
      else (case sid of
              None \<Rightarrow> None
            | Some i \<Rightarrow>
                (case lookup (session_leases m) i of
                   Some l \<Rightarrow> if sl_requester l \<noteq> requester then Some (sl_requester l) else None
                 | None \<Rightarrow> None)))"

text \<open>The logging of \<open>appendUnsupportedStatus\<close>.\<close>

definition log_unsupported :: "time \<Rightarrow> string \<Rightarrow> unsupported_subscription \<Rightarrow> lease_logs \<Rightarrow> lease_logs" where
  "log_unsupported now requester u L =
     (let (pending, t) = record_event now (unsupported_kind_throttle L); L1 = L\<lparr>unsupported_kind_throttle := t\<rparr> in
      if pending > 0 then
        L1\<lparr>unsupported_lines := (now, pending, unsupported_line (unsup_kind u) (unsup_name u) requester (pending > 1) (nat_text pending))
             # unsupported_lines L1\<rparr>
      else L1)"

text \<open>
  The logging of one heartbeat, in the order of \<open>handleHeartbeat\<close>. Each \<open>record\<close> reads the clock itself: \<open>clock i\<close> is
  the reading of the \<open>i\<close>-th one.
\<close>

fun log_unsupported_all :: "string \<Rightarrow> (nat \<Rightarrow> time) \<Rightarrow> nat \<Rightarrow> unsupported_subscription list \<Rightarrow> lease_logs \<Rightarrow> lease_logs" where
  "log_unsupported_all requester clock i [] L = L"
| "log_unsupported_all requester clock i (u # us) L = log_unsupported_all requester clock (Suc i) us (log_unsupported (clock i) requester u L)"

definition log_identity :: "(nat \<Rightarrow> time) \<Rightarrow> string \<Rightarrow> heartbeat \<Rightarrow> lease_manager \<Rightarrow> lease_logs \<Rightarrow> lease_logs" where
  "log_identity clock requester0 hb m L =
     (case session_conflict requester0 (session_id hb) m of
        None \<Rightarrow> L
      | Some existing \<Rightarrow> log_conflict (clock 0) requester0 (session_id hb) existing L)"

text \<open>The report \<open>handleHeartbeat\<close> creates, if it gets that far.\<close>

definition heartbeat_report :: "lm_config \<Rightarrow> lm_env \<Rightarrow> string \<Rightarrow> heartbeat \<Rightarrow> lease_manager \<Rightarrow> (string \<times> status_report) option" where
  "heartbeat_report cfg env requester0 hb m =
     (case resolveIdentity requester0 (session_id hb) m of
        None \<Rightarrow> None
      | Some requester \<Rightarrow>
          (let expiry = le_now env + cfg_lease_duration cfg in
           case renewSessionLease requester (session_id hb) expiry m of
             Inl e \<Rightarrow> None
           | Inr m1 \<Rightarrow> Some (requester, fst (createStatusReport cfg env hb requester expiry m1))))"

definition heartbeat_log ::
  "(nat \<Rightarrow> time) \<Rightarrow> lm_config \<Rightarrow> lm_env \<Rightarrow> string \<Rightarrow> heartbeat \<Rightarrow> lease_manager \<Rightarrow> lease_logs \<Rightarrow> lease_logs" where
  "heartbeat_log clock cfg env requester0 hb m L =
     (let L1 = log_identity clock requester0 hb m L in
      case heartbeat_report cfg env requester0 hb m of
        None \<Rightarrow> L1
      | Some (requester, report) \<Rightarrow> log_unsupported_all requester clock 0 (unsupported hb) L1)"

section \<open>Runs\<close>

text \<open>
  The operations of the manager with its logs: the state, the logs, the number of conflicting heartbeats so far and the
  reports created so far. The clock is the steady clock, which is never negative.
\<close>

inductive logged_run :: "lm_config \<Rightarrow> lease_manager \<Rightarrow> lease_logs \<Rightarrow> nat \<Rightarrow> status_report list \<Rightarrow> bool" for cfg where
  Start: "logged_run cfg m lease_logs_init 0 []"
| Heartbeat:
    "\<lbrakk>logged_run cfg m L c rs; handleHeartbeat cfg env requester hb m = Inr m'; \<forall>i. clock i \<ge> 0\<rbrakk>
     \<Longrightarrow> logged_run cfg m' (heartbeat_log clock cfg env requester hb m L)
           (c + (if session_conflict requester (session_id hb) m = None then 0 else 1))
           (case heartbeat_report cfg env requester hb m of None \<Rightarrow> rs | Some (r, report) \<Rightarrow> report # rs)"
| Prune_timer: "logged_run cfg m L c rs \<Longrightarrow> logged_run cfg (pruneExpiredLeases env m) L c rs"
| Message: "logged_run cfg m L c rs \<Longrightarrow> logged_run cfg (deliver k now b m) L c rs"
| Echo: "logged_run cfg m L c rs \<Longrightarrow> logged_run cfg (snd (dispatchEchoOnce env kind name requester m)) L c rs"
| Shut_down: "logged_run cfg m L c rs \<Longrightarrow> logged_run cfg (lm_shutdown_op env m) L c rs"

text \<open>What the client was told: the entries of a report that answer an unsupported kind.\<close>

fun answers_unsupported :: "status_entry \<Rightarrow> bool" where
  "answers_unsupported (Active st) = False"
| "answers_unsupported (Failed e) = (reason e = UnsupportedKind)"

definition told :: "status_report list \<Rightarrow> nat" where
  "told rs = sum_list (map (\<lambda>rep. length (filter answers_unsupported (statuses rep))) rs)"

definition counts :: "(time \<times> nat \<times> string) list \<Rightarrow> nat" where
  "counts ls = sum_list (map (\<lambda>(t, n, line). n) ls)"

fun spaced :: "(time \<times> nat \<times> string) list \<Rightarrow> bool" where
  "spaced (x # y # ls) = (fst y + kLogThrottle \<le> fst x \<and> spaced (y # ls))"
| "spaced ls = True"

section \<open>Lemmas\<close>

text \<open>The state of a throttle beside the lines it let through (newest first).\<close>

definition account :: "event_throttle \<Rightarrow> (time \<times> nat \<times> string) list \<Rightarrow> nat \<Rightarrow> bool" where
  "account t ls events \<longleftrightarrow>
     counts ls + throttle_pending t = events \<and> throttle_interval t = kLogThrottle \<and> spaced ls
     \<and> (if ls = [] then next_allowed_at t = 0 \<and> throttle_pending t = 0
        else next_allowed_at t = fst (hd ls) + kLogThrottle \<and> next_allowed_at t > 0)"

lemma account_event:
  assumes "account t ls events" "now \<ge> 0" "record_event now t = (n, t')"
  shows "account t' (if n > 0 then (now, n, line) # ls else ls) (Suc events)"
proof (cases ls)
  case Nil
  with assms show ?thesis by (auto simp: account_def record_event_def Let_def counts_def kLogThrottle_def)
next
  case (Cons x xs)
  with assms show ?thesis
    by (auto simp: account_def record_event_def Let_def counts_def kLogThrottle_def split: if_splits)
qed

lemma log_conflict_account:
  assumes "account (conflict_throttle L) (conflict_lines L) c" "now \<ge> 0"
  shows "account (conflict_throttle (log_conflict now r sid ex L)) (conflict_lines (log_conflict now r sid ex L)) (Suc c)"
    "unsupported_kind_throttle (log_conflict now r sid ex L) = unsupported_kind_throttle L"
    "unsupported_lines (log_conflict now r sid ex L) = unsupported_lines L"
  using account_event [OF assms, of "fst (record_event now (conflict_throttle L))" "snd (record_event now (conflict_throttle L))"
      "conflict_line r sid ex (fst (record_event now (conflict_throttle L)))"]
  by (auto simp: log_conflict_def Let_def case_prod_beta)

lemma log_unsupported_account:
  assumes "account (unsupported_kind_throttle L) (unsupported_lines L) c" "now \<ge> 0"
  shows "account (unsupported_kind_throttle (log_unsupported now r u L)) (unsupported_lines (log_unsupported now r u L)) (Suc c)"
    "conflict_throttle (log_unsupported now r u L) = conflict_throttle L"
    "conflict_lines (log_unsupported now r u L) = conflict_lines L"
  using account_event [OF assms, of "fst (record_event now (unsupported_kind_throttle L))" "snd (record_event now (unsupported_kind_throttle L))"
      "unsupported_line (unsup_kind u) (unsup_name u) r (fst (record_event now (unsupported_kind_throttle L)) > 1)
         (nat_text (fst (record_event now (unsupported_kind_throttle L))))"]
  by (auto simp: log_unsupported_def Let_def case_prod_beta)

lemma log_unsupported_all_account:
  assumes "account (unsupported_kind_throttle L) (unsupported_lines L) c" "\<forall>i. clock i \<ge> 0"
  shows "account (unsupported_kind_throttle (log_unsupported_all r clock i us L)) (unsupported_lines (log_unsupported_all r clock i us L))
      (c + length us)
    \<and> conflict_throttle (log_unsupported_all r clock i us L) = conflict_throttle L
    \<and> conflict_lines (log_unsupported_all r clock i us L) = conflict_lines L"
  using assms
proof (induction us arbitrary: i L c)
  case (Cons u us)
  have now: "clock i \<ge> 0" using Cons.prems(2) by blast
  note * = log_unsupported_account [OF Cons.prems(1) now, of r u]
  from Cons.IH [OF *(1) Cons.prems(2)] *(2,3) show ?case by simp
qed simp

lemma demand_entry_supported: "\<not> answers_unsupported (fst (appendDemandStatus cfg env r expiry d m))"
  by (auto simp: appendDemandStatus_def error_entry_def split: sum.splits prod.splits)

lemma demand_statuses_supported: "x \<in> set (fst (demand_statuses cfg env r expiry ds m)) \<Longrightarrow> \<not> answers_unsupported x"
proof (induction ds arbitrary: m)
  case (Cons d ds)
  then show ?case using demand_entry_supported [of cfg env r expiry d m] by (auto simp: Let_def case_prod_beta)
qed simp

lemma heartbeat_report_statuses:
  assumes "heartbeat_report cfg env r0 hb m = Some (r, report)"
  obtains sts where "statuses report = sts @ map appendUnsupportedStatus (unsupported hb)" "\<forall>x \<in> set sts. \<not> answers_unsupported x"
  using assms demand_statuses_supported
  by (fastforce simp: heartbeat_report_def Let_def createStatusReport_def case_prod_beta split: option.splits sum.splits)

lemma told_Cons:
  assumes "heartbeat_report cfg env r0 hb m = Some (r, report)"
  shows "told (report # rs) = told rs + length (unsupported hb)"
proof -
  obtain sts where sts: "statuses report = sts @ map appendUnsupportedStatus (unsupported hb)" "\<forall>x \<in> set sts. \<not> answers_unsupported x"
    using heartbeat_report_statuses [OF assms] .
  have "filter answers_unsupported (map appendUnsupportedStatus (unsupported hb)) = map appendUnsupportedStatus (unsupported hb)"
    by (auto simp: filter_id_conv appendUnsupportedStatus_def)
  with sts show ?thesis by (simp add: told_def)
qed

lemma log_identity_account:
  assumes "account (conflict_throttle L) (conflict_lines L) c" "\<forall>i. clock i \<ge> 0"
  shows "account (conflict_throttle (log_identity clock r hb m L)) (conflict_lines (log_identity clock r hb m L))
      (c + (if session_conflict r (session_id hb) m = None then 0 else 1))
    \<and> unsupported_kind_throttle (log_identity clock r hb m L) = unsupported_kind_throttle L
    \<and> unsupported_lines (log_identity clock r hb m L) = unsupported_lines L"
proof (cases "session_conflict r (session_id hb) m")
  case (Some ex)
  have "clock 0 \<ge> 0" using assms(2) by blast
  with Some log_conflict_account [OF assms(1), of "clock 0" r "session_id hb" ex] show ?thesis by (simp add: log_identity_def)
qed (use assms in \<open>simp add: log_identity_def\<close>)

definition logs_account :: "lease_logs \<Rightarrow> nat \<Rightarrow> status_report list \<Rightarrow> bool" where
  "logs_account L c rs \<longleftrightarrow> account (conflict_throttle L) (conflict_lines L) c
     \<and> account (unsupported_kind_throttle L) (unsupported_lines L) (told rs)"

lemma logged_run_account: "logged_run cfg m L c rs \<Longrightarrow> logs_account L c rs"
proof (induction rule: logged_run.induct)
  case (Start m)
  show ?case by (simp add: logs_account_def account_def lease_logs_init_def throttle_init_def counts_def told_def)
next
  case (Heartbeat m L c rs env r hb m' clock)
  let ?L1 = "log_identity clock r hb m L"
  from Heartbeat.IH have a: "account (conflict_throttle L) (conflict_lines L) c"
    and b: "account (unsupported_kind_throttle L) (unsupported_lines L) (told rs)" by (simp_all add: logs_account_def)
  note one = log_identity_account [OF a Heartbeat.hyps(3), of r hb m]
  show ?case
  proof (cases "heartbeat_report cfg env r hb m")
    case None
    with one b show ?thesis by (simp add: heartbeat_log_def logs_account_def)
  next
    case (Some x)
    obtain q report where x: "x = (q, report)" by fastforce
    from one b have "account (unsupported_kind_throttle ?L1) (unsupported_lines ?L1) (told rs)" by simp
    from log_unsupported_all_account [OF this Heartbeat.hyps(3), of q 0 "unsupported hb"] one Some x
      told_Cons [of cfg env r hb m q report rs]
    show ?thesis by (simp add: heartbeat_log_def logs_account_def)
  qed
qed

text \<open>Every line about an unsupported entry repeats an entry of a report.\<close>

definition line_told :: "status_report list \<Rightarrow> time \<times> nat \<times> string \<Rightarrow> bool" where
  "line_told rs x \<longleftrightarrow> (\<exists>rep \<in> set rs. \<exists>e r. Failed e \<in> set (statuses rep) \<and> reason e = UnsupportedKind
     \<and> snd (snd x) = unsupported_line (raw_kind e) (raw_name e) r (fst (snd x) > 1) (nat_text (fst (snd x))))"

lemma log_unsupported_all_lines:
  assumes "x \<in> set (unsupported_lines (log_unsupported_all r clock i us L))"
  shows "x \<in> set (unsupported_lines L)
    \<or> (\<exists>u \<in> set us. snd (snd x) = unsupported_line (unsup_kind u) (unsup_name u) r (fst (snd x) > 1) (nat_text (fst (snd x))))"
  using assms
proof (induction us arbitrary: i L)
  case (Cons u us)
  then have "x \<in> set (unsupported_lines (log_unsupported_all r clock (Suc i) us (log_unsupported (clock i) r u L)))" by simp
  from Cons.IH [OF this] show ?case
    by (auto simp: log_unsupported_def Let_def case_prod_beta split: if_splits)
qed simp

lemma log_identity_lines: "unsupported_lines (log_identity clock r hb m L) = unsupported_lines L"
  by (auto simp: log_identity_def log_conflict_def Let_def case_prod_beta split: option.split)

lemma unsupported_entry:
  obtains e where "appendUnsupportedStatus u = Failed e" "raw_kind e = unsup_kind u" "raw_name e = unsup_name u" "reason e = UnsupportedKind"
  by (simp add: appendUnsupportedStatus_def)

lemma report_entry_told:
  assumes "heartbeat_report cfg env r0 hb m = Some (q, report)" "u \<in> set (unsupported hb)"
    "snd (snd x) = unsupported_line (unsup_kind u) (unsup_name u) r (fst (snd x) > 1) (nat_text (fst (snd x)))"
  shows "line_told (report # rs) x"
proof -
  obtain sts where "statuses report = sts @ map appendUnsupportedStatus (unsupported hb)"
    using heartbeat_report_statuses [OF assms(1)] .
  with assms(2) have "appendUnsupportedStatus u \<in> set (statuses report)" by simp
  moreover obtain e where "appendUnsupportedStatus u = Failed e" "raw_kind e = unsup_kind u" "raw_name e = unsup_name u"
    "reason e = UnsupportedKind" using unsupported_entry .
  ultimately show ?thesis using assms(3) unfolding line_told_def by (intro bexI [of _ report] exI [of _ e] exI [of _ r]) simp_all
qed

lemma line_told_mono: "line_told rs x \<Longrightarrow> line_told (report # rs) x"
  by (auto simp: line_told_def)

lemma logged_run_lines: "logged_run cfg m L c rs \<Longrightarrow> x \<in> set (unsupported_lines L) \<Longrightarrow> line_told rs x"
proof (induction rule: logged_run.induct)
  case (Heartbeat m L c rs env r hb m' clock)
  show ?case
  proof (cases "heartbeat_report cfg env r hb m")
    case None
    with Heartbeat.prems Heartbeat.IH show ?thesis by (simp add: heartbeat_log_def log_identity_lines)
  next
    case (Some y)
    obtain q report where y: "y = (q, report)" by fastforce
    with Some Heartbeat.prems have "x \<in> set (unsupported_lines (log_unsupported_all q clock 0 (unsupported hb) (log_identity clock r hb m L)))"
      by (simp add: heartbeat_log_def)
    from log_unsupported_all_lines [OF this] have "x \<in> set (unsupported_lines L) \<or> line_told (report # rs) x"
      using report_entry_told [OF Some [unfolded y]] unfolding log_identity_lines by blast
    with Heartbeat.IH Some y show ?thesis by (auto intro: line_told_mono)
  qed
qed (auto simp: lease_logs_init_def)

text \<open>A heartbeat with two entries of an unknown kind.\<close>

definition odd_hb :: heartbeat where
  "odd_hb = \<lparr>session_id = None, demands = [],
     unsupported = [\<lparr>unsup_kind = ''lidar'', unsup_name = Some ''top''\<rparr>, \<lparr>unsup_kind = ''lidar'', unsup_name = None\<rparr>]\<rparr>"

definition odd_logs :: lease_logs where
  "odd_logs = heartbeat_log (\<lambda>i. 7) sample_cfg (robot_env 0) ''alice'' odd_hb lm_init lease_logs_init"

lemma odd_run: "\<exists>m r. logged_run sample_cfg m odd_logs 0 [r] \<and> statuses r = map appendUnsupportedStatus (unsupported odd_hb)"
proof -
  have report: "map_option (statuses \<circ> snd) (heartbeat_report sample_cfg (robot_env 0) ''alice'' odd_hb lm_init)
      = Some (map appendUnsupportedStatus (unsupported odd_hb))" by code_simp
  then obtain q r where r: "heartbeat_report sample_cfg (robot_env 0) ''alice'' odd_hb lm_init = Some (q, r)"
    "statuses r = map appendUnsupportedStatus (unsupported odd_hb)" by auto
  have id: "resolveIdentity ''alice'' (session_id odd_hb) lm_init = Some ''alice''" by code_simp
  have "\<exists>m. handleHeartbeat sample_cfg (robot_env 0) ''alice'' odd_hb lm_init = Inr m"
    using heartbeat_ok [OF lm_inv_init _ id] by (fastforce simp: odd_hb_def)
  then obtain m where m: "handleHeartbeat sample_cfg (robot_env 0) ''alice'' odd_hb lm_init = Inr m" by blast
  have "session_conflict ''alice'' (session_id odd_hb) lm_init = None" by code_simp
  with logged_run.Heartbeat [OF logged_run.Start m, of "\<lambda>i. 7"] r show ?thesis by (auto simp: odd_logs_def)
qed

section \<open>Properties\<close>

text \<open>
  over any run of heartbeats, pruning, messages, echoes and shutdown, the counts on the lines about unsupported
  entries, with what the throttle still holds, are the number of unsupported entries the status reports answered; the counts on
  the conflict lines are the number of conflicting heartbeats; lines of one kind are at least the throttle's interval apart,
  and every line about an unsupported entry repeats the kind and the name of an entry of a report.
\<close>

theorem operator_view_matches:
  assumes "logged_run cfg m L c rs"
  shows "counts (unsupported_lines L) + throttle_pending (unsupported_kind_throttle L) = told rs
    \<and> counts (conflict_lines L) + throttle_pending (conflict_throttle L) = c
    \<and> spaced (unsupported_lines L) \<and> spaced (conflict_lines L)
    \<and> (\<forall>x \<in> set (unsupported_lines L). line_told rs x)"
  using logged_run_account [OF assms] logged_run_lines [OF assms] by (auto simp: logs_account_def account_def)

theorem operator_view_matches_witness:
  "counts (unsupported_lines odd_logs) + throttle_pending (unsupported_kind_throttle odd_logs) = 2
   \<and> map (\<lambda>(t, n, line). n) (unsupported_lines odd_logs) = [1]"
proof -
  obtain m r where r: "logged_run sample_cfg m odd_logs 0 [r]" "statuses r = map appendUnsupportedStatus (unsupported odd_hb)"
    using odd_run by blast
  have "told [r] = 2" using r(2) by (simp add: told_def odd_hb_def appendUnsupportedStatus_def)
  moreover have "map (\<lambda>(t, n, line). n) (unsupported_lines odd_logs) = [1]" by code_simp
  ultimately show ?thesis using operator_view_matches [OF r(1)] by simp
qed

end
