(* ===== verification/Prune_Timer.thy ===== *)
theory Prune_Timer
  imports Lease_Properties
begin

text \<open>
  The prune timer of src/src/subscription_lease_manager.cpp: the runtime starts it on the new lease manager, every firing
  submits a prune to the executor queue, and shutdown releases it. Time passes explicitly, so that the theory can say how long
  an expired lease can stay.
\<close>

section \<open>Model\<close>

definition kPruneInterval :: time where
  "kPruneInterval = 1000000000"

text \<open>
  \<open>pw_due\<close> is the timer's next call, if there is a timer; \<open>pw_queued\<close> holds the submission times of the prunes the queue
  has not run; \<open>pw_accepts\<close> says whether the queue takes work; \<open>pw_last\<close> records when the last prune ran.
\<close>

record prune_world =
  pw_now :: time
  pw_manager :: lease_manager
  pw_due :: "time option"
  pw_queued :: "time list"
  pw_accepts :: bool
  pw_last :: time

definition startPruneTimer :: "prune_world \<Rightarrow> prune_world" where
  "startPruneTimer w = w\<lparr>pw_due := Some (pw_now w + kPruneInterval)\<rparr>"

definition prune_world_init :: "time \<Rightarrow> prune_world" where
  "prune_world_init t = startPruneTimer
     \<lparr>pw_now = t, pw_manager = lm_init, pw_due = None, pw_queued = [], pw_accepts = True, pw_last = t\<rparr>"

text \<open>The timer's callback; the submitter drops the work of a queue that is shut down.\<close>

definition prune_submit :: "prune_world \<Rightarrow> prune_world" where
  "prune_submit w = (if pw_accepts w then w\<lparr>pw_queued := pw_queued w @ [pw_now w]\<rparr> else w)"

definition prune_run :: "lm_env \<Rightarrow> prune_world \<Rightarrow> prune_world" where
  "prune_run env w =
     w\<lparr>pw_queued := tl (pw_queued w), pw_manager := pruneExpiredLeases env (pw_manager w), pw_last := pw_now w\<rparr>"

definition prune_shutdown :: "lm_env \<Rightarrow> prune_world \<Rightarrow> prune_world" where
  "prune_shutdown env w = w\<lparr>pw_due := None, pw_manager := lm_shutdown_op env (pw_manager w)\<rparr>"

text \<open>
  A wall timer's next call is set between the call and one period after it, which is what rcl documents. \<open>late\<close> bounds how long the executor leaves a due timer
  or the first prune of its queue waiting: time does not pass beyond that.
\<close>

definition on_time :: "time \<Rightarrow> time \<Rightarrow> prune_world \<Rightarrow> bool" where
  "on_time late t w \<longleftrightarrow> (case pw_due w of None \<Rightarrow> True | Some d \<Rightarrow> t \<le> d + late) \<and> (pw_queued w = [] \<or> t \<le> hd (pw_queued w) + late)"

inductive pwstep :: "lm_config \<Rightarrow> time \<Rightarrow> prune_world \<Rightarrow> prune_world \<Rightarrow> bool" for cfg late where
  Advance: "pw_now w \<le> t \<Longrightarrow> on_time late t w \<Longrightarrow> pwstep cfg late w (w\<lparr>pw_now := t\<rparr>)"
| Fire:
    "pw_due w = Some d \<Longrightarrow> d \<le> pw_now w \<Longrightarrow> pw_now w \<le> next \<Longrightarrow> next \<le> pw_now w + kPruneInterval
     \<Longrightarrow> pwstep cfg late w (prune_submit (w\<lparr>pw_due := Some next\<rparr>))"
| Run: "pw_queued w \<noteq> [] \<Longrightarrow> le_now env = pw_now w \<Longrightarrow> pwstep cfg late w (prune_run env w)"
| Heartbeat:
    "le_now env = pw_now w \<Longrightarrow> handleHeartbeatPayload parse cfg env requester payload (pw_manager w) = Inr m
     \<Longrightarrow> pwstep cfg late w (w\<lparr>pw_manager := m\<rparr>)"
| Message: "pwstep cfg late w (w\<lparr>pw_manager := deliver k now b (pw_manager w)\<rparr>)"
| Echo: "pwstep cfg late w (w\<lparr>pw_manager := snd (dispatchEchoOnce env kind name requester (pw_manager w))\<rparr>)"
| Queue_shutdown: "pwstep cfg late w (w\<lparr>pw_accepts := False, pw_queued := []\<rparr>)"
| Shut_down: "pwstep cfg late w (prune_shutdown env w)"

abbreviation pw_reachable :: "lm_config \<Rightarrow> time \<Rightarrow> time \<Rightarrow> prune_world \<Rightarrow> bool" where
  "pw_reachable cfg late t \<equiv> (pwstep cfg late)\<^sup>*\<^sup>* (prune_world_init t)"

section \<open>Leases younger than a bound\<close>

definition fresh :: "time \<Rightarrow> lease_manager \<Rightarrow> bool" where
  "fresh b m \<longleftrightarrow> al_all (\<lambda>i l. b < sl_expiry l) (session_leases m)
     \<and> al_all (\<lambda>k s. al_all (\<lambda>r l. b < lease_expires l) (leases s)) (subscriptions m)"

lemma fresh_mono: "fresh b m \<Longrightarrow> b' \<le> b \<Longrightarrow> fresh b' m"
  unfolding fresh_def by (auto elim!: al_all_mono)

lemma renew_fresh:
  "al_all (\<lambda>r l. b < lease_expires l) (leases s) \<Longrightarrow> b < lease_expires l
    \<Longrightarrow> al_all (\<lambda>r l. b < lease_expires l) (leases (fst (renew_subscription env r l s tracks)))"
  by (auto simp: renew_subscription_def Let_def case_prod_beta al_all_update split: runtime.split)

lemma create_fresh:
  "fresh b m \<Longrightarrow> b < lease_expires l \<Longrightarrow> fresh b (snd (create_subscription env d r l m))"
  by (auto simp: create_subscription_def Let_def fresh_def al_all_update split: sum.split)

lemma ensure_fresh:
  assumes "fresh b m" "b < expiry"
  shows "fresh b (snd (ensure cfg env r d expiry m))"
proof (cases "lookup (subscriptions m) (rd_key d)")
  case None
  with assms create_fresh [of b m] show ?thesis by (auto simp: ensure_def Let_def split: sum.split)
next
  case (Some s)
  have "al_all (\<lambda>r l. b < lease_expires l) (leases s)"
    using assms(1) Some al_all_lookup [of _ "subscriptions m"] unfolding fresh_def by fastforce
  from renew_fresh [OF this] Some assms show ?thesis
    by (auto simp: ensure_def Let_def case_prod_beta fresh_def al_all_update)
qed

lemma demand_fresh: "fresh b m \<Longrightarrow> b < expiry \<Longrightarrow> fresh b (snd (appendDemandStatus cfg env r expiry d m))"
proof -
  assume a: "fresh b m" "b < expiry"
  have "fresh b m'" if "ensure cfg env r rd expiry m = (x, m')" for rd x m'
    using ensure_fresh [OF a, of cfg env r rd] that by simp
  with a show ?thesis by (auto simp: appendDemandStatus_def split: sum.split prod.split)
qed

lemma demands_fresh: "fresh b m \<Longrightarrow> b < expiry \<Longrightarrow> fresh b (snd (demand_statuses cfg env r expiry ds m))"
proof (induction ds arbitrary: m)
  case (Cons d ds)
  from Cons.IH [OF demand_fresh [OF Cons.prems] Cons.prems(2)] show ?case by (simp add: Let_def case_prod_beta)
qed simp

lemma session_fresh: "renewSessionLease r sid expiry m = Inr m' \<Longrightarrow> fresh b m \<Longrightarrow> b < expiry \<Longrightarrow> fresh b m'"
  by (auto simp: renewSessionLease_def fresh_def al_all_update split: option.splits if_splits)

lemma publish_fresh: "publishStatusReport env r rep m = Inr m' \<Longrightarrow> fresh b m \<Longrightarrow> fresh b m'"
  by (cases "le_send env") (auto simp: publishStatusReport_def fresh_def res_iffs split: if_splits)

lemma heartbeat_fresh:
  assumes "handleHeartbeatPayload parse cfg env r payload m = Inr m'" "fresh b m" "b < le_now env + cfg_lease_duration cfg"
  shows "fresh b m'"
proof -
  have "fresh b m'" if "handleHeartbeat cfg env r hb m = Inr m'" for hb
    using that assms(2,3)
    by (auto simp: handleHeartbeat_def Let_def createStatusReport_def case_prod_beta res_iffs split: option.splits sum.splits
        dest!: publish_fresh intro: demands_fresh session_fresh)
  with assms(1,2) show ?thesis by (auto simp: handleHeartbeatPayload_def split: sum.splits)
qed

lemma filter_all_kept: "length (filter P xs) = length xs \<Longrightarrow> x \<in> set xs \<Longrightarrow> P x"
  by (metis length_filter_less less_irrefl)

lemma prune_subscription_fresh:
  assumes "prune_subscription now s = Some s'"
  shows "al_all (\<lambda>r l. now < lease_expires l) (leases s')"
  using assms filter_all_kept [of "\<lambda>(r, l). now < lease_expires l" "leases s"]
  by (auto simp: prune_subscription_def Let_def al_all_def split: if_splits runtime.splits)

lemma prune_all_fresh: "al_all (\<lambda>k s. al_all (\<lambda>r l. now < lease_expires l) (leases s)) (fst (prune_all env now subs tracks))"
  by (induction env now subs tracks rule: prune_all.induct)
    (auto simp: case_prod_beta prune_subscription_fresh split: option.split)

lemma prune_fresh: "\<not> lm_shutdown m \<Longrightarrow> fresh (le_now env) (pruneExpiredLeases env m)"
  using prune_all_fresh
  by (auto simp: pruneExpiredLeases_def pruneLeases_def pruneSessionLeases_def fresh_def case_prod_beta al_all_def)

lemma deliver_fresh: "fresh b m \<Longrightarrow> fresh b (deliver k now bs m)"
  using al_all_lookup [of "\<lambda>k s. al_all (\<lambda>r l. b < lease_expires l) (leases s)" "subscriptions m" k]
  by (auto simp: deliver_def fresh_def al_all_update split: option.split runtime.split)

lemma echo_fresh: "fresh b m \<Longrightarrow> fresh b (snd (dispatchEchoOnce env kind name r m))"
  by (auto simp: dispatchEchoOnce_def fresh_def split: sum.split option.split runtime.split)

lemma shutdown_flag:
  "lm_shutdown (pruneExpiredLeases env m) = lm_shutdown m"
  "lm_shutdown (deliver k now bs m) = lm_shutdown m"
  "lm_shutdown (snd (dispatchEchoOnce env kind name r m)) = lm_shutdown m"
  "lm_shutdown (lm_shutdown_op env m)"
  by (auto simp: pruneExpiredLeases_def pruneLeases_def pruneSessionLeases_def case_prod_beta deliver_def dispatchEchoOnce_def
      lm_shutdown_op_def split: sum.split option.split runtime.split)

section \<open>Invariant\<close>

text \<open>
  While a timer runs and the queue takes its work: the leases are younger than the last prune, and the next prune is bounded,
  by the timer when nothing is queued and by the first queued prune otherwise.
\<close>

definition pw_timely :: "time \<Rightarrow> prune_world \<Rightarrow> bool" where
  "pw_timely late w \<longleftrightarrow>
     fresh (pw_last w) (pw_manager w) \<and> pw_last w \<le> pw_now w \<and> on_time late (pw_now w) w
     \<and> list_all (\<lambda>q. q \<le> pw_now w) (pw_queued w) \<and> sorted (pw_queued w)
     \<and> (case pw_due w of
          None \<Rightarrow> False
        | Some d \<Rightarrow> d \<le> pw_now w + kPruneInterval
            \<and> (if pw_queued w = [] then d \<le> pw_last w + kPruneInterval else hd (pw_queued w) \<le> pw_last w + kPruneInterval + late))"

definition pw_inv :: "time \<Rightarrow> prune_world \<Rightarrow> bool" where
  "pw_inv late w \<longleftrightarrow> lm_inv (pw_manager w) \<and> (lm_shutdown (pw_manager w) \<longleftrightarrow> pw_due w = None)
     \<and> (pw_accepts w \<and> pw_due w \<noteq> None \<longrightarrow> pw_timely late w)"

lemma pw_inv_init: "late \<ge> 0 \<Longrightarrow> pw_inv late (prune_world_init t)"
  using lm_inv_init
  by (simp add: pw_inv_def pw_timely_def prune_world_init_def startPruneTimer_def fresh_def lm_init_def on_time_def kPruneInterval_def)

text \<open>Steps that change the manager only.\<close>

lemma pw_inv_manager:
  assumes "pw_inv late w" "lm_inv m" "lm_shutdown m = lm_shutdown (pw_manager w)"
    "fresh (pw_last w) (pw_manager w) \<Longrightarrow> pw_last w \<le> pw_now w \<Longrightarrow> fresh (pw_last w) m"
  shows "pw_inv late (w\<lparr>pw_manager := m\<rparr>)"
  using assms by (auto simp: pw_inv_def pw_timely_def on_time_def split: option.splits)

lemma pw_inv_fire:
  assumes "pw_inv late w" "pw_due w = Some d" "d \<le> pw_now w" "next \<le> pw_now w + kPruneInterval" "late \<ge> 0"
    "pw_now w \<le> next"
  shows "pw_inv late (prune_submit (w\<lparr>pw_due := Some next\<rparr>))"
  using assms by (auto simp: pw_inv_def pw_timely_def prune_submit_def on_time_def sorted_append list_all_iff split: if_splits)

lemma pw_inv_run:
  assumes "pw_inv late w" "pw_queued w \<noteq> []" "le_now env = pw_now w" "late \<ge> 0"
  shows "pw_inv late (prune_run env w)"
proof -
  have ok: "lm_inv (pruneExpiredLeases env (pw_manager w))" using assms(1) prune_ok
    by (cases "lm_shutdown (pw_manager w)") (auto simp: pw_inv_def pruneExpiredLeases_def)
  have "pw_timely late (prune_run env w)" if t: "pw_timely late w" "\<not> lm_shutdown (pw_manager w)"
  proof -
    have "fresh (pw_now w) (pruneExpiredLeases env (pw_manager w))" using prune_fresh [OF t(2), of env] assms(3) by simp
    moreover obtain q qs where q: "pw_queued w = q # qs" using assms(2) by (cases "pw_queued w") auto
    moreover have "qs = [] \<or> q \<le> hd qs \<and> hd qs \<le> pw_now w"
      using t(1) q by (cases qs) (auto simp: pw_timely_def)
    ultimately show ?thesis using t(1) assms(4)
      by (auto simp: pw_timely_def prune_run_def on_time_def kPruneInterval_def split: option.splits)
  qed
  with ok assms(1) show ?thesis by (auto simp: pw_inv_def prune_run_def shutdown_flag)
qed

lemma pw_inv_step:
  assumes "pwstep cfg late w w'" "pw_inv late w" "late \<ge> 0" "cfg_lease_duration cfg > 0"
  shows "pw_inv late w'"
  using assms
proof (induction rule: pwstep.induct)
  case (Advance w t)
  then show ?case by (auto simp: pw_inv_def pw_timely_def on_time_def list_all_iff split: option.splits)
next
  case (Fire w d "next")
  then show ?case by (intro pw_inv_fire)
next
  case (Run w env)
  then show ?case by (intro pw_inv_run)
next
  case (Heartbeat env w parse r payload m)
  obtain "lm_inv m" "lm_shutdown m = lm_shutdown (pw_manager w)"
    using payload_ok [of "pw_manager w" parse cfg env r payload] Heartbeat.prems(1) Heartbeat.hyps(2) by (auto simp: pw_inv_def)
  moreover have "fresh (pw_last w) m" if "fresh (pw_last w) (pw_manager w)" "pw_last w \<le> pw_now w"
    using heartbeat_fresh [OF Heartbeat.hyps(2) that(1)] that(2) Heartbeat by simp
  ultimately show ?case using pw_inv_manager [OF Heartbeat.prems(1)] by blast
next
  case (Message w k now b)
  have "lm_inv (deliver k now b (pw_manager w))"
    using Message(1) lm_inv_step [OF lmstep.Message] by (simp add: pw_inv_def)
  with Message show ?case by (intro pw_inv_manager) (simp_all add: shutdown_flag deliver_fresh)
next
  case (Echo w env kind name r)
  have "lm_inv (snd (dispatchEchoOnce env kind name r (pw_manager w)))"
    using Echo(1) lm_inv_step [OF lmstep.Echo] by (simp add: pw_inv_def)
  with Echo show ?case by (intro pw_inv_manager) (simp_all add: shutdown_flag echo_fresh)
next
  case (Queue_shutdown w)
  then show ?case by (simp add: pw_inv_def)
next
  case (Shut_down w env)
  have "lm_inv (lm_shutdown_op env (pw_manager w))"
    using Shut_down(1) lm_inv_step [OF lmstep.Shut_down] by (simp add: pw_inv_def)
  then show ?case by (simp add: pw_inv_def prune_shutdown_def shutdown_flag)
qed

lemma pw_inv_reachable:
  assumes "pw_reachable cfg late t w" "late \<ge> 0" "cfg_lease_duration cfg > 0"
  shows "pw_inv late w"
  using assms by (induction rule: rtranclp_induct) (auto intro: pw_inv_step pw_inv_init)

lemma prune_world_manager: "pw_manager (prune_world_init t) = lm_init"
  by (simp add: prune_world_init_def startPruneTimer_def)

lemma prune_world_now: "pw_now (prune_world_init t) = t"
  by (simp add: prune_world_init_def startPruneTimer_def)

section \<open>Properties\<close>

text \<open>
  expired leases do not linger: while the manager is up and the queue takes work, a session or a lease that is still in
  its table expired less than one prune interval and twice the executor's lateness ago. After shutdown there is no timer.
\<close>

theorem expired_leases_removed_in_time:
  assumes "pw_reachable cfg late t w" "late \<ge> 0" "cfg_lease_duration cfg > 0" "pw_accepts w"
  shows "if lm_shutdown (pw_manager w) then pw_due w = None
    else (\<forall>i l. lookup (session_leases (pw_manager w)) i = Some l \<longrightarrow> pw_now w < sl_expiry l + kPruneInterval + 2 * late)
      \<and> (\<forall>k s r l. lookup (subscriptions (pw_manager w)) k = Some s \<longrightarrow> lookup (leases s) r = Some l
           \<longrightarrow> pw_now w < lease_expires l + kPruneInterval + 2 * late)"
proof -
  note inv = pw_inv_reachable [OF assms(1-3)]
  show ?thesis
  proof (cases "lm_shutdown (pw_manager w)")
    case True
    with inv show ?thesis by (simp add: pw_inv_def)
  next
    case False
    with inv assms(4) have timely: "pw_timely late w" by (auto simp: pw_inv_def)
    then have "pw_now w \<le> pw_last w + kPruneInterval + 2 * late"
      using assms(2) by (auto simp: pw_timely_def on_time_def split: option.splits if_splits)
    with timely have "fresh (pw_now w - kPruneInterval - 2 * late) (pw_manager w)"
      by (auto simp: pw_timely_def elim!: fresh_mono)
    then have s: "al_all (\<lambda>i l. pw_now w < sl_expiry l + kPruneInterval + 2 * late) (session_leases (pw_manager w))"
      and k: "al_all (\<lambda>k s. al_all (\<lambda>r l. pw_now w < lease_expires l + kPruneInterval + 2 * late) (leases s)) (subscriptions (pw_manager w))"
      by (auto simp: fresh_def elim!: al_all_mono)
    from False al_all_lookup [OF s] al_all_lookup [OF al_all_lookup [OF k]] show ?thesis by auto
  qed
qed

theorem expired_leases_removed_in_time_witness:
  "lookup (session_leases sample_state) ''s1'' = Some \<lparr>sl_requester = ''alice'', sl_expiry = 15000\<rparr>
   \<and> 1000000000 < 15000 + kPruneInterval + 2 * (0 :: time)"
proof -
  let ?w = "(prune_world_init 0)\<lparr>pw_manager := sample_state\<rparr>"
  let ?v = "?w\<lparr>pw_now := 1000000000\<rparr>"
  have up: "\<not> lm_shutdown sample_state" by code_simp
  have l: "lookup (session_leases sample_state) ''s1'' = Some \<lparr>sl_requester = ''alice'', sl_expiry = 15000\<rparr>" by code_simp
  have "pwstep sample_cfg 0 (prune_world_init 0) ?w"
    using sample_first_beat by (intro pwstep.Heartbeat [of "robot_env 0"]) (simp_all add: prune_world_now prune_world_manager)
  moreover have "pwstep sample_cfg 0 ?w ?v"
    by (rule pwstep.Advance) (simp_all add: prune_world_init_def startPruneTimer_def on_time_def kPruneInterval_def)
  ultimately have "pw_reachable sample_cfg 0 0 ?v" by (meson rtranclp.rtrancl_into_rtrancl rtranclp.rtrancl_refl)
  from expired_leases_removed_in_time [OF this] up l show ?thesis
    by (fastforce simp: sample_cfg_def prune_world_init_def startPruneTimer_def)
qed

end
