(* ===== verification/Spec2Isabelle.thy ===== *)
theory Spec2Isabelle
  imports
    Text_Utils Resource_Names Access_Policy Subscription_Qos Json_Fields Protocol_Subscriptions Base64
    Protocol_Requests Settlement Executor_Queue Callback_Gate Caches Topic_Publisher Service_Caller
    Pipeline_Validation Stream_Config Data_Track Lease_Manager Lease_Properties Definition_Lookup
    Room_Connection Rpc_Router Watchdog Failure_Handler Media_Pipeline Track_Publishers Media_Streams
    Stream_Locks Ros_Stream Runtime_Config Runtime
    Service_Waitable Type_Support Pipeline_Session Data_Session Log_Lines
    Drain_Waitable Gst_Resources Media_Path Audio_Path Video_Path Stream_Logs
    Lease_Logs Prune_Timer
begin

text \<open>
  A verification library of the LiveKit to ROS 2 bridge: a ROS 2 node that joins a LiveKit room and
  lets its participants list, watch, echo and publish ROS topics, call ROS services, and receive
  video and audio. Definitions are translated from the C++ sources under src/src/; each theory opens
  with the files it models.

  \<^bold>\<open>The program.\<close> The room connection owns the LiveKit room and reports its state, its packets and the
  participants that leave. The runtime passes these through a callback gate and queues work for the ROS executor:
  publish requests go to the topic publisher, heartbeats to the lease manager, departures to the
  service caller. RPC methods of the room are served by the router. The lease manager keeps one
  shared subscription per topic alive as long as some participant renews its lease, and feeds data
  tracks, or media tracks through GStreamer pipelines. A watchdog ends the process when an outage
  lasts too long.

  \<^bold>\<open>Conventions.\<close> A call that may throw returns a sum whose left side is the exception (\<open>exn\<close>); containers
  keyed by strings or handles are association lists; bytes are \<open>8 word\<close>, the counters of the
  barriers and the room generation \<open>64 word\<close> with their wrap-around; time is in nanoseconds, an argument of each call. Code
  that is not in the repository (LiveKit SDK, rclcpp, rmw, GStreamer, OpenSSL, nlohmann's parser,
  the file system) is an argument: a function, or the answers the call gets. Threads are
  interleaved at the granularity of critical sections by \<open>inductive\<close> step relations; reachable
  states are what these relations reach, and ghost fields record the history a property speaks of.

  \<^bold>\<open>Shared theories.\<close>
  \<^item> \<open>Bridge_Prelude\<close>: exceptions, results, association lists, collections of rewrite rules.
  \<^item> \<open>Settlement\<close>: the locales \<open>settlement\<close> (every request is pending or settled exactly once) and
    \<open>terminal_shutdown\<close>. The queue, the service caller and both track publishers are interpretations of the first;
    the failure handler, the lease manager, the streams, the track publishers, the audio and video paths, the data session, a queue that is gone and the runtime of the second.
  \<^item> \<open>Callback_Gate\<close>: the locale \<open>gate\<close> and its two interpretations, \<open>CallbackGate\<close> of
    utils/callback_gate.hpp and the one-word counter of the service waitable and the pipelines.
  \<^item> \<open>Caches\<close>: the locale \<open>bounded_cache\<close>, the failure cache, the type support cache, the event throttle.

  \<^bold>\<open>Protocol.\<close> \<open>Text_Utils\<close> and \<open>Log_Lines\<close> (utils/trim.hpp, percent_encode.cpp, log_event.hpp: quoted client values cannot break a line), \<open>Json_Fields\<close>
  (protocol/detail/json_fields.hpp), \<open>Base64\<close> (decoding accepts exactly the canonical encodings),
  \<open>Protocol_Subscriptions\<close> (heartbeats are coalesced to one demand per target, status reports), \<open>Protocol_Requests\<close> (the codecs of the RPC
  payloads), \<open>Resource_Names\<close>, \<open>Access_Policy\<close> (default deny, deny wins), \<open>Subscription_Qos\<close>.

  \<^bold>\<open>ROS side.\<close> \<open>Executor_Queue\<close> and \<open>Drain_Waitable\<close> (ros_executor_queue.cpp: every task settles once, in order, no lost
  wake-up, an open queue can always finish, late executor callbacks are harmless), \<open>Topic_Publisher\<close> (ros_topic_publisher.cpp), \<open>Service_Caller\<close> and
  \<open>Service_Waitable\<close> (ros_service_caller.cpp: every call settles once, the quota is exact; composed with
  the executor, the clients of all inflight calls are waited for and their deadlines armed), \<open>Definition_Lookup\<close> (definition_lookup.cpp: the recursion terminates with a depth of the number of
  loadable types as fuel, and returns exactly the closure), \<open>Type_Support\<close> (message_type_support.cpp, service_type_support.cpp: failed constructions leave no library open),
  \<open>Lease_Manager\<close> and \<open>Lease_Properties\<close> (subscription_lease_manager.cpp: sessions stay bound to their identity, only permitted
  demands touch a subscription, the interval is the minimum of the leases, pruning is exact), \<open>Lease_Logs\<close> (its throttled lines: their counts are the entries
  the status reports answered) and \<open>Prune_Timer\<close> (its timer with explicit time: expired leases are gone within the prune interval and
  twice the executor's lateness),
  \<open>Data_Track\<close> and \<open>Data_Session\<close> (data_track_publisher.cpp: throttling, and the callbacks against the destructor).

  \<^bold>\<open>Room side.\<close> \<open>Room_Connection\<close> (room_connection.cpp: tracks are unpublished only in the room that
  published them, a connection attempt ends with everything or nothing, a stopped connection is silent), \<open>Rpc_Router\<close>
  (rpc_router.cpp: guarded service calls and echoes, exact listings, complete definitions), \<open>Watchdog\<close>
  (connection_watchdog.cpp: exits exactly after an outage of the recovery timeout).

  \<^bold>\<open>Media.\<close> \<open>Pipeline_Validation\<close> and \<open>Stream_Config\<close> (configuration and stream specs),
  \<open>Media_Pipeline\<close> (the two gstreamer_pipeline.cpp: unpacking stays in bounds and loses nothing),
  \<open>Pipeline_Session\<close> (starts and stops against the raw callbacks of GStreamer's threads),
  \<open>Track_Publishers\<close> (the two track_publisher.cpp), \<open>Failure_Handler\<close>
  (utils/pipeline_failure_handler.cpp), \<open>Media_Streams\<close> (the two gstreamer_stream.cpp), \<open>Stream_Locks\<close>
  (the locks of a stop against a sample callback), \<open>Ros_Stream\<close> and \<open>Stream_Logs\<close> (video/ros_stream.cpp and the lines it logs),
  \<open>Gst_Resources\<close> (utils/gstreamer_resources.hpp, video/gstreamer_resources.hpp: the code that runs under the owners computes what the
  pure models compute and releases every resource exactly once). \<open>Audio_Path\<close> and \<open>Video_Path\<close> compose publisher, stream and pipeline
  from \<open>create\<close> to \<open>close\<close>: each part does only what it can do on its own, what becomes of a frame, and that closing ends. The locale \<open>closing_path\<close>
  of \<open>Media_Path\<close> says when a close runs to its end; both paths are interpretations.

  \<^bold>\<open>The whole.\<close> \<open>Runtime_Config\<close> (runtime_config.cpp) and \<open>Runtime\<close> (runtime.cpp, node.cpp): the composed
  state, the room callbacks, the executor and the destructor. The locale \<open>component\<close> says that a
  component inside the bridge reaches only what it can reach on its own; it is interpreted for the
  queue, the service caller, the lease manager, the room connection and the publisher, so that their
  properties hold of the running bridge.

  \<^bold>\<open>Fuel and bounds.\<close> Only the definition lookup takes fuel, and more than the number of loadable types is proved
  to suffice. The loop over a GStreamer iterator has no result when the iterator asks for a resync for ever, and is proved to return for every
  iterator that ends. Sizes of buffers are natural numbers below the limits of the code's casts where a statement says so; the
  room property holds up to the wrap-around of the 64-bit generation.

  \<^bold>\<open>Not modelled.\<close> The text of log lines apart from the field renderers and the lines a property
  mentions; the fields of \<open>rcl_wait_set_t\<close> beyond the slots the waitable reads; what dynamic libraries and rosidl
  introspection contain; generated parameter code; threads' scheduling and memory model beyond
  the interleaving of critical sections.
\<close>

end
